(* ===== verification/Kite_Prelude.thy ===== *)
theory Kite_Prelude
  imports Main "HOL-Library.Word"
begin

text \<open>
  The prelude of the Kite Mesh development: the machine types of the Rust sources, the
  outcome of a Rust computation (a value, an error that \<^verbatim>\<open>?\<close> propagates, or a panic), the
  combinators the components use on it, the standard-library operations on integers that
  the sources call, and the generic lemmas the component theories share.
\<close>

section \<open>Collections of rules\<close>

named_theorems exec_simps \<open>rewriting of outcomes\<close>

section \<open>Machine types\<close>

type_synonym u8 = "8 word"
type_synonym u32 = "32 word"
type_synonym i32 = "32 word"
type_synonym u64 = "64 word"
type_synonym i64 = "64 word"
type_synonym bytes = "u8 list"

section \<open>Outcomes of a computation\<close>

text \<open>
  \<^verbatim>\<open>Result<T, E>\<close> with the panic of the thread as a third outcome: a panic is not an error
  that \<^verbatim>\<open>is_err()\<close> sees, it unwinds through every caller.
\<close>

datatype ('a, 'e) exec = Ok 'a | Err 'e | Panic string

fun bind_exec :: "('a, 'e) exec \<Rightarrow> ('a \<Rightarrow> ('b, 'e) exec) \<Rightarrow> ('b, 'e) exec" where
  "bind_exec (Ok a) f = f a"
| "bind_exec (Err e) f = Err e"
| "bind_exec (Panic p) f = Panic p"

fun map_err :: "('e \<Rightarrow> 'f) \<Rightarrow> ('a, 'e) exec \<Rightarrow> ('a, 'f) exec" where
  "map_err g (Ok a) = Ok a"
| "map_err g (Err e) = Err (g e)"
| "map_err g (Panic p) = Panic p"

fun of_sum :: "('e \<Rightarrow> 'f) \<Rightarrow> 'e + 'a \<Rightarrow> ('a, 'f) exec" where
  "of_sum g (Inl e) = Err (g e)"
| "of_sum g (Inr a) = Ok a"

fun ok_or :: "'e \<Rightarrow> 'a option \<Rightarrow> ('a, 'e) exec" where
  "ok_or e None = Err e"
| "ok_or e (Some a) = Ok a"

fun is_ok :: "('a, 'e) exec \<Rightarrow> bool" where
  "is_ok (Ok a) = True"
| "is_ok (Err e) = False"
| "is_ok (Panic p) = False"

fun is_panic :: "('a, 'e) exec \<Rightarrow> bool" where
  "is_panic (Ok a) = False"
| "is_panic (Err e) = False"
| "is_panic (Panic p) = True"

text \<open>An iterator adaptor \<^verbatim>\<open>map\<close> whose closure may fail or panic: the first failure stops it.\<close>

fun try_map :: "('a \<Rightarrow> ('b, 'e) exec) \<Rightarrow> 'a list \<Rightarrow> ('b list, 'e) exec" where
  "try_map f [] = Ok []"
| "try_map f (x # xs) = bind_exec (f x) (\<lambda>y. bind_exec (try_map f xs) (\<lambda>ys. Ok (y # ys)))"

section \<open>Integers of the standard library\<close>

definition saturating_add :: "u64 \<Rightarrow> u64 \<Rightarrow> u64" where
  "saturating_add a b = (if unat a + unat b < 2 ^ 64 then a + b else of_nat (2 ^ 64 - 1))"

text \<open>\<^verbatim>\<open>u32::to_le_bytes\<close>, \<^verbatim>\<open>u32::from_le_bytes\<close> and their big-endian counterparts.\<close>

definition to_le_bytes :: "u32 \<Rightarrow> bytes" where
  "to_le_bytes w = [ucast w, ucast (drop_bit 8 w), ucast (drop_bit 16 w), ucast (drop_bit 24 w)]"

definition to_be_bytes :: "u32 \<Rightarrow> bytes" where
  "to_be_bytes w = rev (to_le_bytes w)"

fun from_le_bytes :: "bytes \<Rightarrow> u32" where
  "from_le_bytes [] = 0"
| "from_le_bytes (b # bs) = ucast b + push_bit 8 (from_le_bytes bs)"

definition from_be_bytes :: "bytes \<Rightarrow> u32" where
  "from_be_bytes bs = from_le_bytes (rev bs)"

text \<open>
  \<^verbatim>\<open>SystemTime::now().duration_since(UNIX_EPOCH)\<close> is given as the nanoseconds since the epoch,
  or nothing when the clock stands before it; \<^verbatim>\<open>as_nanos() as u64\<close> keeps the low 64 bits.
\<close>

definition now_ns :: "nat option \<Rightarrow> u64" where
  "now_ns t = (case t of Some n \<Rightarrow> of_nat n | None \<Rightarrow> 0)"

section \<open>Shared lemmas\<close>

lemma bind_exec_Ok_iff [exec_simps]:
  "bind_exec m f = Ok b \<longleftrightarrow> (\<exists>a. m = Ok a \<and> f a = Ok b)"
  by (cases m) auto

lemma bind_exec_Panic_iff [exec_simps]:
  "bind_exec m f = Panic p \<longleftrightarrow> m = Panic p \<or> (\<exists>a. m = Ok a \<and> f a = Panic p)"
  by (cases m) auto

lemma bind_exec_Err_iff [exec_simps]:
  "bind_exec m f = Err e \<longleftrightarrow> m = Err e \<or> (\<exists>a. m = Ok a \<and> f a = Err e)"
  by (cases m) auto

lemma map_err_Ok_iff [exec_simps]: "map_err g m = Ok a \<longleftrightarrow> m = Ok a"
  by (cases m) auto

lemma of_sum_Ok_iff [exec_simps]: "of_sum g s = Ok a \<longleftrightarrow> s = Inr a"
  by (cases s) auto

lemma of_sum_Panic [simp]: "of_sum g s \<noteq> Panic p"
  by (cases s) auto

lemma ok_or_Ok_iff [exec_simps]: "ok_or e x = Ok a \<longleftrightarrow> x = Some a"
  by (cases x) auto

lemma ok_or_Panic [simp]: "ok_or e x \<noteq> Panic p"
  by (cases x) auto

lemma is_ok_iff: "is_ok m \<longleftrightarrow> (\<exists>a. m = Ok a)"
  by (cases m) auto

lemma is_panic_iff: "is_panic m \<longleftrightarrow> (\<exists>p. m = Panic p)"
  by (cases m) auto

lemma try_map_Ok_length: "try_map f xs = Ok ys \<Longrightarrow> length ys = length xs"
  by (induction xs arbitrary: ys) (auto simp: exec_simps)

lemma try_map_Ok_nth:
  "try_map f xs = Ok ys \<Longrightarrow> i < length xs \<Longrightarrow> f (xs ! i) = Ok (ys ! i)"
  by (induction xs arbitrary: ys i) (auto simp: exec_simps nth_Cons split: nat.splits)

lemma try_map_all_Ok:
  "(\<And>x. x \<in> set xs \<Longrightarrow> f x = Ok (g x)) \<Longrightarrow> try_map f xs = Ok (map g xs)"
  by (induction xs) auto

lemma length_to_le_bytes [simp]: "length (to_le_bytes w) = 4"
  by (simp add: to_le_bytes_def)

lemma length_to_be_bytes [simp]: "length (to_be_bytes w) = 4"
  by (simp add: to_be_bytes_def)

lemma unat_saturating_add: "unat (saturating_add a b) = min (unat a + unat b) (2 ^ 64 - 1)"
proof (cases "unat a + unat b < 2 ^ 64")
  case True
  then show ?thesis by (simp add: saturating_add_def unat_word_ariths)
next
  case False
  then show ?thesis by (simp add: saturating_add_def unat_of_nat)
qed

lemma ucast_u8_u32: "(ucast (ucast (w :: u32) :: u8) :: u32) = take_bit 8 w"
  by (rule bit_word_eqI) (auto simp: bit_simps)

lemma take_bit_top_byte: "take_bit 8 (drop_bit 24 (w :: u32)) = drop_bit 24 w"
  by (rule bit_word_eqI) (auto simp: bit_simps dest: bit_imp_le_length)

lemma low_byte_split: "take_bit 8 (w :: u32) + push_bit 8 (drop_bit 8 w) = w"
  by (metis add.commute bits_ident)

lemma from_le_to_le_bytes [simp]: "from_le_bytes (to_le_bytes w) = w"
proof -
  have "from_le_bytes (to_le_bytes w) =
    take_bit 8 w + push_bit 8 (take_bit 8 (drop_bit 8 w) +
      push_bit 8 (take_bit 8 (drop_bit 16 w) + push_bit 8 (drop_bit 24 w)))"
    by (simp add: to_le_bytes_def ucast_u8_u32 take_bit_top_byte)
  also have "take_bit 8 (drop_bit 16 w) + push_bit 8 (drop_bit 24 w) = drop_bit 16 w"
    using low_byte_split [of "drop_bit 16 w"] by simp
  also have "take_bit 8 (drop_bit 8 w) + push_bit 8 (drop_bit 16 w) = drop_bit 8 w"
    using low_byte_split [of "drop_bit 8 w"] by simp
  finally show ?thesis by (simp only: low_byte_split)
qed

lemma from_be_to_be_bytes [simp]: "from_be_bytes (to_be_bytes w) = w"
  by (simp add: from_be_bytes_def to_be_bytes_def)

lemma to_le_bytes_inject [simp]: "to_le_bytes a = to_le_bytes b \<longleftrightarrow> a = b"
  by (metis from_le_to_le_bytes)

end
