(* ===== verification/Kite_Strings.thy ===== *)
theory Kite_Strings
  imports Kite_Prelude "HOL-Library.Char_ord" "HOL-Library.List_Lexorder"
begin

text \<open>
  Strings of the Rust sources. A \<^verbatim>\<open>String\<close> is its UTF-8 bytes, a list of 8-bit characters,
  so the order of \<^verbatim>\<open>sort()\<close> is the lexicographic order of the bytes. The theory models the
  operations of \<^verbatim>\<open>str\<close> that the components call: \<^verbatim>\<open>as_bytes\<close>, \<^verbatim>\<open>eq_ignore_ascii_case\<close>,
  \<^verbatim>\<open>trim\<close> (with the Unicode \<^verbatim>\<open>White_Space\<close> characters in their UTF-8 form) and
  \<^verbatim>\<open>to_lowercase\<close>. The Unicode lower-case tables are data that is not in the repository:
  on a string with a non-ASCII byte the result is that of a parameter.
\<close>

section \<open>Operations\<close>

definition as_bytes :: "string \<Rightarrow> bytes" where
  "as_bytes s = map (\<lambda>c. of_nat (of_char c)) s"

definition ascii_lower :: "char \<Rightarrow> char" where
  "ascii_lower c = (if (65 :: nat) \<le> of_char c \<and> of_char c \<le> (90 :: nat)
     then char_of (of_char c + 32 :: nat) else c)"

definition is_ascii_char :: "char \<Rightarrow> bool" where
  "is_ascii_char c \<longleftrightarrow> of_char c < (128 :: nat)"

definition is_ascii :: "string \<Rightarrow> bool" where
  "is_ascii s \<longleftrightarrow> list_all is_ascii_char s"

definition eq_ignore_ascii_case :: "string \<Rightarrow> string \<Rightarrow> bool" where
  "eq_ignore_ascii_case a b \<longleftrightarrow> map ascii_lower a = map ascii_lower b"

text \<open>
  The UTF-8 sequences of the characters with the property \<^verbatim>\<open>White_Space\<close>: U+0009 to U+000D,
  U+0020, U+0085, U+00A0, U+1680, U+2000 to U+200A, U+2028, U+2029, U+202F, U+205F, U+3000.
\<close>

definition utf8_spaces :: "string list" where
  "utf8_spaces =
     map (\<lambda>b. [char_of (b :: nat)]) [9, 10, 11, 12, 13, 32] @
     map (map (char_of :: nat \<Rightarrow> char))
       ([[0xC2, 0x85], [0xC2, 0xA0], [0xE1, 0x9A, 0x80]] @
        map (\<lambda>b. [0xE2, 0x80, b])
          [0x80, 0x81, 0x82, 0x83, 0x84, 0x85, 0x86, 0x87, 0x88, 0x89, 0x8A, 0xA8, 0xA9, 0xAF] @
        [[0xE2, 0x81, 0x9F], [0xE3, 0x80, 0x80]])"

text \<open>The length of the white space character a string starts with, or 0.\<close>

definition space_prefix :: "string list \<Rightarrow> string \<Rightarrow> nat" where
  "space_prefix ws s = (case find (\<lambda>w. take (length w) s = w) ws of None \<Rightarrow> 0 | Some w \<Rightarrow> length w)"

function strip_front :: "string list \<Rightarrow> string \<Rightarrow> string" where
  "strip_front ws s =
     (let n = space_prefix ws s in
      if n = 0 \<or> s = [] then s else strip_front ws (drop n s))"
  by pat_completeness auto
termination
  by (relation "measure (\<lambda>(ws, s). length s)") auto

declare strip_front.simps [simp del]

definition trim :: "string \<Rightarrow> string" where
  "trim s = rev (strip_front (map rev utf8_spaces) (rev (strip_front utf8_spaces s)))"

text \<open>\<open>uni\<close> is the Unicode lower-casing of strings with a non-ASCII character.\<close>

definition to_lowercase :: "(string \<Rightarrow> string) \<Rightarrow> string \<Rightarrow> string" where
  "to_lowercase uni s = (if is_ascii s then map ascii_lower s else uni s)"

section \<open>Lemmas\<close>

lemma ascii_lower_idem [simp]: "ascii_lower (ascii_lower c) = ascii_lower c"
  by (auto simp: ascii_lower_def)

lemma is_ascii_lower [simp]: "is_ascii_char (ascii_lower c) \<longleftrightarrow> is_ascii_char c"
  by (auto simp: ascii_lower_def is_ascii_char_def)

lemma map_ascii_lower_idem [simp]: "map ascii_lower (map ascii_lower s) = map ascii_lower s"
  by simp

lemma is_ascii_map_lower [simp]: "is_ascii (map ascii_lower s) \<longleftrightarrow> is_ascii s"
  by (simp add: is_ascii_def list_all_iff)

lemma unat_of_nat_of_char: "unat (of_nat (of_char c) :: u8) = of_char c"
  by (simp add: unat_of_nat)

lemma as_bytes_inject [simp]: "as_bytes a = as_bytes b \<longleftrightarrow> a = b"
proof -
  have "inj (\<lambda>c. of_nat (of_char c) :: u8)"
    by (rule injI) (metis unat_of_nat_of_char of_char_eq_iff)
  then show ?thesis by (simp add: as_bytes_def inj_map_eq_map)
qed

lemma length_as_bytes [simp]: "length (as_bytes s) = length s"
  by (simp add: as_bytes_def)

lemma eq_ignore_ascii_case_refl [simp]: "eq_ignore_ascii_case a a"
  by (simp add: eq_ignore_ascii_case_def)

lemma eq_ignore_ascii_case_sym: "eq_ignore_ascii_case a b \<Longrightarrow> eq_ignore_ascii_case b a"
  by (simp add: eq_ignore_ascii_case_def)

lemma eq_ignore_ascii_case_trans:
  "eq_ignore_ascii_case a b \<Longrightarrow> eq_ignore_ascii_case b c \<Longrightarrow> eq_ignore_ascii_case a c"
  by (simp add: eq_ignore_ascii_case_def)

lemma to_lowercase_ascii_eq_iff:
  "is_ascii a \<Longrightarrow> is_ascii b \<Longrightarrow> to_lowercase uni a = to_lowercase uni b \<longleftrightarrow> eq_ignore_ascii_case a b"
  by (simp add: to_lowercase_def eq_ignore_ascii_case_def)

text \<open>Evaluation on concrete strings.\<close>

lemma utf8_spaces_chars:
  "utf8_spaces = [[CHR 0x09], [CHR 0x0A], [CHR 0x0B], [CHR 0x0C], [CHR 0x0D], [CHR 0x20], [CHR 0xC2, CHR 0x85],
     [CHR 0xC2, CHR 0xA0], [CHR 0xE1, CHR 0x9A, CHR 0x80]] @
   map (\<lambda>c. [CHR 0xE2, CHR 0x80, c]) [CHR 0x80, CHR 0x81, CHR 0x82, CHR 0x83, CHR 0x84, CHR 0x85, CHR 0x86, CHR 0x87,
     CHR 0x88, CHR 0x89, CHR 0x8A, CHR 0xA8, CHR 0xA9, CHR 0xAF] @
   [[CHR 0xE2, CHR 0x81, CHR 0x9F], [CHR 0xE3, CHR 0x80, CHR 0x80]]"
  by (simp add: utf8_spaces_def char_of_def bit_iff_odd)

lemmas trim_eval = trim_def strip_front.simps space_prefix_def utf8_spaces_chars

lemmas ascii_eval = is_ascii_def ascii_lower_def is_ascii_char_def char_of_def bit_iff_odd of_char_def

end
