(* ===== verification/Kite_Float.thy ===== *)
theory Kite_Float
  imports Kite_Prelude Complex_Main
begin

text \<open>
  The floating-point types of the Rust sources, IEEE 754 binary32 and binary64 with
  round-to-nearest-even, as an executable software float. A finite number is a sign, an
  integer significand and an exponent, \<open>(-1)\<^sup>s * m * 2\<^sup>e\<close>; every operation computes the exact
  result on integers and rounds it once. The bits of a NaN are not modelled (no operation of
  the sources reads them).
\<close>

section \<open>Formats and numbers\<close>

datatype flt = FNaN | FInf bool | FFin bool nat int

type_synonym f32 = flt
type_synonym f64 = flt

record fmt =
  prec :: nat
  emin :: int
  emax :: int

definition binary32 :: fmt where
  "binary32 = \<lparr>prec = 24, emin = - 149, emax = 104\<rparr>"

definition binary64 :: fmt where
  "binary64 = \<lparr>prec = 53, emin = - 1074, emax = 971\<rparr>"

text \<open>\<^verbatim>\<open>std::cmp::Ordering\<close>.\<close>

datatype ordering = Less | Equal | Greater

section \<open>Rounding\<close>

fun bit_len :: "nat \<Rightarrow> nat" where
  "bit_len n = (if n = 0 then 0 else Suc (bit_len (n div 2)))"

declare bit_len.simps [simp del]

text \<open>A significand that the rounding carried to \<open>2\<^sup>p\<close> is renormalised; too large an exponent overflows.\<close>

definition finish_flt :: "fmt \<Rightarrow> bool \<Rightarrow> nat \<Rightarrow> int \<Rightarrow> flt" where
  "finish_flt F s a q =
     (let a' = (if a = 2 ^ prec F then a div 2 else a);
          q' = (if a = 2 ^ prec F then q + 1 else q)
      in if emax F < q' then FInf s else FFin s a' q')"

text \<open>The exponent of the last place of the rounded number.\<close>

definition ulp_exp :: "fmt \<Rightarrow> nat \<Rightarrow> int \<Rightarrow> int" where
  "ulp_exp F m e = max (emin F) (e + int (bit_len m) - int (prec F))"

definition round_even :: "nat \<Rightarrow> nat \<Rightarrow> nat" where
  "round_even m d =
     (let a = m div 2 ^ d; r = m mod 2 ^ d; h = 2 ^ (d - 1)
      in if h < r \<or> (r = h \<and> odd a) then a + 1 else a)"

definition round_flt :: "fmt \<Rightarrow> bool \<Rightarrow> nat \<Rightarrow> int \<Rightarrow> flt" where
  "round_flt F s m e =
     (if m = 0 then FFin s 0 (emin F)
      else let q = ulp_exp F m e in
        if q \<le> e then finish_flt F s (m * 2 ^ nat (e - q)) q
        else finish_flt F s (round_even m (nat (q - e))) q)"

section \<open>Arithmetic\<close>

definition signed :: "bool \<Rightarrow> nat \<Rightarrow> int" where
  "signed s m = (if s then - int m else int m)"

definition scaled :: "bool \<Rightarrow> nat \<Rightarrow> int \<Rightarrow> int \<Rightarrow> int" where
  "scaled s m e e0 = signed s m * 2 ^ nat (e - e0)"

fun fadd :: "fmt \<Rightarrow> flt \<Rightarrow> flt \<Rightarrow> flt" where
  "fadd F FNaN y = FNaN"
| "fadd F x FNaN = FNaN"
| "fadd F (FInf s) (FInf t) = (if s = t then FInf s else FNaN)"
| "fadd F (FInf s) (FFin t n f) = FInf s"
| "fadd F (FFin s m e) (FInf t) = FInf t"
| "fadd F (FFin s m e) (FFin t n f) =
     (let e0 = min e f; z = scaled s m e e0 + scaled t n f e0
      in if z = 0 then FFin (s \<and> t) 0 (emin F) else round_flt F (z < 0) (nat \<bar>z\<bar>) e0)"

fun fmul :: "fmt \<Rightarrow> flt \<Rightarrow> flt \<Rightarrow> flt" where
  "fmul F FNaN y = FNaN"
| "fmul F x FNaN = FNaN"
| "fmul F (FInf s) (FInf t) = FInf (s \<noteq> t)"
| "fmul F (FInf s) (FFin t n f) = (if n = 0 then FNaN else FInf (s \<noteq> t))"
| "fmul F (FFin s m e) (FInf t) = (if m = 0 then FNaN else FInf (s \<noteq> t))"
| "fmul F (FFin s m e) (FFin t n f) = round_flt F (s \<noteq> t) (m * n) (e + f)"

text \<open>The quotient with two guard bits and a sticky bit below them.\<close>

fun fdiv :: "fmt \<Rightarrow> flt \<Rightarrow> flt \<Rightarrow> flt" where
  "fdiv F FNaN y = FNaN"
| "fdiv F x FNaN = FNaN"
| "fdiv F (FInf s) (FInf t) = FNaN"
| "fdiv F (FInf s) (FFin t n f) = FInf (s \<noteq> t)"
| "fdiv F (FFin s m e) (FInf t) = FFin (s \<noteq> t) 0 (emin F)"
| "fdiv F (FFin s m e) (FFin t n f) =
     (if n = 0 then (if m = 0 then FNaN else FInf (s \<noteq> t))
      else let k = prec F + 2 + bit_len n; q = m * 2 ^ k div n; r = m * 2 ^ k mod n
        in round_flt F (s \<noteq> t) (2 * q + (if r = 0 then 0 else 1)) (e - f - int k - 1))"

fun isqrt :: "nat \<Rightarrow> nat" where
  "isqrt n = (if n = 0 then 0
     else let r = 2 * isqrt (n div 4) in if (r + 1) * (r + 1) \<le> n then r + 1 else r)"

declare isqrt.simps [simp del]

fun fsqrt :: "fmt \<Rightarrow> flt \<Rightarrow> flt" where
  "fsqrt F FNaN = FNaN"
| "fsqrt F (FInf s) = (if s then FNaN else FInf False)"
| "fsqrt F (FFin s m e) =
     (if m = 0 then FFin s 0 (emin F) else if s then FNaN
      else let k = 2 * (prec F + 2) + (if even e then 0 else 1); n = m * 2 ^ k; r = isqrt n
        in round_flt F False (2 * r + (if r * r = n then 0 else 1)) ((e - int k) div 2 - 1))"

section \<open>Comparison and conversion\<close>

fun partial_cmp :: "flt \<Rightarrow> flt \<Rightarrow> ordering option" where
  "partial_cmp FNaN y = None"
| "partial_cmp x FNaN = None"
| "partial_cmp (FInf s) (FInf t) = Some (if s = t then Equal else if s then Less else Greater)"
| "partial_cmp (FInf s) (FFin t n f) = Some (if s then Less else Greater)"
| "partial_cmp (FFin s m e) (FInf t) = Some (if t then Greater else Less)"
| "partial_cmp (FFin s m e) (FFin t n f) =
     (let e0 = min e f; a = scaled s m e e0; b = scaled t n f e0
      in Some (if a < b then Less else if a = b then Equal else Greater))"

definition f_ge :: "flt \<Rightarrow> flt \<Rightarrow> bool" where
  "f_ge x y \<longleftrightarrow> partial_cmp x y \<in> {Some Greater, Some Equal}"

definition f_gt :: "flt \<Rightarrow> flt \<Rightarrow> bool" where
  "f_gt x y \<longleftrightarrow> partial_cmp x y = Some Greater"

definition of_u32 :: "fmt \<Rightarrow> u32 \<Rightarrow> flt" where
  "of_u32 F w = round_flt F False (unat w) 0"

text \<open>\<^verbatim>\<open>z as f32\<close>: a finite number is rounded to the narrower format.\<close>

fun fcast :: "fmt \<Rightarrow> flt \<Rightarrow> flt" where
  "fcast F FNaN = FNaN"
| "fcast F (FInf s) = FInf s"
| "fcast F (FFin s m e) = round_flt F s m e"

definition f_zero :: "fmt \<Rightarrow> flt" where
  "f_zero F = FFin False 0 (emin F)"

text \<open>\<^verbatim>\<open>Iterator::sum\<close> for floats folds addition from the neutral element \<^verbatim>\<open>-0.0\<close>.\<close>

definition fsum :: "fmt \<Rightarrow> flt list \<Rightarrow> flt" where
  "fsum F xs = foldl (fadd F) (FFin True 0 (emin F)) xs"

definition dot :: "f32 list \<Rightarrow> f32 list \<Rightarrow> f32" where
  "dot xs ys = fsum binary32 (map (\<lambda>(x, y). fmul binary32 x y) (zip xs ys))"

definition fmt_ok :: "fmt \<Rightarrow> bool" where
  "fmt_ok F \<longleftrightarrow> 0 < prec F \<and> emin F \<le> emax F"

text \<open>The numbers of a format: what the operations return.\<close>

fun flt_ok :: "fmt \<Rightarrow> flt \<Rightarrow> bool" where
  "flt_ok F FNaN = True"
| "flt_ok F (FInf s) = True"
| "flt_ok F (FFin s m e) \<longleftrightarrow>
     m < 2 ^ prec F \<and> emin F \<le> e \<and> e \<le> emax F \<and> (2 ^ (prec F - 1) \<le> m \<or> e = emin F)"

fun is_nan :: "flt \<Rightarrow> bool" where
  "is_nan FNaN = True"
| "is_nan (FInf s) = False"
| "is_nan (FFin s m e) = False"

text \<open>The value of a finite number; the infinities are ordered by their rank.\<close>

fun flt_rank :: "flt \<Rightarrow> int" where
  "flt_rank FNaN = 0"
| "flt_rank (FInf s) = (if s then - 1 else 1)"
| "flt_rank (FFin s m e) = 0"

fun flt_real :: "flt \<Rightarrow> real" where
  "flt_real FNaN = 0"
| "flt_real (FInf s) = 0"
| "flt_real (FFin s m e) = of_int (signed s m) * 2 powi e"

text \<open>A finite number whose absolute value is at most \<open>c\<close>.\<close>

fun f_within :: "real \<Rightarrow> flt \<Rightarrow> bool" where
  "f_within c FNaN = False"
| "f_within c (FInf s) = False"
| "f_within c (FFin s m e) \<longleftrightarrow> real m * 2 powi e \<le> c"

section \<open>Lemmas\<close>

lemma bit_len_0 [simp]: "bit_len 0 = 0"
  by (subst bit_len.simps) simp

lemma bit_len_bounds: "0 < m \<Longrightarrow> 2 ^ (bit_len m - 1) \<le> m \<and> m < 2 ^ bit_len m \<and> 0 < bit_len m"
proof (induction m rule: bit_len.induct)
  case (1 n)
  show ?case
  proof (cases "n = 1")
    case True
    then show ?thesis by (simp add: bit_len.simps)
  next
    case False
    with 1 have pos: "0 < n div 2" and IH: "2 ^ (bit_len (n div 2) - 1) \<le> n div 2"
      "n div 2 < 2 ^ bit_len (n div 2)" "0 < bit_len (n div 2)" by auto
    have step: "bit_len n = Suc (bit_len (n div 2))"
      using "1.prems" by (simp add: bit_len.simps [of n])
    obtain k where k: "bit_len (n div 2) = Suc k" using IH(3) gr0_implies_Suc by blast
    have "n < 2 * 2 ^ Suc k" using IH(2) k by (simp add: less_mult_imp_div_less)
    moreover have "2 * 2 ^ k \<le> n" using IH(1) k by simp
    ultimately show ?thesis using step k by simp
  qed
qed

lemma bit_len_le: "m < 2 ^ k \<Longrightarrow> bit_len m \<le> k"
proof (rule ccontr)
  assume m: "m < 2 ^ k" and "\<not> bit_len m \<le> k"
  then have "k \<le> bit_len m - 1" by simp
  then have "(2::nat) ^ k \<le> 2 ^ (bit_len m - 1)" by (rule power_increasing) simp
  moreover have "0 < m" using \<open>\<not> bit_len m \<le> k\<close> by (cases m) auto
  ultimately show False using bit_len_bounds [of m] m by linarith
qed

lemma finish_flt_ok:
  assumes "0 < prec F" "a \<le> 2 ^ prec F" "emin F \<le> q" "2 ^ (prec F - 1) \<le> a \<or> q = emin F"
  shows "flt_ok F (finish_flt F s a q)"
proof (cases "a = 2 ^ prec F")
  case True
  have "2 ^ prec F div 2 = (2::nat) ^ (prec F - 1)"
    using assms(1) by (cases "prec F") auto
  with True assms show ?thesis
    by (auto simp: finish_flt_def Let_def)
next
  case False
  with assms show ?thesis by (auto simp: finish_flt_def Let_def)
qed

lemma round_even_cases: "round_even m d = m div 2 ^ d \<or> round_even m d = m div 2 ^ d + 1"
  by (auto simp: round_even_def Let_def)


lemma round_even_lt: "m < 2 ^ (p + d) \<Longrightarrow> round_even m d \<le> 2 ^ p"
proof -
  assume "m < 2 ^ (p + d)"
  then have "m div 2 ^ d < 2 ^ p"
    by (simp add: power_add less_mult_imp_div_less)
  then show ?thesis using round_even_cases [of m d] by linarith
qed

lemma round_even_ge: "2 ^ (p + d) \<le> m \<Longrightarrow> 2 ^ p \<le> round_even m d"
proof -
  assume "2 ^ (p + d) \<le> m"
  then have "2 ^ (p + d) div 2 ^ d \<le> m div 2 ^ d" by (rule div_le_mono)
  then show ?thesis using round_even_cases [of m d] by (auto simp: power_add)
qed

lemma round_flt_ok:
  assumes p: "0 < prec F" and ee: "emin F \<le> emax F"
  shows "flt_ok F (round_flt F s m e)"
proof (cases "m = 0")
  case True
  then show ?thesis using ee by (simp add: round_flt_def)
next
  case False
  then have b: "2 ^ (bit_len m - 1) \<le> m" "m < 2 ^ bit_len m" "0 < bit_len m"
    using bit_len_bounds [of m] by auto
  define q where "q = ulp_exp F m e"
  have q: "emin F \<le> q" "e + int (bit_len m) - int (prec F) \<le> q"
    "q = emin F \<or> q = e + int (bit_len m) - int (prec F)"
    by (auto simp: q_def ulp_exp_def)
  show ?thesis
  proof (cases "q \<le> e")
    case True
    define d where "d = nat (e - q)"
    have d: "bit_len m + d \<le> prec F" using q(2) True by (simp add: d_def)
    have "m * 2 ^ d < 2 ^ bit_len m * 2 ^ d" using b(2) by simp
    also have "\<dots> \<le> 2 ^ prec F" using d by (simp add: power_add [symmetric])
    finally have up: "m * 2 ^ d \<le> 2 ^ prec F" by simp
    have low: "2 ^ (prec F - 1) \<le> m * 2 ^ d" if "q \<noteq> emin F"
    proof -
      from that q(3) True have "prec F - 1 = (bit_len m - 1) + d"
        using b(3) by (simp add: d_def)
      then show ?thesis using b(1) by (simp add: power_add)
    qed
    have "flt_ok F (finish_flt F s (m * 2 ^ d) q)"
      by (rule finish_flt_ok [OF p up q(1)]) (use low in blast)
    then show ?thesis using False True by (simp add: round_flt_def Let_def d_def q_def)
  next
    case nle: False
    define d where "d = nat (q - e)"
    have d: "bit_len m \<le> prec F + d" using q(2) nle by (simp add: d_def)
    have "m < 2 ^ (prec F + d)"
      by (rule less_le_trans [OF b(2)]) (use d in \<open>simp add: power_increasing\<close>)
    then have up: "round_even m d \<le> 2 ^ prec F" by (rule round_even_lt)
    have low: "2 ^ (prec F - 1) \<le> round_even m d" if "q \<noteq> emin F"
    proof -
      from that q(3) nle have "bit_len m - 1 = (prec F - 1) + d"
        using p by (simp add: d_def)
      then show ?thesis using b(1) by (intro round_even_ge) simp
    qed
    have "flt_ok F (finish_flt F s (round_even m d) q)"
      by (rule finish_flt_ok [OF p up q(1)]) (use low in blast)
    then show ?thesis using False nle by (simp add: round_flt_def Let_def d_def q_def)
  qed
qed

lemma fmt_ok_binary [simp]: "fmt_ok binary32" "fmt_ok binary64"
  by (simp_all add: fmt_ok_def binary32_def binary64_def)

lemma round_flt_closed [simp]: "fmt_ok F \<Longrightarrow> flt_ok F (round_flt F s m e)"
  by (simp add: fmt_ok_def round_flt_ok)

lemma fadd_closed: "fmt_ok F \<Longrightarrow> flt_ok F x \<Longrightarrow> flt_ok F y \<Longrightarrow> flt_ok F (fadd F x y)"
  by (cases "(F, x, y)" rule: fadd.cases) (auto simp: Let_def fmt_ok_def round_flt_ok)

lemma fmul_closed: "fmt_ok F \<Longrightarrow> flt_ok F (fmul F x y)"
  by (cases "(F, x, y)" rule: fmul.cases) auto

lemma fdiv_closed: "fmt_ok F \<Longrightarrow> flt_ok F (fdiv F x y)"
  by (cases "(F, x, y)" rule: fdiv.cases) (auto simp: Let_def fmt_ok_def round_flt_ok)

lemma fsqrt_closed: "fmt_ok F \<Longrightarrow> flt_ok F (fsqrt F x)"
  by (cases x) (auto simp: Let_def fmt_ok_def round_flt_ok)

lemma fadd_commute: "fadd F x y = fadd F y x"
  by (cases x; cases y) (auto simp: Let_def min.commute add.commute conj_commute)

lemma fmul_commute: "fmul F x y = fmul F y x"
  by (cases x; cases y) (auto simp: mult.commute add.commute eq_commute)

lemma dot_commute: "dot xs ys = dot ys xs"
proof -
  have "map (\<lambda>(x, y). fmul binary32 x y) (zip xs ys) = map (\<lambda>(x, y). fmul binary32 x y) (zip ys xs)"
    by (induction xs ys rule: list_induct2') (auto simp: fmul_commute)
  then show ?thesis by (simp add: dot_def)
qed

lemma isqrt_correct: "isqrt n * isqrt n \<le> n \<and> n < (isqrt n + 1) * (isqrt n + 1)"
proof (induction n rule: isqrt.induct)
  case (1 n)
  show ?case
  proof (cases "n = 0")
    case True
    then show ?thesis by (simp add: isqrt.simps)
  next
    case False
    define k where "k = isqrt (n div 4)"
    have IH: "k * k \<le> n div 4" "n div 4 < (k + 1) * (k + 1)"
      using 1 False by (auto simp: k_def)
    have lo: "(2 * k) * (2 * k) \<le> n" using IH(1) by auto
    have "n div 4 + 1 \<le> (k + 1) * (k + 1)" using IH(2) by simp
    then have hi: "n < (2 * k + 2) * (2 * k + 2)" by (simp add: algebra_simps) 
    have eq: "isqrt n = (if (2 * k + 1) * (2 * k + 1) \<le> n then 2 * k + 1 else 2 * k)"
      using False by (subst isqrt.simps) (simp add: Let_def k_def)
    show ?thesis using lo hi eq by auto
  qed
qed


lemma pow2_shift: "e0 \<le> e \<Longrightarrow> (2::real) ^ nat (e - e0) * 2 powi e0 = 2 powi e"
proof -
  assume "e0 \<le> e"
  then have "(2::real) powi e = 2 powi (int (nat (e - e0)) + e0)" by simp
  also have "\<dots> = 2 powi int (nat (e - e0)) * 2 powi e0" by (rule power_int_add) simp
  finally show ?thesis by (simp only: power_int_of_nat)
qed

lemma scaled_real:
  "e0 \<le> e \<Longrightarrow> of_int (scaled s m e e0) * 2 powi e0 = (of_int (signed s m) * 2 powi e :: real)"
  using pow2_shift [of e0 e] by (simp add: scaled_def)

lemma scaled_less_iff:
  "scaled s m e (min e f) < scaled t n f (min e f) \<longleftrightarrow>
     flt_real (FFin s m e) < flt_real (FFin t n f)"
proof -
  have "flt_real (FFin s m e) < flt_real (FFin t n f) \<longleftrightarrow>
    real_of_int (scaled s m e (min e f)) * 2 powi min e f <
    real_of_int (scaled t n f (min e f)) * 2 powi min e f"
    by (simp add: scaled_real)
  then show ?thesis by simp
qed

lemma scaled_eq_iff:
  "scaled s m e (min e f) = scaled t n f (min e f) \<longleftrightarrow>
     flt_real (FFin s m e) = flt_real (FFin t n f)"
proof -
  have "flt_real (FFin s m e) = flt_real (FFin t n f) \<longleftrightarrow>
    real_of_int (scaled s m e (min e f)) * 2 powi min e f =
    real_of_int (scaled t n f (min e f)) * 2 powi min e f"
    by (simp add: scaled_real)
  then show ?thesis by simp
qed

lemma partial_cmp_spec:
  assumes "\<not> is_nan x" "\<not> is_nan y"
  shows "partial_cmp x y = Some
    (if flt_rank x < flt_rank y \<or> flt_rank x = flt_rank y \<and> flt_real x < flt_real y then Less
     else if flt_rank x = flt_rank y \<and> flt_real x = flt_real y then Equal else Greater)"
  using assms
  by (cases x; cases y) (auto simp: Let_def scaled_less_iff scaled_eq_iff simp del: flt_real.simps(3))

lemma partial_cmp_None_iff: "partial_cmp x y = None \<longleftrightarrow> is_nan x \<or> is_nan y"
  by (cases x; cases y) (auto simp: Let_def)

lemma round_even_le: "0 < d \<Longrightarrow> m \<le> c * 2 ^ d \<Longrightarrow> round_even m d \<le> c"
proof -
  assume d: "0 < d" and m: "m \<le> c * 2 ^ d"
  have le: "m div 2 ^ d \<le> c" using div_le_mono [OF m, of "2 ^ d"] by simp
  show ?thesis
  proof (cases "m div 2 ^ d = c")
    case True
    then have "m mod 2 ^ d = 0" using m
      by (metis add_diff_cancel_left' div_mult_mod_eq le_add_diff_inverse2 le_antisym le_add1 diff_is_0_eq)
    then show ?thesis using True by (simp add: round_even_def Let_def)
  next
    case False
    then show ?thesis using le round_even_cases [of m d] by linarith
  qed
qed

lemma finish_flt_within:
  assumes "real a * 2 powi q \<le> c" "0 < prec F" "q < emax F"
  shows "f_within c (finish_flt F s a q)"
proof (cases "a = 2 ^ prec F")
  case True
  obtain p where p: "prec F = Suc p" using assms(2) gr0_implies_Suc by blast
  have "real (2 ^ p) * 2 powi (q + 1) = real a * 2 powi q"
    using True p by (simp add: power_int_add)
  then show ?thesis using True p assms by (simp add: finish_flt_def Let_def)
next
  case False
  then show ?thesis using assms by (simp add: finish_flt_def Let_def)
qed

lemma ulp_exp_small:
  assumes m: "0 < m" and le: "real m * 2 powi e \<le> c" and c: "c < 2 ^ prec F" and e: "emin F \<le> 0"
  shows "ulp_exp F m e \<le> 0"
proof (rule ccontr)
  assume "\<not> ulp_exp F m e \<le> 0"
  with e have big: "int (prec F) \<le> e + int (bit_len m) - 1" by (simp add: ulp_exp_def)
  have b: "2 ^ (bit_len m - 1) \<le> m" "0 < bit_len m" using bit_len_bounds [OF m] by auto
  have "(2::real) ^ prec F = 2 powi int (prec F)" by simp
  also have "\<dots> \<le> 2 powi (int (bit_len m - 1) + e)"
    by (rule power_int_increasing) (use big b(2) in auto)
  also have "\<dots> = real (2 ^ (bit_len m - 1)) * 2 powi e" by (simp add: power_int_add)
  also have "\<dots> \<le> real m * 2 powi e"
    by (rule mult_right_mono) (use b(1) of_nat_mono in blast, simp)
  also have "\<dots> \<le> c" by (rule le)
  finally show False using c by simp
qed


lemma round_flt_within:
  assumes le: "real m * 2 powi e \<le> real c" and c: "c < 2 ^ prec F"
    and F: "0 < prec F" "emin F \<le> 0" "0 < emax F"
  shows "f_within (real c) (round_flt F s m e)"
proof (cases "m = 0")
  case True
  then show ?thesis by (simp add: round_flt_def)
next
  case False
  define q where "q = ulp_exp F m e"
  have c': "real c < 2 ^ prec F" using c by (metis of_nat_less_numeral_power_cancel_iff)
  have q0: "q \<le> 0" unfolding q_def
    by (rule ulp_exp_small [OF _ le c' F(2)]) (use False in simp)
  show ?thesis
  proof (cases "q \<le> e")
    case True
    have "real (m * 2 ^ nat (e - q)) * 2 powi q = real m * 2 powi e"
      using pow2_shift [OF True] by (simp add: mult.assoc)
    then have "real (m * 2 ^ nat (e - q)) * 2 powi q \<le> real c" using le by (simp only:)
    then have "f_within (real c) (finish_flt F s (m * 2 ^ nat (e - q)) q)"
      by (rule finish_flt_within) (use F q0 in auto)
    then show ?thesis using False True by (simp add: round_flt_def Let_def q_def)
  next
    case nle: False
    define d where "d = nat (q - e)"
    have "real m * 2 powi e * 2 powi (- e) \<le> real c * 2 powi (- e)"
      by (rule mult_right_mono [OF le]) simp
    then have "real m \<le> real c * 2 powi (- e)"
      by (simp add: mult.assoc power_int_add [symmetric])
    also have "2 powi (- e) = (2::real) ^ nat (- e)"
      using nle q0 by (simp add: power_int_def)
    finally have "real m \<le> real (c * 2 ^ nat (- e))" by simp
    then have "m \<le> c * 2 ^ nat (- e)" by (simp only: of_nat_le_iff)
    also have "nat (- e) = nat (- q) + d" using nle q0 by (simp add: d_def)
    finally have "m \<le> (c * 2 ^ nat (- q)) * 2 ^ d" by (simp add: power_add mult.assoc)
    then have "round_even m d \<le> c * 2 ^ nat (- q)"
      by (rule round_even_le [rotated]) (use nle in \<open>simp add: d_def\<close>)
    then have "real (round_even m d) \<le> real (c * 2 ^ nat (- q))" by (simp only: of_nat_le_iff)
    then have "real (round_even m d) * 2 powi q \<le> real (c * 2 ^ nat (- q)) * 2 powi q"
      by (rule mult_right_mono) simp
    also have "\<dots> = real c"
      using pow2_shift [of q 0] q0 by (simp add: mult.assoc)
    finally have "f_within (real c) (finish_flt F s (round_even m d) q)"
      by (intro finish_flt_within) (use F q0 in auto)
    then show ?thesis using False nle by (simp add: round_flt_def Let_def d_def q_def)
  qed
qed

lemma f_within_mono: "f_within c x \<Longrightarrow> c \<le> c' \<Longrightarrow> f_within c' x"
  by (cases x) auto

lemma f_within_not_nan: "f_within c x \<Longrightarrow> \<not> is_nan x"
  by (cases x) auto

lemma fmul_within_one:
  assumes "f_within 1 x" "f_within 1 y"
  shows "f_within 1 (fmul binary32 x y)"
proof -
  obtain s m e t n f where x: "x = FFin s m e" "real m * 2 powi e \<le> 1"
    and y: "y = FFin t n f" "real n * 2 powi f \<le> 1"
    using assms by (cases x; cases y) auto
  have "real (m * n) * 2 powi (e + f) = (real m * 2 powi e) * (real n * 2 powi f)"
    by (simp add: power_int_add)
  also have "\<dots> \<le> 1" by (rule mult_le_one [OF x(2) _ y(2)]) simp
  finally have "f_within (real 1) (round_flt binary32 (s \<noteq> t) (m * n) (e + f))"
    by (intro round_flt_within) (simp_all add: binary32_def)
  then show ?thesis using x y by simp
qed

lemma fadd_within:
  assumes "f_within (real a) x" "f_within (real b) y" "a + b < 2 ^ 24"
  shows "f_within (real (a + b)) (fadd binary32 x y)"
proof -
  obtain s m e t n f where x: "x = FFin s m e" "real m * 2 powi e \<le> real a"
    and y: "y = FFin t n f" "real n * 2 powi f \<le> real b"
    using assms by (cases x; cases y) auto
  define z where "z = scaled s m e (min e f) + scaled t n f (min e f)"
  have abs: "\<bar>of_int (signed s m) * 2 powi e :: real\<bar> = real m * 2 powi e" for s m e
    by (simp add: signed_def abs_mult)
  have "real (nat \<bar>z\<bar>) * 2 powi min e f = \<bar>of_int z * 2 powi min e f\<bar>"
    by (simp add: abs_mult)
  also have "of_int z * 2 powi min e f =
      (of_int (signed s m) * 2 powi e + of_int (signed t n) * 2 powi f :: real)"
    by (simp add: z_def distrib_right scaled_real)
  also have "\<bar>\<dots>\<bar> \<le> real m * 2 powi e + real n * 2 powi f"
    by (rule order_trans [OF abs_triangle_ineq]) (simp add: abs)
  also have "\<dots> \<le> real (a + b)" using x(2) y(2) by simp
  finally have "f_within (real (a + b)) (round_flt binary32 (z < 0) (nat \<bar>z\<bar>) (min e f))"
    by (intro round_flt_within) (use assms(3) in \<open>simp_all add: binary32_def\<close>)
  then show ?thesis using x(1) y(1) by (simp add: Let_def z_def)
qed

lemma foldl_fadd_within:
  "f_within (real a) z \<Longrightarrow> list_all (f_within 1) xs \<Longrightarrow> a + length xs < 2 ^ 24 \<Longrightarrow>
   f_within (real (a + length xs)) (foldl (fadd binary32) z xs)"
proof (induction xs arbitrary: a z)
  case Nil
  then show ?case by simp
next
  case (Cons x xs)
  have "f_within (real (a + 1)) (fadd binary32 z x)"
    by (rule fadd_within) (use Cons.prems in auto)
  then have "f_within (real ((a + 1) + length xs)) (foldl (fadd binary32) (fadd binary32 z x) xs)"
    by (rule Cons.IH) (use Cons.prems in auto)
  then show ?case by simp
qed

text \<open>The dot product of two vectors of at most \<open>2\<^sup>24 - 1\<close> components in \<open>[-1, 1]\<close> is a number.\<close>

lemma dot_within:
  assumes "list_all (f_within 1) xs" "list_all (f_within 1) ys" "length xs < 2 ^ 24"
  shows "f_within (real (length xs)) (dot xs ys)"
proof -
  let ?zs = "map (\<lambda>(x, y). fmul binary32 x y) (zip xs ys)"
  have "list_all (f_within 1) ?zs"
    using assms(1,2) by (auto simp: list_all_iff intro!: fmul_within_one dest: set_zip_leftD set_zip_rightD)
  then have "f_within (real (0 + length ?zs)) (foldl (fadd binary32) (FFin True 0 (emin binary32)) ?zs)"
    by (intro foldl_fadd_within) (use assms(3) in auto)
  then show ?thesis
    unfolding dot_def fsum_def by (rule f_within_mono) simp
qed

end
