(* ===== verification/Kite_Proto.thy ===== *)
theory Kite_Proto
  imports Kite_Prelude Kite_Strings Kite_Float
begin

text \<open>
  The wire types of crate \<^verbatim>\<open>kite-mesh-proto\<close>: one record per message of the four \<^verbatim>\<open>.proto\<close>
  files, one datatype per enumeration, the protocol constants, and the error type of crate
  \<^verbatim>\<open>kite-mesh-core\<close>. The last section collects the third-party operations the crates call
  (libp2p identities, BLAKE3, prost, serde\_json, the platform's mathematical library) as
  the fields of one record, the parameter \<open>X\<close> of the definitions that use them.
\<close>

section \<open>Constants\<close>

definition PROTOCOL_VERSION :: u32 where
  "PROTOCOL_VERSION = 1"

definition CANONICAL_MODEL_ID :: string where
  "CANONICAL_MODEL_ID = ''all-minilm-l6-v2-int8''"

definition CANONICAL_EMBEDDING_DIM :: u32 where
  "CANONICAL_EMBEDDING_DIM = 384"

section \<open>Enumerations\<close>

datatype Performative =
    PUnspecified | Request | Propose | Agree | Refuse | Inform | Failure | Cancel | Subscribe

definition performative_as_i32 :: "Performative \<Rightarrow> i32" where
  "performative_as_i32 p = (case p of
     PUnspecified \<Rightarrow> 0 | Request \<Rightarrow> 1 | Propose \<Rightarrow> 2 | Agree \<Rightarrow> 3 | Refuse \<Rightarrow> 4
   | Inform \<Rightarrow> 5 | Failure \<Rightarrow> 6 | Cancel \<Rightarrow> 7 | Subscribe \<Rightarrow> 8)"

text \<open>\<^verbatim>\<open>Performative::try_from(i32)\<close>: the open enumerations of proto3 keep unknown numbers.\<close>

definition performative_try_from :: "i32 \<Rightarrow> Performative option" where
  "performative_try_from n =
     (if n = 0 then Some PUnspecified else if n = 1 then Some Request
      else if n = 2 then Some Propose else if n = 3 then Some Agree
      else if n = 4 then Some Refuse else if n = 5 then Some Inform
      else if n = 6 then Some Failure else if n = 7 then Some Cancel
      else if n = 8 then Some Subscribe else None)"

datatype AgentStatus = AUnspecified | Available | Busy | Draining | Offline

definition agent_status_as_i32 :: "AgentStatus \<Rightarrow> i32" where
  "agent_status_as_i32 a = (case a of
     AUnspecified \<Rightarrow> 0 | Available \<Rightarrow> 1 | Busy \<Rightarrow> 2 | Draining \<Rightarrow> 3 | Offline \<Rightarrow> 4)"

datatype ResultStatus = RUnspecified | ROk | RFailure | RCanceled

definition result_status_as_i32 :: "ResultStatus \<Rightarrow> i32" where
  "result_status_as_i32 r = (case r of RUnspecified \<Rightarrow> 0 | ROk \<Rightarrow> 1 | RFailure \<Rightarrow> 2 | RCanceled \<Rightarrow> 3)"

section \<open>Capability messages\<close>

record Tool =
  tool_name :: string
  tool_description :: string

record CapabilityFacets =
  fa_tools :: "string list"
  fa_ontologies :: "string list"
  fa_sandbox_level :: string
  fa_network_access :: string
  fa_gpu_class :: string
  fa_privacy_tier :: string
  fa_region :: string
  fa_pricing_band :: string
  fa_trust_tier :: string
  fa_status :: i32

record EmbeddingDescriptor =
  emb_model_id :: string
  emb_dimension :: u32
  emb_vector :: "f32 list"
  emb_normalized :: bool

record PricingModel =
  pm_band :: string

record TrustSignature =
  ts_endorser_peer_id :: string
  ts_signature :: bytes
  ts_issued_at_ns :: u64

record McpServerDescriptor =
  mcp_name :: string
  mcp_transport :: string
  mcp_endpoint :: string
  mcp_tools :: "string list"
  mcp_resources :: "string list"
  mcp_auth_scheme :: string

record CapabilityCard =
  card_capability_id :: string
  card_agent_id :: string
  card_agent_name :: string
  card_agent_version :: string
  card_ontologies :: "string list"
  card_tools :: "Tool list"
  card_facets :: "CapabilityFacets option"
  card_description :: string
  card_embedding :: "EmbeddingDescriptor option"
  card_pricing :: "PricingModel option"
  card_status :: i32
  card_last_seen_ns :: u64
  card_expires_at_ns :: u64
  card_facet_fingerprint :: bytes
  card_endorsements :: "TrustSignature list"
  card_signature :: bytes
  card_mcp_servers :: "McpServerDescriptor list"
  card_a2a_agent_card_url :: string
  card_public_key :: bytes

section \<open>Directory messages\<close>

record DirectoryRecord =
  dir_capability_id :: string
  dir_agent_id :: string
  dir_peer_id :: string
  dir_facet_fingerprint :: bytes
  dir_model_id :: string
  dir_table_id :: u32
  dir_hash_code :: bytes
  dir_status :: string
  dir_ttl_ns :: u64
  dir_signature :: bytes
  dir_protocol_version :: u32
  dir_publisher_public_key :: bytes

record IntentAdvert =
  adv_intent_id :: string
  adv_requester_peer_id :: string
  adv_facet_slice_fingerprint :: bytes
  adv_model_id :: string
  adv_lsh_signatures :: "bytes list"
  adv_deadline_ns :: u64
  adv_signature :: bytes

section \<open>Negotiation messages\<close>

record Intent =
  int_intent_id :: string
  int_requester_agent_id :: string
  int_description :: string
  int_payload :: bytes
  int_deadline_ns :: u64

record Proposal =
  pro_capability_id :: string
  pro_provider_agent_id :: string
  pro_quote :: string
  pro_expires_at_ns :: u64

record Agreement =
  agr_conversation_id :: string
  agr_capability_id :: string

record TaskResult =
  res_conversation_id :: string
  res_payload :: bytes
  res_status :: i32
  res_error_message :: string

record StreamFrame =
  str_conversation_id :: string
  str_payload :: bytes
  str_is_final :: bool

record Receipt =
  rec_conversation_id :: string
  rec_capability_id :: string
  rec_requester_peer_id :: string
  rec_provider_peer_id :: string
  rec_status :: i32
  rec_completed_at_ns :: u64
  rec_signature :: bytes
  rec_issuer_public_key :: bytes

record TrustContext =
  tc_tier :: string
  tc_endorser_peer_ids :: "string list"

datatype Payload =
    PIntent Intent
  | PAdvert IntentAdvert
  | PProposal Proposal
  | PAgreement Agreement
  | PResult TaskResult
  | PStream StreamFrame
  | PCapability CapabilityCard
  | PDirectoryRecord DirectoryRecord
  | PReceipt Receipt

record AclMessage =
  acl_sender_id :: string
  acl_signature :: bytes
  acl_timestamp_ns :: u64
  acl_message_id :: string
  acl_performative :: i32
  acl_ontology :: string
  acl_conversation_id :: string
  acl_in_reply_to :: string
  acl_payload :: "Payload option"
  acl_trust :: "TrustContext option"
  acl_sender_public_key :: bytes

section \<open>Errors\<close>

datatype Error =
    Identity string
  | BadSignature
  | InvalidCard string
  | FingerprintMismatch
  | EmbeddingDimension u32 u32
  | UnsupportedModel string
  | Store string
  | Serialize string
  | Deserialize string
  | Io string
  | Libp2pIdentity string
  | Signing string

section \<open>Canonical facets\<close>

record CanonicalFacets =
  cf_ontologies :: "string list"
  cf_tools :: "string list"
  cf_sandbox_level :: string
  cf_network_access :: string
  cf_gpu_class :: string
  cf_privacy_tier :: string
  cf_region :: string
  cf_pricing_band :: string
  cf_trust_tier :: string
  cf_status :: i32

section \<open>Third-party operations\<close>

text \<open>
  Key pairs, public keys and peer identifiers of libp2p are opaque values; nothing in the
  development looks inside them.
\<close>

datatype Keypair = Keypair bytes
datatype PublicKey = PublicKey bytes
datatype PeerId = PeerId bytes

record ext =
  kp_public :: "Keypair \<Rightarrow> PublicKey"
  kp_sign :: "Keypair \<Rightarrow> bytes \<Rightarrow> string + bytes"
  kp_to_protobuf :: "Keypair \<Rightarrow> string + bytes"
  kp_from_protobuf :: "bytes \<Rightarrow> string + Keypair"
  pk_encode :: "PublicKey \<Rightarrow> bytes"
  pk_decode :: "bytes \<Rightarrow> string + PublicKey"
  pk_verify :: "PublicKey \<Rightarrow> bytes \<Rightarrow> bytes \<Rightarrow> bool"
  pid_of_key :: "PublicKey \<Rightarrow> PeerId"
  pid_to_string :: "PeerId \<Rightarrow> string"
  pid_parse :: "string \<Rightarrow> PeerId option"
  blake3 :: "bytes \<Rightarrow> bytes"
  blake3_xof :: "bytes \<Rightarrow> nat \<Rightarrow> u8"
  json_facets :: "CanonicalFacets \<Rightarrow> bytes"
  enc_acl :: "AclMessage \<Rightarrow> string + bytes"
  enc_card :: "CapabilityCard \<Rightarrow> string + bytes"
  enc_receipt :: "Receipt \<Rightarrow> string + bytes"
  enc_dir :: "DirectoryRecord \<Rightarrow> string + bytes"
  dec_dir :: "bytes \<Rightarrow> string + DirectoryRecord"
  uni_lower :: "string \<Rightarrow> string"
  f64_ln :: "f64 \<Rightarrow> f64"
  f64_cos :: "f64 \<Rightarrow> f64"

section \<open>Lemmas\<close>

lemma performative_roundtrip [simp]:
  "performative_try_from (performative_as_i32 p) = Some p"
  by (cases p) (simp_all add: performative_as_i32_def performative_try_from_def)

lemma unat_dim [simp]: "unat CANONICAL_EMBEDDING_DIM = 384"
  by (simp add: CANONICAL_EMBEDDING_DIM_def)

end
