(* ===== verification/Kite_Identity.thy ===== *)
theory Kite_Identity
  imports Kite_Proto
begin

text \<open>
  \<^verbatim>\<open>kite-mesh-core/src/identity.rs\<close>: the agent identity around a libp2p key pair, with its
  persistence in a file, and the contract that every signed message of the mesh shares: the
  signature field is cleared, the message is encoded, the bytes are signed, the signature is
  put back. The contract is the locale \<open>sealed_message\<close>; ACL envelopes, capability cards,
  receipts and directory records interpret it. The laws of the third-party signature scheme
  are named predicates on the parameter \<open>X\<close>.
\<close>

section \<open>Identities\<close>

record AgentIdentity =
  keypair :: Keypair

text \<open>\<open>fresh\<close> is the key pair that \<^verbatim>\<open>Keypair::generate_ed25519\<close> draws.\<close>

definition identity_generate :: "Keypair \<Rightarrow> AgentIdentity" where
  "identity_generate fresh = \<lparr>keypair = fresh\<rparr>"

definition peer_id :: "ext \<Rightarrow> AgentIdentity \<Rightarrow> PeerId" where
  "peer_id X i = pid_of_key X (kp_public X (keypair i))"

definition public_key :: "ext \<Rightarrow> AgentIdentity \<Rightarrow> PublicKey" where
  "public_key X i = kp_public X (keypair i)"

definition identity_sign :: "ext \<Rightarrow> AgentIdentity \<Rightarrow> bytes \<Rightarrow> (bytes, Error) exec" where
  "identity_sign X i b = of_sum Signing (kp_sign X (keypair i) b)"

definition identity_verify :: "ext \<Rightarrow> PublicKey \<Rightarrow> bytes \<Rightarrow> bytes \<Rightarrow> (unit, Error) exec" where
  "identity_verify X pk b s = (if pk_verify X pk b s then Ok () else Err BadSignature)"

text \<open>
  The file system: the files and their contents, and the error the operating system gives
  for reading a path, for creating the parent directory of a path and for writing it, if any.
\<close>

record Fs =
  fs_files :: "string \<rightharpoonup> bytes"
  fs_read_error :: "string \<Rightarrow> string option"
  fs_mkdir_error :: "string \<Rightarrow> string option"
  fs_write_error :: "string \<Rightarrow> string option"

definition fs_read :: "Fs \<Rightarrow> string \<Rightarrow> (bytes, Error) exec" where
  "fs_read fs p = (case fs_read_error fs p of
     Some e \<Rightarrow> Err (Io e)
   | None \<Rightarrow> ok_or (Io ''No such file or directory'') (fs_files fs p))"

definition identity_load :: "ext \<Rightarrow> Fs \<Rightarrow> string \<Rightarrow> (AgentIdentity, Error) exec" where
  "identity_load X fs p =
     bind_exec (fs_read fs p) (\<lambda>b.
     bind_exec (of_sum Libp2pIdentity (kp_from_protobuf X b)) (\<lambda>kp.
     Ok \<lparr>keypair = kp\<rparr>))"

definition identity_save :: "ext \<Rightarrow> AgentIdentity \<Rightarrow> string \<Rightarrow> Fs \<Rightarrow> (unit, Error) exec \<times> Fs" where
  "identity_save X i p fs = (case kp_to_protobuf X (keypair i) of
     Inl e \<Rightarrow> (Err (Identity e), fs)
   | Inr b \<Rightarrow> (case fs_mkdir_error fs p of
       Some e \<Rightarrow> (Err (Io e), fs)
     | None \<Rightarrow> (case fs_write_error fs p of
         Some e \<Rightarrow> (Err (Io e), fs)
       | None \<Rightarrow> (Ok (), fs\<lparr>fs_files := (fs_files fs)(p \<mapsto> b)\<rparr>))))"

section \<open>Laws of the third-party operations\<close>

text \<open>A signature made with a key pair verifies under its public key.\<close>

definition sign_law :: "ext \<Rightarrow> bool" where
  "sign_law X \<longleftrightarrow> (\<forall>kp b s. kp_sign X kp b = Inr s \<longrightarrow> pk_verify X (kp_public X kp) b s)"

text \<open>The protobuf form of a public key decodes to it.\<close>

definition key_law :: "ext \<Rightarrow> bool" where
  "key_law X \<longleftrightarrow> (\<forall>k. pk_decode X (pk_encode X k) = Inr k)"

text \<open>The textual form of a peer identifier parses to it.\<close>

definition pid_law :: "ext \<Rightarrow> bool" where
  "pid_law X \<longleftrightarrow> (\<forall>p. pid_parse X (pid_to_string X p) = Some p)"

text \<open>An Ed25519 public key is inlined in its peer identifier.\<close>

definition pid_inj :: "ext \<Rightarrow> bool" where
  "pid_inj X \<longleftrightarrow> (\<forall>k l. pid_of_key X k = pid_of_key X l \<longrightarrow> k = l)"

text \<open>A key pair's protobuf form decodes to it.\<close>

definition keypair_law :: "ext \<Rightarrow> bool" where
  "keypair_law X \<longleftrightarrow> (\<forall>kp b. kp_to_protobuf X kp = Inr b \<longrightarrow> kp_from_protobuf X b = Inr kp)"

text \<open>
  Unforgeability, relative to the byte strings \<open>S\<close> that the holder of the key pair signed:
  no other byte string has a signature that verifies.
\<close>

definition only_signed :: "ext \<Rightarrow> Keypair \<Rightarrow> bytes set \<Rightarrow> bool" where
  "only_signed X kp S \<longleftrightarrow> (\<forall>b s. pk_verify X (kp_public X kp) b s \<longrightarrow> b \<in> S)"

text \<open>Prost encodes different messages differently (its decoding inverts the encoding).\<close>

definition enc_inj :: "('m \<Rightarrow> string + bytes) \<Rightarrow> bool" where
  "enc_inj e \<longleftrightarrow> (\<forall>m n b. e m = Inr b \<longrightarrow> e n = Inr b \<longrightarrow> m = n)"

section \<open>The contract of signed messages\<close>

locale sealed_message =
  fixes get_sig :: "'m \<Rightarrow> bytes"
    and put_sig :: "bytes \<Rightarrow> 'm \<Rightarrow> 'm"
    and enc :: "ext \<Rightarrow> 'm \<Rightarrow> string + bytes"
    and signing :: "ext \<Rightarrow> 'm \<Rightarrow> (bytes, Error) exec"
  assumes get_put: "get_sig (put_sig s m) = s"
    and put_put: "put_sig s (put_sig t m) = put_sig s m"
    and put_get: "put_sig (get_sig m) m = m"
    and signing_Ok_iff: "signing X m = Ok b \<longleftrightarrow> enc X (put_sig [] m) = Inr b"
begin

lemma signing_put: "signing X (put_sig s m) = Ok b \<longleftrightarrow> signing X m = Ok b"
  by (simp add: signing_Ok_iff put_put)

lemma same_signing_same_message:
  assumes "enc_inj (enc X)" "signing X m = Ok b" "signing X n = Ok b"
  shows "m = put_sig (get_sig m) n"
proof -
  have "put_sig [] m = put_sig [] n"
    using assms by (auto simp: enc_inj_def signing_Ok_iff)
  then show ?thesis by (metis put_put put_get)
qed

text \<open>What the holder of the key seals verifies.\<close>

lemma sealed_verifies:
  assumes "sign_law X" "signing X m = Ok b" "identity_sign X i b = Ok s"
  shows "signing X (put_sig s m) = Ok b"
    and "identity_verify X (public_key X i) b (get_sig (put_sig s m)) = Ok ()"
  using assms
  by (auto simp: signing_put identity_sign_def identity_verify_def sign_law_def public_key_def
      get_put exec_simps)

text \<open>What verifies under an honest key is, but for its signature, a message its holder sealed.\<close>

lemma verified_was_sealed:
  assumes inj: "enc_inj (enc X)"
    and only: "only_signed X kp {c. \<exists>n\<in>M. signing X n = Ok c}"
    and m: "signing X m = Ok b" "identity_verify X (kp_public X kp) b (get_sig m) = Ok ()"
  shows "\<exists>n\<in>M. m = put_sig (get_sig m) n"
proof -
  from m(2) have "pk_verify X (kp_public X kp) b (get_sig m)"
    by (simp add: identity_verify_def split: if_splits)
  with only obtain n where "n \<in> M" "signing X n = Ok b"
    by (auto simp: only_signed_def)
  with inj m(1) show ?thesis using same_signing_same_message by blast
qed

end

section \<open>Lemmas\<close>

lemma identity_verify_Ok_iff [exec_simps]:
  "identity_verify X pk b s = Ok u \<longleftrightarrow> pk_verify X pk b s"
  by (simp add: identity_verify_def)

lemma identity_verify_no_panic [simp]: "identity_verify X pk b s \<noteq> Panic p"
  by (simp add: identity_verify_def)

lemma identity_sign_no_panic [simp]: "identity_sign X i b \<noteq> Panic p"
  by (simp add: identity_sign_def)

text \<open>
  An identity that was saved is loaded back, whatever else the file system holds:
  when saving returns without an error and the file can be read, loading returns the same
  identity, hence the same peer identifier.
\<close>

lemma saved_identity_loads:
  assumes "keypair_law X" "identity_save X i p fs = (Ok (), fs')" "fs_read_error fs' p = None"
  shows "identity_load X fs' p = Ok i"
proof -
  from assms(2) obtain b where b: "kp_to_protobuf X (keypair i) = Inr b"
    and fs': "fs' = fs\<lparr>fs_files := (fs_files fs)(p \<mapsto> b)\<rparr>"
    by (auto simp: identity_save_def split: sum.splits option.splits)
  from assms(1) b have "kp_from_protobuf X b = Inr (keypair i)"
    by (simp add: keypair_law_def)
  with assms(3) fs' show ?thesis
    by (simp add: identity_load_def fs_read_def)
qed

end
