(* ===== verification/Kite_Acl.thy ===== *)
theory Kite_Acl
  imports Kite_Identity
begin

text \<open>
  \<^verbatim>\<open>kite-mesh-core/src/acl.rs\<close>: the builder of signed ACL envelopes and the verification of
  an envelope against the public key it carries. Every builder method takes the reading of
  the clock \<open>t\<close> and the fresh UUID \<open>u\<close> that the source obtains from the system.
\<close>

section \<open>Signing bytes\<close>

definition acl_signing_bytes :: "ext \<Rightarrow> AclMessage \<Rightarrow> (bytes, Error) exec" where
  "acl_signing_bytes X msg =
     (let m = msg\<lparr>acl_signature := []\<rparr> in of_sum Serialize (enc_acl X m))"

section \<open>The builder\<close>

record AclBuilder =
  ab_identity :: AgentIdentity
  ab_conversation_id :: string

definition acl_new :: "AgentIdentity \<Rightarrow> string \<Rightarrow> AclBuilder" where
  "acl_new i conv = \<lparr>ab_identity = i, ab_conversation_id = conv\<rparr>"

definition acl_build ::
  "ext \<Rightarrow> nat option \<Rightarrow> string \<Rightarrow> AclBuilder \<Rightarrow> Performative \<Rightarrow> string \<Rightarrow> string \<Rightarrow> Payload option
     \<Rightarrow> (AclMessage, Error) exec" where
  "acl_build X t u ab perf ontology in_reply_to payload =
     (let msg = \<lparr>acl_sender_id = pid_to_string X (peer_id X (ab_identity ab)),
                 acl_signature = [],
                 acl_timestamp_ns = now_ns t,
                 acl_message_id = u,
                 acl_performative = performative_as_i32 perf,
                 acl_ontology = ontology,
                 acl_conversation_id = ab_conversation_id ab,
                 acl_in_reply_to = in_reply_to,
                 acl_payload = payload,
                 acl_trust = Some \<lparr>tc_tier = ''local'', tc_endorser_peer_ids = []\<rparr>,
                 acl_sender_public_key = pk_encode X (public_key X (ab_identity ab))\<rparr>
      in bind_exec (acl_signing_bytes X msg) (\<lambda>b.
         bind_exec (identity_sign X (ab_identity ab) b) (\<lambda>sig.
         Ok (msg\<lparr>acl_signature := sig\<rparr>))))"

definition acl_request ::
  "ext \<Rightarrow> nat option \<Rightarrow> string \<Rightarrow> AclBuilder \<Rightarrow> string \<Rightarrow> Intent \<Rightarrow> (AclMessage, Error) exec" where
  "acl_request X t u ab ontology intent =
     acl_build X t u ab Request ontology '''' (Some (PIntent intent))"

definition acl_propose ::
  "ext \<Rightarrow> nat option \<Rightarrow> string \<Rightarrow> AclBuilder \<Rightarrow> string \<Rightarrow> string \<Rightarrow> Proposal \<Rightarrow> (AclMessage, Error) exec" where
  "acl_propose X t u ab ontology in_reply_to proposal =
     acl_build X t u ab Propose ontology in_reply_to (Some (PProposal proposal))"

definition acl_agree ::
  "ext \<Rightarrow> nat option \<Rightarrow> string \<Rightarrow> AclBuilder \<Rightarrow> string \<Rightarrow> string \<Rightarrow> Agreement \<Rightarrow> (AclMessage, Error) exec" where
  "acl_agree X t u ab ontology in_reply_to agreement =
     acl_build X t u ab Agree ontology in_reply_to (Some (PAgreement agreement))"

definition acl_inform ::
  "ext \<Rightarrow> nat option \<Rightarrow> string \<Rightarrow> AclBuilder \<Rightarrow> string \<Rightarrow> string \<Rightarrow> TaskResult \<Rightarrow> (AclMessage, Error) exec" where
  "acl_inform X t u ab ontology in_reply_to result =
     acl_build X t u ab Inform ontology in_reply_to (Some (PResult result))"

definition acl_receipt ::
  "ext \<Rightarrow> nat option \<Rightarrow> string \<Rightarrow> AclBuilder \<Rightarrow> string \<Rightarrow> string \<Rightarrow> Receipt \<Rightarrow> (AclMessage, Error) exec" where
  "acl_receipt X t u ab ontology in_reply_to receipt =
     acl_build X t u ab Inform ontology in_reply_to (Some (PReceipt receipt))"

section \<open>Verification\<close>

definition acl_verify :: "ext \<Rightarrow> AclMessage \<Rightarrow> (unit, Error) exec" where
  "acl_verify X msg =
     bind_exec (ok_or (InvalidCard ''bad sender peer id'') (pid_parse X (acl_sender_id msg))) (\<lambda>expected_peer.
     bind_exec (of_sum (\<lambda>e. InvalidCard (''bad sender public key: '' @ e))
         (pk_decode X (acl_sender_public_key msg))) (\<lambda>public.
     if pid_of_key X public \<noteq> expected_peer
     then Err (InvalidCard ''sender public key does not match sender_id'')
     else bind_exec (acl_signing_bytes X msg) (\<lambda>b.
       identity_verify X public b (acl_signature msg))))"

section \<open>ACL envelopes are sealed messages\<close>

interpretation acl_seal: sealed_message acl_signature "\<lambda>s m. m\<lparr>acl_signature := s\<rparr>" enc_acl acl_signing_bytes
  by unfold_locales (auto simp: acl_signing_bytes_def Let_def exec_simps)

section \<open>Lemmas\<close>

lemma acl_signing_bytes_no_panic [simp]: "acl_signing_bytes X m \<noteq> Panic p"
  by (simp add: acl_signing_bytes_def Let_def)

lemma acl_verify_no_panic [simp]: "acl_verify X m \<noteq> Panic p"
  by (auto simp: acl_verify_def exec_simps split: if_splits)

lemma acl_build_no_panic [simp]: "acl_build X t u ab perf o' r pl \<noteq> Panic p"
  by (auto simp: acl_build_def Let_def exec_simps)

lemma acl_verify_Ok_iff:
  "acl_verify X m = Ok v \<longleftrightarrow>
     (\<exists>k b. pk_decode X (acl_sender_public_key m) = Inr k \<and>
        pid_parse X (acl_sender_id m) = Some (pid_of_key X k) \<and>
        acl_signing_bytes X m = Ok b \<and> pk_verify X k b (acl_signature m))"
  by (auto simp: acl_verify_def exec_simps split: if_splits)

lemma acl_build_fields:
  assumes "acl_build X t u ab perf ont irt pl = Ok m"
  shows "acl_sender_id m = pid_to_string X (peer_id X (ab_identity ab))"
    and "acl_message_id m = u" and "acl_performative m = performative_as_i32 perf"
    and "acl_ontology m = ont" and "acl_conversation_id m = ab_conversation_id ab"
    and "acl_in_reply_to m = irt" and "acl_payload m = pl" and "acl_timestamp_ns m = now_ns t"
    and "acl_sender_public_key m = pk_encode X (public_key X (ab_identity ab))"
  using assms by (auto simp: acl_build_def Let_def exec_simps)

lemma acl_build_verifies:
  assumes laws: "sign_law X" "key_law X" "pid_law X" and m: "acl_build X t u ab perf ont irt pl = Ok m"
  shows "acl_verify X m = Ok ()"
proof -
  obtain m0 b s where b: "acl_signing_bytes X m0 = Ok b" "identity_sign X (ab_identity ab) b = Ok s"
    and m: "m = m0\<lparr>acl_signature := s\<rparr>"
    and f: "acl_sender_id m0 = pid_to_string X (peer_id X (ab_identity ab))"
      "acl_sender_public_key m0 = pk_encode X (public_key X (ab_identity ab))"
    using m by (fastforce simp: acl_build_def Let_def exec_simps)
  note v = acl_seal.sealed_verifies [OF laws(1) b]
  show ?thesis using laws(2,3) v f unfolding acl_verify_Ok_iff m
    by (auto simp: key_law_def pid_law_def peer_id_def public_key_def exec_simps)
qed

text \<open>The envelopes an identity builds, the messages its key pair signs.\<close>

lemma acl_build_Ok:
  assumes "\<And>m. \<exists>b. enc_acl X m = Inr b" "\<And>b. \<exists>s. kp_sign X (keypair (ab_identity ab)) b = Inr s"
  shows "\<exists>m. acl_build X t u ab perf ont irt pl = Ok m"
proof -
  obtain e s where "\<And>m. enc_acl X m = Inr (e m)" "\<And>b. kp_sign X (keypair (ab_identity ab)) b = Inr (s b)"
    using assms by metis
  then show ?thesis
    by (simp add: acl_build_def Let_def acl_signing_bytes_def identity_sign_def)
qed

text \<open>
  Authenticity and tamper detection: an envelope that verifies and names the peer
  identifier of an honest identity is, up to its signature bytes, one of the envelopes
  \<open>M\<close> that this identity signed; no other field can have been changed.
\<close>

lemma acl_authentic:
  assumes "enc_inj (enc_acl X)" "pid_law X" "pid_inj X"
    and only: "only_signed X (keypair i) {c. \<exists>n\<in>M. acl_signing_bytes X n = Ok c}"
    and v: "acl_verify X m = Ok ()"
    and who: "acl_sender_id m = pid_to_string X (peer_id X i)"
  shows "\<exists>n\<in>M. m = n\<lparr>acl_signature := acl_signature m\<rparr>"
proof -
  from v obtain k b where k: "pid_parse X (acl_sender_id m) = Some (pid_of_key X k)"
    and b: "acl_signing_bytes X m = Ok b" "pk_verify X k b (acl_signature m)"
    by (auto simp: acl_verify_Ok_iff)
  from k who assms(2,3) have "k = kp_public X (keypair i)"
    by (auto simp: pid_law_def pid_inj_def peer_id_def)
  with b show ?thesis
    using acl_seal.verified_was_sealed [OF assms(1) only b(1)] by (simp add: exec_simps)
qed

end
