(* ===== verification/Kite_Facets.thy ===== *)
theory Kite_Facets
  imports Kite_Proto "HOL-Library.Multiset"
begin

text \<open>
  \<^verbatim>\<open>kite-mesh-core/src/facets.rs\<close>: the canonical form of capability facets and the BLAKE3
  fingerprint over its JSON serialisation. The lemmas show what the fingerprint depends on
  (the sets of tools and ontologies, the enumerated fields up to case and surrounding white
  space, never the status) and, conversely, what equal fingerprints determine when the hash
  has no collision on the two inputs.
\<close>

section \<open>Canonical form and fingerprint\<close>

definition normalize :: "ext \<Rightarrow> string \<Rightarrow> string" where
  "normalize X s = to_lowercase (uni_lower X) (trim s)"

definition canonical_facets :: "ext \<Rightarrow> CapabilityFacets \<Rightarrow> CanonicalFacets" where
  "canonical_facets X f =
     (let tools = remdups_adj (sort (fa_tools f));
          ontologies = remdups_adj (sort (fa_ontologies f))
      in \<lparr>cf_ontologies = ontologies,
          cf_tools = tools,
          cf_sandbox_level = normalize X (fa_sandbox_level f),
          cf_network_access = normalize X (fa_network_access f),
          cf_gpu_class = normalize X (fa_gpu_class f),
          cf_privacy_tier = normalize X (fa_privacy_tier f),
          cf_region = normalize X (fa_region f),
          cf_pricing_band = normalize X (fa_pricing_band f),
          cf_trust_tier = normalize X (fa_trust_tier f),
          cf_status = agent_status_as_i32 AUnspecified\<rparr>)"

text \<open>\<^verbatim>\<open>serde_json::to_vec\<close> cannot fail on a structure of strings, lists of strings and an integer.\<close>

definition fingerprint :: "ext \<Rightarrow> CapabilityFacets \<Rightarrow> bytes" where
  "fingerprint X f = blake3 X (json_facets X (canonical_facets X f))"

section \<open>What the fingerprint means\<close>

text \<open>The fields that are compared one by one, in the order of the source.\<close>

definition enum_fields :: "CapabilityFacets \<Rightarrow> string list" where
  "enum_fields f = [fa_sandbox_level f, fa_network_access f, fa_gpu_class f, fa_privacy_tier f,
     fa_region f, fa_pricing_band f, fa_trust_tier f]"

text \<open>The equivalence of facets that the fingerprint is meant to decide.\<close>

definition same_facets :: "ext \<Rightarrow> CapabilityFacets \<Rightarrow> CapabilityFacets \<Rightarrow> bool" where
  "same_facets X f g \<longleftrightarrow>
     set (fa_tools f) = set (fa_tools g) \<and>
     set (fa_ontologies f) = set (fa_ontologies g) \<and>
     map (normalize X) (enum_fields f) = map (normalize X) (enum_fields g)"

text \<open>
  Serde writes the fields of the structure in declaration order, so the JSON determines them;
  and BLAKE3 has no collision on the JSON of the two canonical forms.
\<close>

definition json_inj :: "ext \<Rightarrow> bool" where
  "json_inj X \<longleftrightarrow> (\<forall>c d. json_facets X c = json_facets X d \<longrightarrow> c = d)"

definition no_collision :: "ext \<Rightarrow> bytes \<Rightarrow> bytes \<Rightarrow> bool" where
  "no_collision X a b \<longleftrightarrow> (blake3 X a = blake3 X b \<longrightarrow> a = b)"

section \<open>Lemmas\<close>

lemma sorted_remdups_adj_distinct:
  "sorted (xs :: 'a::linorder list) \<Longrightarrow> distinct (remdups_adj xs)"
proof (induction xs rule: remdups_adj.induct)
  case (3 x y xs)
  then show ?case by (auto simp: order.antisym)
qed auto

lemma sorted_remdups_adj_sorted: "sorted (xs :: 'a::linorder list) \<Longrightarrow> sorted (remdups_adj xs)"
  by (induction xs rule: remdups_adj.induct) auto

text \<open>Sorting and removing adjacent duplicates yields the sorted list of the elements.\<close>

lemma sort_dedup_eq: "remdups_adj (sort xs) = sorted_list_of_set (set (xs :: 'a::linorder list))"
proof -
  have "sorted (remdups_adj (sort xs))" "distinct (remdups_adj (sort xs))"
    by (auto intro: sorted_remdups_adj_sorted sorted_remdups_adj_distinct)
  then have "sorted_list_of_set (set (remdups_adj (sort xs))) = remdups_adj (sort xs)"
    by (rule sorted_list_of_set.idem_if_sorted_distinct)
  then show ?thesis by simp
qed

lemma sort_dedup_eq_iff:
  "remdups_adj (sort xs) = remdups_adj (sort ys) \<longleftrightarrow> set xs = set (ys :: 'a::linorder list)"
  by (metis sort_dedup_eq remdups_adj_set set_sort)

lemma canonical_facets_eq_iff:
  "canonical_facets X f = canonical_facets X g \<longleftrightarrow> same_facets X f g"
  by (auto simp: canonical_facets_def same_facets_def enum_fields_def Let_def sort_dedup_eq_iff)

lemma same_facets_fingerprint: "same_facets X f g \<Longrightarrow> fingerprint X f = fingerprint X g"
  by (simp add: fingerprint_def canonical_facets_eq_iff [THEN iffD2])

lemma fingerprint_same_facets:
  assumes "json_inj X"
    and "no_collision X (json_facets X (canonical_facets X f)) (json_facets X (canonical_facets X g))"
    and "fingerprint X f = fingerprint X g"
  shows "same_facets X f g"
proof -
  have "json_facets X (canonical_facets X f) = json_facets X (canonical_facets X g)"
    using assms(2,3) by (simp add: no_collision_def fingerprint_def)
  then have "canonical_facets X f = canonical_facets X g"
    using assms(1) by (simp add: json_inj_def)
  then show ?thesis by (simp add: canonical_facets_eq_iff)
qed

section \<open>Properties\<close>

text \<open>
  The fingerprint is a function of the canonical facets: two facet sets whose tools and
  ontologies are equal as sets and whose other fields are equal after trimming and lower
  casing have the same fingerprint, whatever the order and repetition of the lists and
  whatever the status field says.
\<close>

lemma fingerprint_canonical:
  assumes "set (fa_tools f) = set (fa_tools g)"
    and "set (fa_ontologies f) = set (fa_ontologies g)"
    and "map (normalize X) (enum_fields f) = map (normalize X) (enum_fields g)"
  shows "fingerprint X (f\<lparr>fa_status := s\<rparr>) = fingerprint X (g\<lparr>fa_status := t\<rparr>)"
  using assms by (intro same_facets_fingerprint) (simp add: same_facets_def enum_fields_def)


end
