(* ===== verification/Kite_Capability.thy ===== *)
theory Kite_Capability
  imports Kite_Identity Kite_Facets
begin

text \<open>
  \<^verbatim>\<open>kite-mesh-core/src/capability.rs\<close> and \<^verbatim>\<open>intent.rs\<close>: construction of a signed capability
  card, its verification (facets and embedding present, canonical model and dimension,
  recomputed fingerprint, key and agent identifier, signature), and the construction of an
  intent. \<open>t\<close> is the reading of the clock, \<open>u\<close> the fresh UUID.
\<close>

section \<open>Capability cards\<close>

definition card_signing_bytes :: "ext \<Rightarrow> CapabilityCard \<Rightarrow> (bytes, Error) exec" where
  "card_signing_bytes X crd =
     (let c = crd\<lparr>card_signature := []\<rparr> in of_sum Serialize (enc_card X c))"

definition capability_now_ns :: "nat option \<Rightarrow> u64" where
  "capability_now_ns t = (case t of Some n \<Rightarrow> of_nat n | None \<Rightarrow> 0)"

definition capability_build ::
  "ext \<Rightarrow> nat option \<Rightarrow> AgentIdentity \<Rightarrow> string \<Rightarrow> string \<Rightarrow> string \<Rightarrow> CapabilityFacets \<Rightarrow> string
     \<Rightarrow> f32 list \<Rightarrow> u64 \<Rightarrow> (CapabilityCard, Error) exec" where
  "capability_build X t i capability_id agent_name agent_version facets description vector ttl_ns =
     (if length vector \<noteq> unat CANONICAL_EMBEDDING_DIM
      then Err (EmbeddingDimension CANONICAL_EMBEDDING_DIM (of_nat (length vector)))
      else let now = capability_now_ns t;
               fp = fingerprint X facets;
               crd = \<lparr>card_capability_id = capability_id,
                       card_agent_id = pid_to_string X (peer_id X i),
                       card_agent_name = agent_name,
                       card_agent_version = agent_version,
                       card_ontologies = fa_ontologies facets,
                       card_tools = [],
                       card_facets = Some facets,
                       card_description = description,
                       card_embedding = Some \<lparr>emb_model_id = CANONICAL_MODEL_ID,
                                              emb_dimension = CANONICAL_EMBEDDING_DIM,
                                              emb_vector = vector,
                                              emb_normalized = True\<rparr>,
                       card_pricing = None,
                       card_status = agent_status_as_i32 Available,
                       card_last_seen_ns = now,
                       card_expires_at_ns = saturating_add now ttl_ns,
                       card_facet_fingerprint = fp,
                       card_endorsements = [],
                       card_signature = [],
                       card_mcp_servers = [],
                       card_a2a_agent_card_url = '''',
                       card_public_key = pk_encode X (public_key X i)\<rparr>
      in bind_exec (card_signing_bytes X crd) (\<lambda>b.
         bind_exec (identity_sign X i b) (\<lambda>sig.
         Ok (crd\<lparr>card_signature := sig\<rparr>))))"

definition capability_verify :: "ext \<Rightarrow> CapabilityCard \<Rightarrow> (unit, Error) exec" where
  "capability_verify X crd =
     bind_exec (ok_or (InvalidCard ''missing facets'') (card_facets crd)) (\<lambda>facets.
     bind_exec (ok_or (InvalidCard ''missing embedding'') (card_embedding crd)) (\<lambda>embedding.
     if emb_model_id embedding \<noteq> CANONICAL_MODEL_ID
     then Err (UnsupportedModel (emb_model_id embedding))
     else if emb_dimension embedding \<noteq> CANONICAL_EMBEDDING_DIM
       \<or> (of_nat (length (emb_vector embedding)) :: u32) \<noteq> CANONICAL_EMBEDDING_DIM
     then Err (EmbeddingDimension CANONICAL_EMBEDDING_DIM (of_nat (length (emb_vector embedding))))
     else if card_facet_fingerprint crd \<noteq> fingerprint X facets
     then Err FingerprintMismatch
     else bind_exec (ok_or (InvalidCard ''bad agent_id'') (pid_parse X (card_agent_id crd))) (\<lambda>expected_peer.
       bind_exec (of_sum (\<lambda>e. InvalidCard (''bad public key: '' @ e)) (pk_decode X (card_public_key crd))) (\<lambda>public.
       if pid_of_key X public \<noteq> expected_peer
       then Err (InvalidCard ''public key does not match agent_id'')
       else bind_exec (card_signing_bytes X crd) (\<lambda>signing.
         bind_exec (identity_verify X public signing (card_signature crd)) (\<lambda>_. Ok ()))))))"

section \<open>Intents\<close>

record IntentInput =
  ii_requester_agent_id :: string
  ii_facets :: CapabilityFacets
  ii_description :: string
  ii_embedding :: "f32 list"
  ii_payload :: bytes
  ii_deadline_ns :: u64

record BuiltIntent =
  bi_intent :: Intent
  bi_facets :: CapabilityFacets
  bi_embedding :: "f32 list"

definition intent_build :: "string \<Rightarrow> IntentInput \<Rightarrow> (BuiltIntent, Error) exec" where
  "intent_build u inp =
     (if length (ii_embedding inp) \<noteq> unat CANONICAL_EMBEDDING_DIM
      then Err (EmbeddingDimension CANONICAL_EMBEDDING_DIM (of_nat (length (ii_embedding inp))))
      else Ok \<lparr>bi_intent = \<lparr>int_intent_id = u,
                            int_requester_agent_id = ii_requester_agent_id inp,
                            int_description = ii_description inp,
                            int_payload = ii_payload inp,
                            int_deadline_ns = ii_deadline_ns inp\<rparr>,
               bi_facets = ii_facets inp,
               bi_embedding = ii_embedding inp\<rparr>)"

section \<open>Capability cards are sealed messages\<close>

interpretation card_seal: sealed_message card_signature "\<lambda>s m. m\<lparr>card_signature := s\<rparr>" enc_card card_signing_bytes
  by unfold_locales (auto simp: card_signing_bytes_def Let_def exec_simps)

section \<open>Lemmas\<close>

lemma card_signing_bytes_no_panic [simp]: "card_signing_bytes X m \<noteq> Panic p"
  by (simp add: card_signing_bytes_def Let_def)

lemma capability_verify_no_panic [simp]: "capability_verify X c \<noteq> Panic p"
  by (auto simp: capability_verify_def exec_simps split: if_splits)

lemma capability_verify_Ok_iff:
  "capability_verify X c = Ok v \<longleftrightarrow>
     (\<exists>f e k b. card_facets c = Some f \<and> card_embedding c = Some e \<and>
        emb_model_id e = CANONICAL_MODEL_ID \<and> emb_dimension e = CANONICAL_EMBEDDING_DIM \<and>
        (of_nat (length (emb_vector e)) :: u32) = CANONICAL_EMBEDDING_DIM \<and>
        card_facet_fingerprint c = fingerprint X f \<and>
        pk_decode X (card_public_key c) = Inr k \<and>
        pid_parse X (card_agent_id c) = Some (pid_of_key X k) \<and>
        card_signing_bytes X c = Ok b \<and> pk_verify X k b (card_signature c))"
    (is "_ \<longleftrightarrow> ?R")
proof
  assume "capability_verify X c = Ok v"
  then show ?R by (auto simp: capability_verify_def exec_simps split: if_splits)
next
  assume ?R
  then show "capability_verify X c = Ok v"
    by (auto simp: capability_verify_def identity_verify_def)
qed

lemma dim_of_nat: "(of_nat 384 :: u32) = CANONICAL_EMBEDDING_DIM"
  by (simp add: CANONICAL_EMBEDDING_DIM_def)

lemma dim_length_exact:
  "(of_nat n :: u32) = CANONICAL_EMBEDDING_DIM \<Longrightarrow> n < 2 ^ 32 \<Longrightarrow> n = 384"
proof -
  assume "(of_nat n :: u32) = CANONICAL_EMBEDDING_DIM" and n: "n < 2 ^ 32"
  then have "unat (of_nat n :: u32) = 384" by simp
  then show ?thesis using n by (simp add: unat_of_nat)
qed

lemma capability_build_Ok_iff:
  "capability_build X t i cid nm ver f d v ttl = Ok c \<Longrightarrow>
     length v = 384 \<and> card_facets c = Some f \<and> card_capability_id c = cid \<and>
     card_agent_id c = pid_to_string X (peer_id X i) \<and>
     card_facet_fingerprint c = fingerprint X f \<and>
     (\<exists>e. card_embedding c = Some e \<and> emb_vector e = v)"
  by (auto simp: capability_build_def Let_def exec_simps split: if_splits)

lemma capability_build_verifies:
  assumes laws: "sign_law X" "key_law X" "pid_law X"
    and c: "capability_build X t i cid nm ver f d v ttl = Ok c"
  shows "capability_verify X c = Ok ()"
proof -
  obtain c0 b s where b: "card_signing_bytes X c0 = Ok b" "identity_sign X i b = Ok s"
    and c: "c = c0\<lparr>card_signature := s\<rparr>"
    and f: "card_agent_id c0 = pid_to_string X (peer_id X i)" "card_facets c0 = Some f"
      "card_public_key c0 = pk_encode X (public_key X i)" "card_facet_fingerprint c0 = fingerprint X f"
      "card_embedding c0 = Some \<lparr>emb_model_id = CANONICAL_MODEL_ID,
         emb_dimension = CANONICAL_EMBEDDING_DIM, emb_vector = v, emb_normalized = True\<rparr>"
    and v: "length v = 384"
    using c by (fastforce simp: capability_build_def Let_def exec_simps split: if_splits)
  note s = card_seal.sealed_verifies [OF laws(1) b]
  show ?thesis using laws(2,3) s f v dim_of_nat unfolding capability_verify_Ok_iff c
    by (auto simp: key_law_def pid_law_def peer_id_def public_key_def exec_simps)
qed

section \<open>Properties\<close>


end
