(* ===== verification/Kite_Receipt.thy ===== *)
theory Kite_Receipt
  imports Kite_Identity
begin

text \<open>
  \<^verbatim>\<open>kite-mesh-core/src/receipt.rs\<close> and its migration: signed receipts and the SQLite table
  they are kept in. The table is a map from its primary key \<^verbatim>\<open>conversation_id\<close> to rows;
  \<^verbatim>\<open>INTEGER\<close> columns hold integers, so that the casts between \<^verbatim>\<open>u64\<close>, \<^verbatim>\<open>i64\<close> and the
  column are visible. The error, if any, that the database returns for a statement is the
  argument \<open>e\<close>. The contract of the store (what a lookup returns after an insertion) is
  the locale \<open>receipt_store\<close>, interpreted on the SQL table.
\<close>

section \<open>Receipts\<close>

definition receipt_signing_bytes :: "ext \<Rightarrow> Receipt \<Rightarrow> (bytes, Error) exec" where
  "receipt_signing_bytes X receipt =
     (let r = receipt\<lparr>rec_signature := []\<rparr> in of_sum Serialize (enc_receipt X r))"

definition receipt_now_ns :: "nat option \<Rightarrow> u64" where
  "receipt_now_ns t = (case t of Some n \<Rightarrow> of_nat n | None \<Rightarrow> 0)"

definition receipt_build ::
  "ext \<Rightarrow> nat option \<Rightarrow> AgentIdentity \<Rightarrow> string \<Rightarrow> string \<Rightarrow> string \<Rightarrow> string \<Rightarrow> ResultStatus
     \<Rightarrow> (Receipt, Error) exec" where
  "receipt_build X t i conversation_id capability_id requester_peer_id provider_peer_id status =
     (let receipt = \<lparr>rec_conversation_id = conversation_id,
                     rec_capability_id = capability_id,
                     rec_requester_peer_id = requester_peer_id,
                     rec_provider_peer_id = provider_peer_id,
                     rec_status = result_status_as_i32 status,
                     rec_completed_at_ns = receipt_now_ns t,
                     rec_signature = [],
                     rec_issuer_public_key = pk_encode X (public_key X i)\<rparr>
      in bind_exec (receipt_signing_bytes X receipt) (\<lambda>b.
         bind_exec (identity_sign X i b) (\<lambda>sig.
         Ok (receipt\<lparr>rec_signature := sig\<rparr>))))"

definition receipt_verify :: "ext \<Rightarrow> Receipt \<Rightarrow> (unit, Error) exec" where
  "receipt_verify X receipt =
     bind_exec (of_sum (\<lambda>e. InvalidCard (''bad issuer public key: '' @ e))
         (pk_decode X (rec_issuer_public_key receipt))) (\<lambda>public.
     bind_exec (receipt_signing_bytes X receipt) (\<lambda>b.
     identity_verify X public b (rec_signature receipt)))"

section \<open>The table\<close>

record Row =
  row_conversation_id :: string
  row_capability_id :: string
  row_requester_peer_id :: string
  row_provider_peer_id :: string
  row_status :: int
  row_completed_at_ns :: int
  row_signature :: bytes
  row_issuer_public_key :: bytes
  row_counterparty_signed :: "bytes option"

type_synonym ReceiptStore = "string \<rightharpoonup> Row"

record StoredReceipt =
  sr_receipt :: Receipt
  sr_counterparty_signature :: "bytes option"

text \<open>
  \<^verbatim>\<open>open\<close>: the directory is created, the pool connects to the file (creating an empty database
  when there is none: \<open>db = None\<close>), and the migration creates the table unless it exists.
\<close>

definition store_open ::
  "string option \<Rightarrow> string option \<Rightarrow> string option \<Rightarrow> ReceiptStore option \<Rightarrow> (ReceiptStore, Error) exec" where
  "store_open mkdir_e connect_e e db = (case mkdir_e of Some x \<Rightarrow> Err (Io x) | None \<Rightarrow>
     (case connect_e of Some x \<Rightarrow> Err (Store x) | None \<Rightarrow>
       (case e of Some x \<Rightarrow> Err (Store x) | None \<Rightarrow>
         Ok (case db of Some tab \<Rightarrow> tab | None \<Rightarrow> Map.empty))))"

definition store_in_memory :: "string option \<Rightarrow> string option \<Rightarrow> (ReceiptStore, Error) exec" where
  "store_in_memory connect_e e = (case connect_e of Some x \<Rightarrow> Err (Store x) | None \<Rightarrow>
     (case e of Some x \<Rightarrow> Err (Store x) | None \<Rightarrow> Ok Map.empty))"

definition row_of :: "Receipt \<Rightarrow> bytes option \<Rightarrow> Row" where
  "row_of r counterparty_signed =
     \<lparr>row_conversation_id = rec_conversation_id r,
      row_capability_id = rec_capability_id r,
      row_requester_peer_id = rec_requester_peer_id r,
      row_provider_peer_id = rec_provider_peer_id r,
      row_status = sint (rec_status r),
      row_completed_at_ns = sint (rec_completed_at_ns r),
      row_signature = rec_signature r,
      row_issuer_public_key = rec_issuer_public_key r,
      row_counterparty_signed = counterparty_signed\<rparr>"

definition store_insert ::
  "string option \<Rightarrow> Receipt \<Rightarrow> bytes option \<Rightarrow> ReceiptStore \<Rightarrow> (unit, Error) exec \<times> ReceiptStore" where
  "store_insert e r counterparty_signed db = (case e of
     Some x \<Rightarrow> (Err (Store x), db)
   | None \<Rightarrow> (Ok (), db(rec_conversation_id r \<mapsto> row_of r counterparty_signed)))"

definition stored_of :: "Row \<Rightarrow> StoredReceipt" where
  "stored_of r =
     \<lparr>sr_receipt = \<lparr>rec_conversation_id = row_conversation_id r,
                    rec_capability_id = row_capability_id r,
                    rec_requester_peer_id = row_requester_peer_id r,
                    rec_provider_peer_id = row_provider_peer_id r,
                    rec_status = word_of_int (row_status r),
                    rec_completed_at_ns = word_of_int (row_completed_at_ns r),
                    rec_signature = row_signature r,
                    rec_issuer_public_key = row_issuer_public_key r\<rparr>,
      sr_counterparty_signature = row_counterparty_signed r\<rparr>"

definition store_get :: "string option \<Rightarrow> string \<Rightarrow> ReceiptStore \<Rightarrow> (StoredReceipt option, Error) exec" where
  "store_get e conversation_id db = (case e of
     Some x \<Rightarrow> Err (Store x)
   | None \<Rightarrow> Ok (map_option stored_of (db conversation_id)))"

section \<open>The contract of the store\<close>

text \<open>
  What the event loop relies on: after a successful insertion the receipt is found under its
  conversation, other conversations are untouched, and a failed insertion changes nothing.
\<close>

locale receipt_store =
  fixes insert_op :: "string option \<Rightarrow> Receipt \<Rightarrow> bytes option \<Rightarrow> 's \<Rightarrow> (unit, Error) exec \<times> 's"
    and lookup_op :: "string \<Rightarrow> 's \<Rightarrow> StoredReceipt option"
  assumes insert_same: "insert_op e r c s = (Ok (), s') \<Longrightarrow>
      lookup_op (rec_conversation_id r) s' = Some \<lparr>sr_receipt = r, sr_counterparty_signature = c\<rparr>"
    and insert_other: "insert_op e r c s = (res, s') \<Longrightarrow> k \<noteq> rec_conversation_id r \<Longrightarrow>
      lookup_op k s' = lookup_op k s"
    and insert_fail: "insert_op e r c s = (Err x, s') \<Longrightarrow> s' = s"
    and insert_no_panic: "fst (insert_op e r c s) \<noteq> Panic p"
begin

text \<open>A later insertion replaces an earlier one under the same conversation.\<close>

lemma insert_replaces:
  assumes "insert_op e r c s = (Ok (), s1)" "insert_op e' r' c' s1 = (Ok (), s2)"
    and "rec_conversation_id r = rec_conversation_id r'"
  shows "lookup_op (rec_conversation_id r) s2 = Some \<lparr>sr_receipt = r', sr_counterparty_signature = c'\<rparr>"
  using insert_same [OF assms(2)] assms(3) by simp

lemma insert_keeps:
  assumes "insert_op e r c s = (res, s')" "lookup_op k s = Some v"
  shows "lookup_op k s' \<noteq> None"
proof (cases "k = rec_conversation_id r")
  case True
  show ?thesis
  proof (cases res)
    case (Ok u)
    then show ?thesis using insert_same assms True by (cases u) auto
  next
    case (Err x)
    then show ?thesis using insert_fail [of e r c s x s'] assms by simp
  next
    case (Panic p)
    then show ?thesis using insert_no_panic [of e r c s p] assms by simp
  qed
next
  case False
  then show ?thesis using insert_other assms by fastforce
qed

end

section \<open>The SQL table implements the contract; receipts are sealed messages\<close>

lemma stored_of_row_of: "stored_of (row_of r c) = \<lparr>sr_receipt = r, sr_counterparty_signature = c\<rparr>"
  by (simp add: stored_of_def row_of_def)

interpretation sql: receipt_store store_insert "\<lambda>k db. map_option stored_of (db k)"
  by unfold_locales (auto simp: store_insert_def stored_of_row_of split: option.splits)

interpretation receipt_seal: sealed_message rec_signature "\<lambda>s m. m\<lparr>rec_signature := s\<rparr>" enc_receipt receipt_signing_bytes
  by unfold_locales (auto simp: receipt_signing_bytes_def Let_def exec_simps)

section \<open>Lemmas\<close>

lemma receipt_signing_bytes_no_panic [simp]: "receipt_signing_bytes X m \<noteq> Panic p"
  by (simp add: receipt_signing_bytes_def Let_def)

lemma receipt_build_no_panic [simp]: "receipt_build X t i a b c d s \<noteq> Panic p"
  by (auto simp: receipt_build_def Let_def exec_simps)

lemma receipt_verify_Ok_iff:
  "receipt_verify X r = Ok v \<longleftrightarrow>
     (\<exists>k b. pk_decode X (rec_issuer_public_key r) = Inr k \<and>
        receipt_signing_bytes X r = Ok b \<and> pk_verify X k b (rec_signature r))"
  by (auto simp: receipt_verify_def exec_simps)

lemma receipt_build_fields:
  assumes "receipt_build X t i conv cap req prov st = Ok r"
  shows "rec_conversation_id r = conv" "rec_capability_id r = cap"
    "rec_requester_peer_id r = req" "rec_provider_peer_id r = prov"
    "rec_status r = result_status_as_i32 st" "rec_completed_at_ns r = receipt_now_ns t"
    "rec_issuer_public_key r = pk_encode X (public_key X i)"
  using assms by (auto simp: receipt_build_def Let_def exec_simps)

lemma receipt_build_verifies:
  assumes laws: "sign_law X" "key_law X" and r: "receipt_build X t i conv cap req prov st = Ok r"
  shows "receipt_verify X r = Ok ()"
proof -
  obtain r0 b s where b: "receipt_signing_bytes X r0 = Ok b" "identity_sign X i b = Ok s"
    and r: "r = r0\<lparr>rec_signature := s\<rparr>"
    and f: "rec_issuer_public_key r0 = pk_encode X (public_key X i)"
    using r by (fastforce simp: receipt_build_def Let_def exec_simps)
  note v = receipt_seal.sealed_verifies [OF laws(1) b]
  show ?thesis using laws(2) v f unfolding receipt_verify_Ok_iff r
    by (auto simp: key_law_def exec_simps)
qed

lemma receipt_build_Ok:
  assumes "\<And>m. \<exists>b. enc_receipt X m = Inr b" "\<And>b. \<exists>s. kp_sign X (keypair i) b = Inr s"
  shows "\<exists>r. receipt_build X t i conv cap req prov st = Ok r"
proof -
  obtain e s where "\<And>m. enc_receipt X m = Inr (e m)" "\<And>b. kp_sign X (keypair i) b = Inr (s b)"
    using assms by metis
  then show ?thesis
    by (simp add: receipt_build_def Let_def receipt_signing_bytes_def identity_sign_def)
qed

section \<open>Properties\<close>

text \<open>
  The receipt store returns what was stored: after a successful insertion the lookup of
  the receipt's conversation returns the receipt with every field intact, the \<^verbatim>\<open>u64\<close> time stamp
  through the signed 64-bit column included, and the counterparty's signature; every other
  conversation keeps its receipt.
\<close>

lemma receipt_insert_get:
  assumes "store_insert None r c db = (res, db')"
  shows "res = Ok () \<and>
    store_get None (rec_conversation_id r) db' = Ok (Some \<lparr>sr_receipt = r, sr_counterparty_signature = c\<rparr>) \<and>
    (\<forall>k. k \<noteq> rec_conversation_id r \<longrightarrow> store_get None k db' = store_get None k db)"
proof -
  have res: "res = Ok ()" using assms by (simp add: store_insert_def)
  then have "map_option stored_of (db' (rec_conversation_id r)) = Some \<lparr>sr_receipt = r, sr_counterparty_signature = c\<rparr>"
    using assms by (intro sql.insert_same) simp
  moreover have "map_option stored_of (db' k) = map_option stored_of (db k)"
    if "k \<noteq> rec_conversation_id r" for k
    using that assms by (rule sql.insert_other [rotated])
  ultimately show ?thesis using res by (simp add: store_get_def)
qed


end
