(* ===== verification/Kite_Lsh.thy ===== *)
theory Kite_Lsh
  imports Kite_Proto
begin

unbundle bit_operations_syntax

text \<open>
  \<^verbatim>\<open>kite-mesh-discovery/src/lsh.rs\<close>: angular locality-sensitive hashing. Hyperplanes are
  expanded from a seed with BLAKE3's extendable output and the Box-Muller transform; the
  signature of a vector in table \<open>t\<close> packs the signs of its dot products with the \<open>k\<close>
  planes of that table into bytes. The assertion on the dimension and the indexing of the
  plane list are panics of the model. Arithmetic on \<^verbatim>\<open>u32\<close> wraps, as in a release build;
  the properties assume tables of fewer than \<open>2\<^sup>32\<close> planes, where it does not.
\<close>

section \<open>Parameters\<close>

definition DEFAULT_K :: u32 where
  "DEFAULT_K = 8"

definition DEFAULT_L :: u32 where
  "DEFAULT_L = 4"

record LshParams =
  lp_k :: u32
  lp_l :: u32
  lp_dim :: u32

definition default_for_skeleton :: LshParams where
  "default_for_skeleton = \<lparr>lp_k = DEFAULT_K, lp_l = DEFAULT_L, lp_dim = CANONICAL_EMBEDDING_DIM\<rparr>"

record AngularLsh =
  lsh_params :: LshParams
  lsh_planes :: "f32 list list"

section \<open>Planes\<close>

text \<open>\<^verbatim>\<open>std::f64::consts::PI\<close> and the other constants of the transform.\<close>

definition f64_pi :: f64 where
  "f64_pi = FFin False 7074237752028440 (- 51)"

definition f64_of_nat :: "nat \<Rightarrow> f64" where
  "f64_of_nat n = round_flt binary64 False n 0"

text \<open>One component: \<open>u1\<close> and \<open>u2\<close> are the two words read from the output of the hash.\<close>

definition box_muller :: "ext \<Rightarrow> u32 \<Rightarrow> u32 \<Rightarrow> f32" where
  "box_muller X u1 u2 =
     (let max32 = of_u32 binary64 (- 1);
          r1 = fdiv binary64 (fadd binary64 (of_u32 binary64 u1) (f64_of_nat 1))
                 (fadd binary64 max32 (f64_of_nat 2));
          r2 = fdiv binary64 (of_u32 binary64 u2) (fadd binary64 max32 (f64_of_nat 1));
          minus2 = round_flt binary64 True 2 0;
          z = fmul binary64
                (fsqrt binary64 (fmul binary64 minus2 (f64_ln X r1)))
                (f64_cos X (fmul binary64 (fmul binary64 (f64_of_nat 2) f64_pi) r2))
      in fcast binary32 z)"

text \<open>The loop that fills the plane: \<open>n\<close> components are missing, \<open>i\<close> is the read position.\<close>

fun plane_loop :: "ext \<Rightarrow> bytes \<Rightarrow> nat \<Rightarrow> nat \<Rightarrow> f32 list" where
  "plane_loop X bs 0 i = []"
| "plane_loop X bs (Suc n) i =
     (let u1 = from_le_bytes (take 4 (drop i bs));
          u2 = from_le_bytes (take 4 (drop (i + 4) bs))
      in box_muller X u1 u2 # plane_loop X bs n (i + 8))"

definition generate_plane :: "ext \<Rightarrow> bytes \<Rightarrow> u32 \<Rightarrow> u32 \<Rightarrow> u32 \<Rightarrow> f32 list" where
  "generate_plane X seed table bit_no d =
     (let input = seed @ to_le_bytes table @ to_le_bytes bit_no;
          bs = map (blake3_xof X input) [0..<unat d * 8]
      in plane_loop X bs (unat d) 0)"

definition default_seed :: "ext \<Rightarrow> bytes" where
  "default_seed X = blake3 X (as_bytes CANONICAL_MODEL_ID @ to_le_bytes PROTOCOL_VERSION)"

definition lsh_new :: "ext \<Rightarrow> LshParams \<Rightarrow> bytes \<Rightarrow> AngularLsh" where
  "lsh_new X params seed =
     \<lparr>lsh_params = params,
      lsh_planes = concat (map (\<lambda>table. map (\<lambda>b.
          generate_plane X seed (of_nat table) (of_nat b) (lp_dim params))
        [0..<unat (lp_k params)]) [0..<unat (lp_l params)])\<rparr>"

section \<open>Signatures\<close>

text \<open>\<^verbatim>\<open>k.div_ceil(8)\<close>\<close>

definition bytes_per :: "u32 \<Rightarrow> nat" where
  "bytes_per k = (unat k + 7) div 8"

text \<open>One iteration of the inner loop: the sign bit of plane \<open>b\<close> of the table.\<close>

definition sig_step :: "AngularLsh \<Rightarrow> f32 list \<Rightarrow> u32 \<Rightarrow> nat \<Rightarrow> bytes \<Rightarrow> (bytes, 'e) exec" where
  "sig_step lsh v table b sig =
     (let idx = unat (table * lp_k (lsh_params lsh) + of_nat b)
      in if length (lsh_planes lsh) \<le> idx then Panic ''index out of bounds''
         else if f_ge (dot v (lsh_planes lsh ! idx)) (f_zero binary32) then
           (if length sig \<le> b div 8 then Panic ''index out of bounds''
            else Ok (sig[b div 8 := (sig ! (b div 8)) OR push_bit (b mod 8) 1]))
         else Ok sig)"

text \<open>The inner loop after its first \<open>n\<close> iterations.\<close>

fun sig_upto :: "AngularLsh \<Rightarrow> f32 list \<Rightarrow> u32 \<Rightarrow> nat \<Rightarrow> (bytes, 'e) exec" where
  "sig_upto lsh v table 0 = Ok (replicate (bytes_per (lp_k (lsh_params lsh))) 0)"
| "sig_upto lsh v table (Suc n) = bind_exec (sig_upto lsh v table n) (sig_step lsh v table n)"

definition signatures :: "AngularLsh \<Rightarrow> f32 list \<Rightarrow> (bytes list, 'e) exec" where
  "signatures lsh v =
     (if (of_nat (length v) :: u32) \<noteq> lp_dim (lsh_params lsh)
      then Panic ''assertion `left == right` failed''
      else try_map (\<lambda>table. sig_upto lsh v (of_nat table) (unat (lp_k (lsh_params lsh))))
             [0..<unat (lp_l (lsh_params lsh))])"

section \<open>Well-formed instances\<close>

definition lsh_wf :: "AngularLsh \<Rightarrow> bool" where
  "lsh_wf lsh \<longleftrightarrow>
     length (lsh_planes lsh) = unat (lp_l (lsh_params lsh)) * unat (lp_k (lsh_params lsh)) \<and>
     unat (lp_l (lsh_params lsh)) * unat (lp_k (lsh_params lsh)) < 2 ^ 32"

text \<open>The bit that table \<open>t\<close>, plane \<open>b\<close> contributes.\<close>

definition plane_sign :: "AngularLsh \<Rightarrow> f32 list \<Rightarrow> nat \<Rightarrow> nat \<Rightarrow> bool" where
  "plane_sign lsh v t b \<longleftrightarrow>
     f_ge (dot v (lsh_planes lsh ! (t * unat (lp_k (lsh_params lsh)) + b))) (f_zero binary32)"

section \<open>Lemmas\<close>

lemma length_plane_loop [simp]: "length (plane_loop X bs n i) = n"
  by (induction n arbitrary: i) (simp_all add: Let_def)

lemma length_generate_plane [simp]: "length (generate_plane X seed t b d) = unat d"
  by (simp add: generate_plane_def Let_def)

lemma length_concat_const:
  "(\<And>x. x \<in> set xs \<Longrightarrow> length (f x) = n) \<Longrightarrow> length (concat (map f xs)) = length xs * n"
  by (induction xs) auto

lemma lsh_new_params [simp]: "lsh_params (lsh_new X p seed) = p"
  by (simp add: lsh_new_def)

lemma lsh_new_length: "length (lsh_planes (lsh_new X p seed)) = unat (lp_l p) * unat (lp_k p)"
  by (simp add: lsh_new_def length_concat_const)

lemma lsh_new_wf: "unat (lp_l p) * unat (lp_k p) < 2 ^ 32 \<Longrightarrow> lsh_wf (lsh_new X p seed)"
  by (simp add: lsh_wf_def lsh_new_length)

lemma default_lsh_wf: "lsh_wf (lsh_new X default_for_skeleton seed)"
  by (rule lsh_new_wf) (simp add: default_for_skeleton_def DEFAULT_K_def DEFAULT_L_def)

lemma nth_concat_uniform:
  assumes "\<And>x. x \<in> set xs \<Longrightarrow> length (f x) = n" "t < length xs" "b < n"
  shows "concat (map f xs) ! (t * n + b) = f (xs ! t) ! b"
  using assms
proof (induction xs arbitrary: t)
  case (Cons x xs)
  then show ?case by (cases t) (simp_all add: nth_append)
qed simp

lemma lsh_new_plane:
  assumes "t < unat (lp_l p)" "b < unat (lp_k p)"
  shows "lsh_planes (lsh_new X p seed) ! (t * unat (lp_k p) + b) =
    generate_plane X seed (of_nat t) (of_nat b) (lp_dim p)"
  using assms by (simp add: lsh_new_def nth_concat_uniform)

lemma plane_index_lt:
  assumes "t < (l :: nat)" "b < k"
  shows "t * k + b < l * k"
proof -
  have "t * k + b < Suc t * k" using assms(2) by simp
  also have "\<dots> \<le> l * k" using assms(1) by (intro mult_le_mono1) simp
  finally show ?thesis .
qed

lemma plane_index_unat:
  fixes k :: u32
  assumes "t < l" "b < unat k" "l * unat k < 2 ^ 32"
  shows "unat (of_nat t * k + of_nat b) = t * unat k + b"
proof -
  have lt: "t * unat k + b < 2 ^ 32" using plane_index_lt [OF assms(1,2)] assms(3) by linarith
  have "of_nat t * k + of_nat b = (of_nat (t * unat k + b) :: u32)" by simp
  then have "unat (of_nat t * k + of_nat b) = unat (of_nat (t * unat k + b) :: u32)" by (simp only:)
  also have "\<dots> = (t * unat k + b) mod 2 ^ 32" by (simp only: unat_of_nat) simp
  finally show ?thesis using lt by simp
qed

lemma sig_upto_spec:
  assumes wf: "lsh_wf lsh" and t: "t < unat (lp_l (lsh_params lsh))"
    and n: "n \<le> unat (lp_k (lsh_params lsh))"
  shows "\<exists>sig. sig_upto lsh v (of_nat t) n = (Ok sig :: (bytes, 'e) exec) \<and>
    length sig = bytes_per (lp_k (lsh_params lsh)) \<and>
    (\<forall>i<length sig. \<forall>j<8. bit (sig ! i) j \<longleftrightarrow> i * 8 + j < n \<and> plane_sign lsh v t (i * 8 + j))"
  using n
proof (induction n)
  case 0
  then show ?case by simp
next
  case (Suc n)
  then obtain sig where sig: "sig_upto lsh v (of_nat t) n = (Ok sig :: (bytes, 'e) exec)"
    and len: "length sig = bytes_per (lp_k (lsh_params lsh))"
    and bits: "\<And>i j. i < length sig \<Longrightarrow> j < 8 \<Longrightarrow>
        bit (sig ! i) j \<longleftrightarrow> i * 8 + j < n \<and> plane_sign lsh v t (i * 8 + j)"
    by auto
  have idx: "unat (of_nat t * lp_k (lsh_params lsh) + of_nat n) = t * unat (lp_k (lsh_params lsh)) + n"
    using plane_index_unat [OF t, of n] Suc.prems wf by (simp add: lsh_wf_def)
  have inr: "t * unat (lp_k (lsh_params lsh)) + n < length (lsh_planes lsh)"
    using plane_index_lt [OF t, of n] Suc.prems wf by (simp add: lsh_wf_def)
  have byte: "n div 8 < length sig" using Suc.prems len by (simp add: bytes_per_def)
  define sig' where "sig' = (if plane_sign lsh v t n
    then sig[n div 8 := (sig ! (n div 8)) OR push_bit (n mod 8) 1] else sig)"
  have step: "sig_upto lsh v (of_nat t) (Suc n) = (Ok sig' :: (bytes, 'e) exec)"
    using sig idx inr byte by (simp add: sig_step_def Let_def plane_sign_def sig'_def)
  have "bit (sig' ! i) j \<longleftrightarrow> i * 8 + j < Suc n \<and> plane_sign lsh v t (i * 8 + j)"
    if "i < length sig'" "j < 8" for i j
  proof (cases "i * 8 + j = n")
    case True
    then have "i = n div 8" "j = n mod 8" using that(2) by auto
    then show ?thesis using bits [of i j] byte that(2) True
      by (auto simp: sig'_def bit_simps)
  next
    case False
    then have "i \<noteq> n div 8 \<or> j \<noteq> n mod 8" by (metis div_mult_mod_eq)
    then have "bit (sig' ! i) j = bit (sig ! i) j"
      using that byte by (auto simp: sig'_def bit_simps nth_list_update)
    then show ?thesis using bits [of i j] that False by (auto simp: sig'_def split: if_splits)
  qed
  then show ?case using step len by (auto simp: sig'_def split: if_splits)
qed

lemma signatures_Ok:
  assumes wf: "lsh_wf lsh" and v: "(of_nat (length v) :: u32) = lp_dim (lsh_params lsh)"
  shows "\<exists>sigs. signatures lsh v = (Ok sigs :: (bytes list, 'e) exec) \<and>
    length sigs = unat (lp_l (lsh_params lsh)) \<and>
    (\<forall>t<length sigs. length (sigs ! t) = bytes_per (lp_k (lsh_params lsh)) \<and>
      (\<forall>i<length (sigs ! t). \<forall>j<8. bit (sigs ! t ! i) j \<longleftrightarrow>
         i * 8 + j < unat (lp_k (lsh_params lsh)) \<and> plane_sign lsh v t (i * 8 + j)))"
proof -
  let ?k = "unat (lp_k (lsh_params lsh))" and ?l = "unat (lp_l (lsh_params lsh))"
  obtain g where g: "\<And>t. t < ?l \<Longrightarrow> sig_upto lsh v (of_nat t) ?k = (Ok (g t) :: (bytes, 'e) exec) \<and>
      length (g t) = bytes_per (lp_k (lsh_params lsh)) \<and>
      (\<forall>i<length (g t). \<forall>j<8. bit (g t ! i) j \<longleftrightarrow> i * 8 + j < ?k \<and> plane_sign lsh v t (i * 8 + j))"
    using sig_upto_spec [OF wf _ order_refl, of _ v, where 'e = 'e] by metis
  have "try_map (\<lambda>t. sig_upto lsh v (of_nat t) ?k) [0..<?l] = (Ok (map g [0..<?l]) :: (bytes list, 'e) exec)"
    by (rule try_map_all_Ok) (use g in auto)
  then have "signatures lsh v = (Ok (map g [0..<?l]) :: (bytes list, 'e) exec)"
    using v by (simp add: signatures_def)
  then show ?thesis using g by auto
qed

lemma signatures_panics:
  "(of_nat (length v) :: u32) \<noteq> lp_dim (lsh_params lsh) \<Longrightarrow> is_panic (signatures lsh v)"
  by (simp add: signatures_def)

lemma signatures_never_Err: "lsh_wf lsh \<Longrightarrow> signatures lsh v \<noteq> (Err e :: (bytes list, 'e) exec)"
proof (cases "(of_nat (length v) :: u32) = lp_dim (lsh_params lsh)")
  case True
  then show "lsh_wf lsh \<Longrightarrow> ?thesis" using signatures_Ok [of lsh v, where 'e = 'e] by auto
qed (simp add: signatures_def)

section \<open>Properties\<close>

text \<open>
  C36: the signature of a vector is the packed list of plane signs: for an instance made by
  \<^verbatim>\<open>new\<close> with fewer than \<open>2\<^sup>32\<close> planes and a vector of the right dimension, no index is out of
  bounds, there is one signature of \<open>ceil(k / 8)\<close> bytes per table, bit \<open>j\<close> of byte \<open>i\<close> of table
  \<open>t\<close> is set exactly when the dot product with the plane generated for \<open>(t, 8 i + j)\<close> is not
  negative, and the padding bits are zero.
\<close>

theorem signatures_bits:
  assumes "unat (lp_l p) * unat (lp_k p) < 2 ^ 32" "(of_nat (length v) :: u32) = lp_dim p"
  shows "\<exists>sigs. signatures (lsh_new X p seed) v = (Ok sigs :: (bytes list, Error) exec) \<and>
    length sigs = unat (lp_l p) \<and>
    (\<forall>t<unat (lp_l p). length (sigs ! t) = bytes_per (lp_k p) \<and>
      (\<forall>i<bytes_per (lp_k p). \<forall>j<8. bit (sigs ! t ! i) j \<longleftrightarrow>
         i * 8 + j < unat (lp_k p) \<and>
         f_ge (dot v (generate_plane X seed (of_nat t) (of_nat (i * 8 + j)) (lp_dim p)))
           (f_zero binary32)))"
proof -
  obtain sigs where s: "signatures (lsh_new X p seed) v = (Ok sigs :: (bytes list, Error) exec)"
    "length sigs = unat (lp_l p)"
    and b: "\<And>t. t < length sigs \<Longrightarrow> length (sigs ! t) = bytes_per (lp_k p) \<and>
      (\<forall>i<length (sigs ! t). \<forall>j<8. bit (sigs ! t ! i) j \<longleftrightarrow>
         i * 8 + j < unat (lp_k p) \<and> plane_sign (lsh_new X p seed) v t (i * 8 + j))"
    using signatures_Ok [OF lsh_new_wf [OF assms(1)], of v X seed, where 'e = Error] assms(2) by auto
  have "bit (sigs ! t ! i) j \<longleftrightarrow> i * 8 + j < unat (lp_k p) \<and>
      f_ge (dot v (generate_plane X seed (of_nat t) (of_nat (i * 8 + j)) (lp_dim p))) (f_zero binary32)"
    if "t < unat (lp_l p)" "i < bytes_per (lp_k p)" "j < 8" for t i j
    using b [of t] s(2) that lsh_new_plane [OF that(1), of "i * 8 + j" X seed]
    by (auto simp: plane_sign_def simp del: of_nat_add of_nat_mult)
  then show ?thesis using s b by auto
qed

end
