(* ===== verification/Kite_Directory.thy ===== *)
theory Kite_Directory
  imports Kite_Identity Kite_Facets Kite_Lsh
begin

text \<open>
  \<^verbatim>\<open>kite-mesh-discovery/src/directory.rs\<close>: the keys under which a card is published in the
  DHT, one signed record per LSH table, the keys an intent looks up, and the verification of
  a record. The lemmas connect the two sides: publication and lookup meet in table \<open>i\<close>
  exactly when fingerprint and table signature agree.
\<close>

section \<open>Keys\<close>

definition key_material :: "bytes \<Rightarrow> string \<Rightarrow> u32 \<Rightarrow> bytes \<Rightarrow> bytes" where
  "key_material fp model table code =
     to_le_bytes PROTOCOL_VERSION @ fp @ as_bytes model @ to_le_bytes table @ code"

definition dht_key :: "ext \<Rightarrow> bytes \<Rightarrow> string \<Rightarrow> u32 \<Rightarrow> bytes \<Rightarrow> bytes" where
  "dht_key X fp model table code = blake3 X (key_material fp model table code)"

definition DEFAULT_LSH_PARAMS :: LshParams where
  "DEFAULT_LSH_PARAMS = \<lparr>lp_k = DEFAULT_K, lp_l = DEFAULT_L, lp_dim = CANONICAL_EMBEDDING_DIM\<rparr>"

section \<open>Records\<close>

record DirectoryPublication =
  pub_key :: bytes
  pub_record :: DirectoryRecord
  pub_record_bytes :: bytes

text \<open>\<^verbatim>\<open>r.encode(&mut buf).expect("DirectoryRecord encodes")\<close>\<close>

definition dir_signing_bytes :: "ext \<Rightarrow> DirectoryRecord \<Rightarrow> (bytes, Error) exec" where
  "dir_signing_bytes X record =
     (let r = record\<lparr>dir_signature := []\<rparr> in
      case enc_dir X r of Inl e \<Rightarrow> Panic ''DirectoryRecord encodes'' | Inr b \<Rightarrow> Ok b)"

definition status_string :: "i32 \<Rightarrow> string" where
  "status_string x =
     (if x = agent_status_as_i32 Available then ''available''
      else if x = agent_status_as_i32 Busy then ''busy''
      else if x = agent_status_as_i32 Draining then ''draining''
      else ''offline'')"

definition build_record ::
  "ext \<Rightarrow> CapabilityCard \<Rightarrow> AgentIdentity \<Rightarrow> u64 \<Rightarrow> nat \<times> bytes \<Rightarrow> (DirectoryPublication, Error) exec" where
  "build_record X crd i ttl_ns entry =
     (let table_id = of_nat (fst entry); sig = snd entry;
          key = dht_key X (card_facet_fingerprint crd) CANONICAL_MODEL_ID table_id sig;
          record = \<lparr>dir_capability_id = card_capability_id crd,
                    dir_agent_id = card_agent_id crd,
                    dir_peer_id = pid_to_string X (peer_id X i),
                    dir_facet_fingerprint = card_facet_fingerprint crd,
                    dir_model_id = CANONICAL_MODEL_ID,
                    dir_table_id = table_id,
                    dir_hash_code = sig,
                    dir_status = status_string (card_status crd),
                    dir_ttl_ns = ttl_ns,
                    dir_signature = [],
                    dir_protocol_version = PROTOCOL_VERSION,
                    dir_publisher_public_key = pk_encode X (public_key X i)\<rparr>
      in bind_exec (dir_signing_bytes X record) (\<lambda>signing.
         bind_exec (identity_sign X i signing) (\<lambda>s.
         let signed = record\<lparr>dir_signature := s\<rparr> in
         bind_exec (of_sum Serialize (enc_dir X signed)) (\<lambda>record_bytes.
         Ok \<lparr>pub_key = key, pub_record = signed, pub_record_bytes = record_bytes\<rparr>))))"

definition build_records ::
  "ext \<Rightarrow> CapabilityCard \<Rightarrow> AngularLsh \<Rightarrow> AgentIdentity \<Rightarrow> u64 \<Rightarrow> (DirectoryPublication list, Error) exec" where
  "build_records X crd lsh i ttl_ns =
     bind_exec (ok_or (InvalidCard ''missing embedding'') (card_embedding crd)) (\<lambda>embedding.
     bind_exec (signatures lsh (emb_vector embedding)) (\<lambda>sigs.
     try_map (build_record X crd i ttl_ns) (enumerate 0 sigs)))"

definition lookup_keys ::
  "ext \<Rightarrow> bytes \<Rightarrow> f32 list \<Rightarrow> AngularLsh \<Rightarrow> ((u32 \<times> bytes) list, 'e) exec" where
  "lookup_keys X fp query_vector lsh =
     bind_exec (signatures lsh query_vector) (\<lambda>sigs.
     Ok (map (\<lambda>(table_id, sig). (of_nat table_id, dht_key X fp CANONICAL_MODEL_ID (of_nat table_id) sig))
          (enumerate 0 sigs)))"

definition verify_record :: "ext \<Rightarrow> DirectoryRecord \<Rightarrow> (unit, Error) exec" where
  "verify_record X record =
     bind_exec (ok_or (InvalidCard ''bad peer id in record'') (pid_parse X (dir_peer_id record))) (\<lambda>expected_peer.
     bind_exec (of_sum (\<lambda>e. InvalidCard (''bad publisher key: '' @ e))
         (pk_decode X (dir_publisher_public_key record))) (\<lambda>public.
     if pid_of_key X public \<noteq> expected_peer
     then Err (InvalidCard ''publisher public key does not match peer_id'')
     else bind_exec (dir_signing_bytes X record) (\<lambda>signing.
       identity_verify X public signing (dir_signature record))))"

section \<open>Directory records are sealed messages\<close>

interpretation dir_seal: sealed_message dir_signature "\<lambda>s m. m\<lparr>dir_signature := s\<rparr>" enc_dir dir_signing_bytes
  by unfold_locales (auto simp: dir_signing_bytes_def Let_def split: sum.splits)

section \<open>Lemmas\<close>

lemma key_material_inj:
  assumes "length fp = length fp'"
  shows "key_material fp m t c = key_material fp' m t' c' \<longleftrightarrow> fp = fp' \<and> t = t' \<and> c = c'"
  using assms by (auto simp: key_material_def)

lemma dht_key_inj:
  assumes "length fp = length fp'"
    and "no_collision X (key_material fp m t c) (key_material fp' m t' c')"
  shows "dht_key X fp m t c = dht_key X fp' m t' c' \<longleftrightarrow> fp = fp' \<and> t = t' \<and> c = c'"
  using assms key_material_inj [OF assms(1)] by (auto simp: dht_key_def no_collision_def)

lemma verify_record_Ok_iff:
  "verify_record X r = Ok v \<longleftrightarrow>
     (\<exists>k b. pk_decode X (dir_publisher_public_key r) = Inr k \<and>
        pid_parse X (dir_peer_id r) = Some (pid_of_key X k) \<and>
        dir_signing_bytes X r = Ok b \<and> pk_verify X k b (dir_signature r))"
  by (auto simp: verify_record_def exec_simps split: if_splits)

lemma verify_record_peer:
  "verify_record X r = Ok v \<Longrightarrow> \<exists>p. pid_parse X (dir_peer_id r) = Some p"
  by (auto simp: verify_record_Ok_iff)

lemma verify_record_no_panic:
  "(\<And>m. \<exists>b. enc_dir X m = Inr b) \<Longrightarrow> verify_record X r \<noteq> Panic p"
proof -
  assume "\<And>m. \<exists>b. enc_dir X m = Inr b"
  then obtain e where "\<And>m. enc_dir X m = Inr (e m)" by metis
  then show ?thesis
    by (auto simp: verify_record_def dir_signing_bytes_def exec_simps split: if_splits)
qed

lemma build_record_fields:
  assumes "build_record X crd i ttl (n, sig) = Ok p"
  shows "pub_key p = dht_key X (card_facet_fingerprint crd) CANONICAL_MODEL_ID (of_nat n) sig"
    and "dir_capability_id (pub_record p) = card_capability_id crd"
    and "dir_peer_id (pub_record p) = pid_to_string X (peer_id X i)"
    and "dir_model_id (pub_record p) = CANONICAL_MODEL_ID"
    and "dir_table_id (pub_record p) = of_nat n" and "dir_hash_code (pub_record p) = sig"
    and "dir_facet_fingerprint (pub_record p) = card_facet_fingerprint crd"
    and "dir_ttl_ns (pub_record p) = ttl"
    and "enc_dir X (pub_record p) = Inr (pub_record_bytes p)"
  using assms by (auto simp: build_record_def Let_def exec_simps)

lemma build_record_verifies:
  assumes laws: "sign_law X" "key_law X" "pid_law X" and p: "build_record X crd i ttl en = Ok p"
  shows "verify_record X (pub_record p) = Ok ()"
proof -
  obtain r b s where b: "dir_signing_bytes X r = Ok b" "identity_sign X i b = Ok s"
    and r: "pub_record p = r\<lparr>dir_signature := s\<rparr>"
    and f: "dir_peer_id r = pid_to_string X (peer_id X i)"
      "dir_publisher_public_key r = pk_encode X (public_key X i)"
    using p by (fastforce simp: build_record_def Let_def exec_simps)
  note v = dir_seal.sealed_verifies [OF laws(1) b]
  show ?thesis using laws(2,3) v f unfolding verify_record_Ok_iff r
    by (auto simp: key_law_def pid_law_def peer_id_def public_key_def exec_simps)
qed

lemma nth_enumerate0: "i < length xs \<Longrightarrow> enumerate 0 xs ! i = (i, xs ! i)"
  by (simp add: nth_enumerate_eq)

lemma build_records_nth:
  assumes "build_records X crd lsh i ttl = Ok pubs" "card_embedding crd = Some e"
  obtains sigs where "signatures lsh (emb_vector e) = (Ok sigs :: (bytes list, Error) exec)"
    "length pubs = length sigs"
    "\<And>n. n < length pubs \<Longrightarrow> build_record X crd i ttl (n, sigs ! n) = Ok (pubs ! n)"
proof -
  from assms obtain sigs where s: "signatures lsh (emb_vector e) = (Ok sigs :: (bytes list, Error) exec)"
    and m: "try_map (build_record X crd i ttl) (enumerate 0 sigs) = Ok pubs"
    by (auto simp: build_records_def exec_simps)
  have len: "length pubs = length sigs" using try_map_Ok_length [OF m] by simp
  moreover have "build_record X crd i ttl (n, sigs ! n) = Ok (pubs ! n)" if "n < length pubs" for n
    using try_map_Ok_nth [OF m, of n] that len by (simp add: nth_enumerate0)
  ultimately show ?thesis using that s by blast
qed

lemma build_records_Ok:
  assumes wf: "lsh_wf lsh" and e: "card_embedding crd = Some e"
    and v: "(of_nat (length (emb_vector e)) :: u32) = lp_dim (lsh_params lsh)"
    and tot: "\<And>m. \<exists>b. enc_dir X m = Inr b" "\<And>b. \<exists>s. kp_sign X (keypair i) b = Inr s"
  shows "\<exists>pubs. build_records X crd lsh i ttl = Ok pubs"
proof -
  obtain sigs where "signatures lsh (emb_vector e) = (Ok sigs :: (bytes list, Error) exec)"
    using signatures_Ok [OF wf v, where 'e = Error] by blast
  moreover obtain en sg where "\<And>m. enc_dir X m = Inr (en m)" "\<And>b. kp_sign X (keypair i) b = Inr (sg b)"
    using tot by metis
  then have "\<exists>p. build_record X crd i ttl x = Ok p" for x
    by (simp add: build_record_def Let_def dir_signing_bytes_def identity_sign_def)
  then obtain g where "\<And>x. build_record X crd i ttl x = Ok (g x)" by metis
  ultimately show ?thesis using e try_map_all_Ok [of _ "build_record X crd i ttl" g]
    by (auto simp: build_records_def)
qed

section \<open>Properties\<close>

text \<open>
  C24: publication: for a card with an embedding, \<^verbatim>\<open>build_records\<close> yields one publication per
  LSH table of a well-formed instance, each of whose records passes \<^verbatim>\<open>verify_record\<close>, names the
  card and the publisher, carries the table's signature as hash code and is filed under the
  DHT key of its own table, fingerprint and hash code.
\<close>

theorem build_records_sound:
  assumes "sign_law X" "key_law X" "pid_law X" "lsh_wf lsh"
    and pubs: "build_records X crd lsh i ttl = Ok pubs" and e: "card_embedding crd = Some e"
  shows "length pubs = unat (lp_l (lsh_params lsh)) \<and>
    (\<forall>n<length pubs. let r = pub_record (pubs ! n) in
       verify_record X r = Ok () \<and> dir_table_id r = of_nat n \<and>
       dir_capability_id r = card_capability_id crd \<and> dir_model_id r = CANONICAL_MODEL_ID \<and>
       pid_parse X (dir_peer_id r) = Some (peer_id X i) \<and>
       pub_key (pubs ! n) = dht_key X (dir_facet_fingerprint r) (dir_model_id r) (dir_table_id r) (dir_hash_code r) \<and>
       enc_dir X r = Inr (pub_record_bytes (pubs ! n)))"
proof -
  obtain sigs where s: "signatures lsh (emb_vector e) = (Ok sigs :: (bytes list, Error) exec)"
    and len: "length pubs = length sigs"
    and nth: "\<And>n. n < length pubs \<Longrightarrow> build_record X crd i ttl (n, sigs ! n) = Ok (pubs ! n)"
    using build_records_nth [OF pubs e] by blast
  have "(of_nat (length (emb_vector e)) :: u32) = lp_dim (lsh_params lsh)"
    using s by (auto simp: signatures_def split: if_splits)
  then have "length sigs = unat (lp_l (lsh_params lsh))"
    using signatures_Ok [OF assms(4), of "emb_vector e", where 'e = Error] s by auto
  with len show ?thesis
    using build_record_fields [OF nth] build_record_verifies [OF assms(1-3) nth] assms(3)
    by (simp add: Let_def pid_law_def)
qed

text \<open>
  C23: publication and lookup meet: a query with a fingerprint of the same length looks up,
  in table \<open>n\<close>, the key of the card's publication exactly when the fingerprints are equal and
  the two vectors have the same signature in that table (no hash collision assumed between
  the two keys); in particular the card's own vector finds every publication.
\<close>

theorem lookup_meets_publication:
  assumes "build_records X crd lsh i ttl = Ok pubs" "card_embedding crd = Some e"
    and "signatures lsh (emb_vector e) = (Ok cs :: (bytes list, Error) exec)"
    and "signatures lsh q = (Ok qs :: (bytes list, Error) exec)" "length qs = length cs"
    and "lookup_keys X fp q lsh = (Ok keys :: ((u32 \<times> bytes) list, Error) exec)"
    and "length fp = length (card_facet_fingerprint crd)" "n < length pubs"
    and "no_collision X (key_material fp CANONICAL_MODEL_ID (of_nat n) (qs ! n))
           (key_material (card_facet_fingerprint crd) CANONICAL_MODEL_ID (of_nat n) (cs ! n))"
  shows "length keys = length pubs \<and> fst (keys ! n) = of_nat n \<and>
    (snd (keys ! n) = pub_key (pubs ! n) \<longleftrightarrow> fp = card_facet_fingerprint crd \<and> qs ! n = cs ! n)"
proof -
  obtain sigs where s: "signatures lsh (emb_vector e) = (Ok sigs :: (bytes list, Error) exec)"
    and len: "length pubs = length sigs"
    and nth: "\<And>n. n < length pubs \<Longrightarrow> build_record X crd i ttl (n, sigs ! n) = Ok (pubs ! n)"
    using build_records_nth [OF assms(1,2)] by blast
  have "sigs = cs" using s assms(3) by simp
  then have pub: "pub_key (pubs ! n) =
      dht_key X (card_facet_fingerprint crd) CANONICAL_MODEL_ID (of_nat n) (cs ! n)"
    using build_record_fields(1) [OF nth] assms(8) by simp
  have keys: "keys = map (\<lambda>(t, sig). (of_nat t, dht_key X fp CANONICAL_MODEL_ID (of_nat t) sig)) (enumerate 0 qs)"
    using assms(4,6) by (simp add: lookup_keys_def)
  have n: "n < length qs" using assms(5,8) len \<open>sigs = cs\<close> by simp
  have k: "keys ! n = (of_nat n, dht_key X fp CANONICAL_MODEL_ID (of_nat n) (qs ! n))"
    using n by (simp add: keys nth_enumerate0)
  show ?thesis
    using dht_key_inj [OF assms(7,9)] k pub keys len assms(5) \<open>sigs = cs\<close> by simp
qed

end
