(* ===== verification/Kite_Encoder.thy ===== *)
theory Kite_Encoder
  imports Kite_Proto
begin

text \<open>
  \<^verbatim>\<open>kite-mesh-discovery/src/encoder.rs\<close>: the canonical text encoder around the third-party
  embedding model, the normalisation of its result and the cosine similarity. The model, the
  outcome of the blocking task and the state of the mutex are arguments.
\<close>

section \<open>Operations\<close>

datatype EncoderError =
    Fastembed string
  | Dimension u32 u32
  | Empty
  | TaskJoin string
  | Poisoned

definition l2_normalize :: "f32 list \<Rightarrow> f32 list" where
  "l2_normalize v =
     (let norm = fsqrt binary32 (fsum binary32 (map (\<lambda>x. fmul binary32 x x) v))
      in if f_gt norm (f_zero binary32) then map (\<lambda>x. fdiv binary32 x norm) v else v)"

definition cosine :: "f32 list \<Rightarrow> f32 list \<Rightarrow> (f32, 'e) exec" where
  "cosine a b = (if length a \<noteq> length b then Panic ''cosine: vector length mismatch''
     else Ok (dot a b))"

text \<open>The model is loaded in a blocking task: \<open>join\<close> is the task's failure, if any.\<close>

definition encoder_new :: "string option \<Rightarrow> string + 'm \<Rightarrow> ('m, EncoderError) exec" where
  "encoder_new join load = (case join of Some e \<Rightarrow> Err (TaskJoin e) | None \<Rightarrow> of_sum Fastembed load)"

definition encoder_encode ::
  "string option \<Rightarrow> bool \<Rightarrow> (string list \<Rightarrow> string + f32 list list) \<Rightarrow> string
     \<Rightarrow> (f32 list, EncoderError) exec" where
  "encoder_encode join poisoned run_model txt = (case join of Some e \<Rightarrow> Err (TaskJoin e) | None \<Rightarrow>
     if poisoned then Err Poisoned
     else bind_exec (of_sum Fastembed (run_model [txt])) (\<lambda>vectors.
       case vectors of
         [] \<Rightarrow> Err Empty
       | vector # _ \<Rightarrow>
           if (of_nat (length vector) :: u32) \<noteq> CANONICAL_EMBEDDING_DIM
           then Err (Dimension CANONICAL_EMBEDDING_DIM (of_nat (length vector)))
           else Ok (l2_normalize vector)))"

definition encoder_model_id :: string where
  "encoder_model_id = CANONICAL_MODEL_ID"

definition encoder_dimension :: u32 where
  "encoder_dimension = CANONICAL_EMBEDDING_DIM"

section \<open>Lemmas\<close>

lemma length_l2_normalize [simp]: "length (l2_normalize v) = length v"
  by (simp add: l2_normalize_def Let_def)

lemma cosine_Ok_iff [exec_simps]: "cosine a b = Ok s \<longleftrightarrow> length a = length b \<and> s = dot a b"
  by (auto simp: cosine_def)

lemma cosine_commute: "cosine a b = cosine b a"
  by (simp add: cosine_def dot_commute eq_commute)

lemma l2_normalize_ok: "list_all (flt_ok binary32) v \<Longrightarrow> list_all (flt_ok binary32) (l2_normalize v)"
  by (auto simp: l2_normalize_def Let_def list_all_iff fdiv_closed)

section \<open>Properties\<close>


text \<open>
  C38: cosine similarity is symmetric and, on vectors of equal length below \<open>2\<^sup>24\<close> whose
  components lie in \<open>[-1, 1]\<close>, always a finite number: no rounding or overflow of the 32-bit
  accumulation yields a NaN or an infinity, and its absolute value is at most the length.
\<close>

theorem cosine_finite:
  assumes "length a = length b" "length a < 2 ^ 24"
    and "list_all (f_within 1) a" "list_all (f_within 1) b"
  shows "\<exists>s. cosine a b = (Ok s :: (f32, Error) exec) \<and> cosine b a = (Ok s :: (f32, Error) exec) \<and>
    f_within (real (length a)) s \<and> \<not> is_nan s"
  using dot_within [OF assms(3,4,2)] assms(1)
  by (auto simp: cosine_def dot_commute [of b a] dest: f_within_not_nan)

end
