(* ===== verification/Kite_Rerank.thy ===== *)
theory Kite_Rerank
  imports Kite_Encoder "HOL-Library.Multiset"
begin

text \<open>
  \<^verbatim>\<open>kite-mesh-discovery/src/rerank.rs\<close>: the exact facet filter with its trace, and the rerank
  of candidate cards by cosine similarity. The standard library sorts stably when the
  comparison is a total order on the slice; when it is not, its result is unspecified and it
  may panic. The model keeps both: \<open>sort_by\<close> is a stable insertion sort when the comparison is
  consistent on the list, and the outcome of the parameter \<open>fb\<close> otherwise.
\<close>

section \<open>Facet filter\<close>

record ScoredCandidate =
  sc_card :: CapabilityCard
  sc_score :: f32
  sc_passed_filter :: bool
  sc_filter_trace :: "string list"

definition missing_trace :: "string \<Rightarrow> string list \<Rightarrow> string list \<Rightarrow> string list" where
  "missing_trace label required candidate =
     map (\<lambda>t. label @ t) (filter (\<lambda>t. \<not> list_ex (\<lambda>c. eq_ignore_ascii_case c t) candidate) required)"

definition field_trace :: "string \<times> string \<times> string \<Rightarrow> string list" where
  "field_trace x = (case x of (label, r, c) \<Rightarrow>
     if r \<noteq> '''' \<and> \<not> eq_ignore_ascii_case r c
     then [label @ '' mismatch: need '' @ r @ '', got '' @ c] else [])"

definition facet_filter :: "CapabilityFacets \<Rightarrow> CapabilityFacets \<Rightarrow> bool \<times> string list" where
  "facet_filter required candidate =
     (let trace =
        missing_trace ''missing tool: '' (fa_tools required) (fa_tools candidate) @
        missing_trace ''missing ontology: '' (fa_ontologies required) (fa_ontologies candidate) @
        concat (map field_trace
          [(''sandbox_level'', fa_sandbox_level required, fa_sandbox_level candidate),
           (''network_access'', fa_network_access required, fa_network_access candidate),
           (''gpu_class'', fa_gpu_class required, fa_gpu_class candidate),
           (''privacy_tier'', fa_privacy_tier required, fa_privacy_tier candidate),
           (''region'', fa_region required, fa_region candidate),
           (''pricing_band'', fa_pricing_band required, fa_pricing_band candidate),
           (''trust_tier'', fa_trust_tier required, fa_trust_tier candidate)])
      in (trace = [], trace))"

section \<open>Sorting\<close>

fun ordering_then :: "ordering \<Rightarrow> ordering \<Rightarrow> ordering" where
  "ordering_then Equal b = b"
| "ordering_then Less b = Less"
| "ordering_then Greater b = Greater"

definition bool_cmp :: "bool \<Rightarrow> bool \<Rightarrow> ordering" where
  "bool_cmp a b = (if a = b then Equal else if b then Less else Greater)"

definition scored_cmp :: "ScoredCandidate \<Rightarrow> ScoredCandidate \<Rightarrow> ordering" where
  "scored_cmp a b =
     ordering_then (bool_cmp (sc_passed_filter b) (sc_passed_filter a))
       (case partial_cmp (sc_score b) (sc_score a) of None \<Rightarrow> Equal | Some r \<Rightarrow> r)"

fun reverse_ordering :: "ordering \<Rightarrow> ordering" where
  "reverse_ordering Less = Greater"
| "reverse_ordering Equal = Equal"
| "reverse_ordering Greater = Less"

text \<open>The comparison is a total order on the elements of the list.\<close>

definition cmp_consistent :: "('a \<Rightarrow> 'a \<Rightarrow> ordering) \<Rightarrow> 'a list \<Rightarrow> bool" where
  "cmp_consistent cmp xs \<longleftrightarrow>
     list_all (\<lambda>x. list_all (\<lambda>y. cmp y x = reverse_ordering (cmp x y) \<and>
       list_all (\<lambda>z. cmp x y \<noteq> Greater \<longrightarrow> cmp y z \<noteq> Greater \<longrightarrow> cmp x z \<noteq> Greater) xs) xs) xs"

fun insort_cmp :: "('a \<Rightarrow> 'a \<Rightarrow> ordering) \<Rightarrow> 'a \<Rightarrow> 'a list \<Rightarrow> 'a list" where
  "insort_cmp cmp x [] = [x]"
| "insort_cmp cmp x (y # ys) =
     (if cmp x y = Greater then y # insort_cmp cmp x ys else x # y # ys)"

fun isort_cmp :: "('a \<Rightarrow> 'a \<Rightarrow> ordering) \<Rightarrow> 'a list \<Rightarrow> 'a list" where
  "isort_cmp cmp [] = []"
| "isort_cmp cmp (x # xs) = insort_cmp cmp x (isort_cmp cmp xs)"

definition sort_by ::
  "('a list \<Rightarrow> string + 'a list) \<Rightarrow> ('a \<Rightarrow> 'a \<Rightarrow> ordering) \<Rightarrow> 'a list \<Rightarrow> ('a list, 'e) exec" where
  "sort_by fb cmp xs =
     (if cmp_consistent cmp xs then Ok (isort_cmp cmp xs)
      else case fb xs of Inl p \<Rightarrow> Panic p | Inr ys \<Rightarrow> Ok ys)"

section \<open>Rerank\<close>

definition score_card :: "CapabilityFacets \<Rightarrow> f32 list \<Rightarrow> CapabilityCard \<Rightarrow> (ScoredCandidate, 'e) exec" where
  "score_card required query_vector crd =
     (let (passed, trace) = (case card_facets crd of
            Some f \<Rightarrow> facet_filter required f
          | None \<Rightarrow> (False, [''missing facets on candidate card'']))
      in bind_exec (case card_embedding crd of
            Some e \<Rightarrow> cosine query_vector (emb_vector e)
          | None \<Rightarrow> Ok (FInf True)) (\<lambda>score.
         Ok \<lparr>sc_card = crd, sc_score = score, sc_passed_filter = passed, sc_filter_trace = trace\<rparr>))"

definition rerank ::
  "(ScoredCandidate list \<Rightarrow> string + ScoredCandidate list) \<Rightarrow> CapabilityFacets \<Rightarrow> f32 list
     \<Rightarrow> CapabilityCard list \<Rightarrow> (ScoredCandidate list, 'e) exec" where
  "rerank fb required query_vector candidates =
     bind_exec (try_map (score_card required query_vector) candidates) (\<lambda>scored.
     sort_by fb scored_cmp scored)"

section \<open>Specification of the filter\<close>

definition covers :: "string list \<Rightarrow> string list \<Rightarrow> bool" where
  "covers candidate required \<longleftrightarrow> (\<forall>t\<in>set required. \<exists>c\<in>set candidate. eq_ignore_ascii_case c t)"

definition field_ok :: "string \<Rightarrow> string \<Rightarrow> bool" where
  "field_ok r c \<longleftrightarrow> r = '''' \<or> eq_ignore_ascii_case r c"

definition facets_match :: "CapabilityFacets \<Rightarrow> CapabilityFacets \<Rightarrow> bool" where
  "facets_match required candidate \<longleftrightarrow>
     covers (fa_tools candidate) (fa_tools required) \<and>
     covers (fa_ontologies candidate) (fa_ontologies required) \<and>
     field_ok (fa_sandbox_level required) (fa_sandbox_level candidate) \<and>
     field_ok (fa_network_access required) (fa_network_access candidate) \<and>
     field_ok (fa_gpu_class required) (fa_gpu_class candidate) \<and>
     field_ok (fa_privacy_tier required) (fa_privacy_tier candidate) \<and>
     field_ok (fa_region required) (fa_region candidate) \<and>
     field_ok (fa_pricing_band required) (fa_pricing_band candidate) \<and>
     field_ok (fa_trust_tier required) (fa_trust_tier candidate)"

text \<open>The candidates as \<open>rerank\<close> scores them, when no score is a NaN.\<close>

definition rankable :: "f32 list \<Rightarrow> CapabilityCard list \<Rightarrow> bool" where
  "rankable q cs \<longleftrightarrow> (\<forall>c\<in>set cs. \<forall>e. card_embedding c = Some e \<longrightarrow>
     length (emb_vector e) = length q \<and> \<not> is_nan (dot q (emb_vector e)))"

section \<open>The contract of stable sorting\<close>

text \<open>
  A comparison that is a total preorder on a set: the law the sort relies on. Everything
  about the sorted list is proved once from it.
\<close>

locale total_cmp =
  fixes cmp :: "'a \<Rightarrow> 'a \<Rightarrow> ordering" and A :: "'a set"
  assumes cmp_rev: "x \<in> A \<Longrightarrow> y \<in> A \<Longrightarrow> cmp y x = reverse_ordering (cmp x y)"
    and cmp_trans: "x \<in> A \<Longrightarrow> y \<in> A \<Longrightarrow> z \<in> A \<Longrightarrow>
      cmp x y \<noteq> Greater \<Longrightarrow> cmp y z \<noteq> Greater \<Longrightarrow> cmp x z \<noteq> Greater"
begin

lemma consistent:
  assumes "set xs \<subseteq> A"
  shows "cmp_consistent cmp xs"
  unfolding cmp_consistent_def list_all_iff
proof (intro ballI conjI impI)
  fix x y
  assume xy: "x \<in> set xs" "y \<in> set xs"
  then show "cmp y x = reverse_ordering (cmp x y)" using assms by (intro cmp_rev) auto
  fix z
  assume "z \<in> set xs" "cmp x y \<noteq> Greater" "cmp y z \<noteq> Greater"
  with xy assms show "cmp x z \<noteq> Greater" by (intro cmp_trans [of x y z]) auto
qed

lemma greater_rev: "x \<in> A \<Longrightarrow> y \<in> A \<Longrightarrow> cmp x y = Greater \<Longrightarrow> cmp y x \<noteq> Greater"
  using cmp_rev [of x y] by simp

lemma set_insort: "set (insort_cmp cmp x ys) = insert x (set ys)"
  by (induction ys) auto

lemma sorted_insort:
  "x \<in> A \<Longrightarrow> set ys \<subseteq> A \<Longrightarrow> sorted_wrt (\<lambda>a b. cmp a b \<noteq> Greater) ys \<Longrightarrow>
   sorted_wrt (\<lambda>a b. cmp a b \<noteq> Greater) (insort_cmp cmp x ys)"
proof (induction ys)
  case (Cons y ys)
  show ?case
  proof (cases "cmp x y = Greater")
    case True
    then have "cmp y x \<noteq> Greater" using greater_rev Cons.prems by simp
    then show ?thesis using True Cons by (auto simp: set_insort)
  next
    case False
    then have "\<forall>z\<in>set ys. cmp x z \<noteq> Greater"
      using Cons.prems cmp_trans [of x y] by auto
    then show ?thesis using False Cons.prems by auto
  qed
qed simp

lemma set_isort: "set (isort_cmp cmp xs) = set xs"
  by (induction xs) (auto simp: set_insort)

lemma sorted_isort:
  "set xs \<subseteq> A \<Longrightarrow> sorted_wrt (\<lambda>a b. cmp a b \<noteq> Greater) (isort_cmp cmp xs)"
  by (induction xs) (auto simp: sorted_insort set_isort)

text \<open>The first element satisfying a predicate is minimal among those that satisfy it.\<close>

lemma find_isort_minimal:
  assumes "set xs \<subseteq> A" "find P (isort_cmp cmp xs) = Some x" "y \<in> set xs" "P y"
  shows "cmp x y \<noteq> Greater"
proof -
  obtain i where i: "i < length (isort_cmp cmp xs)" "x = isort_cmp cmp xs ! i"
    "\<And>j. j < i \<Longrightarrow> \<not> P (isort_cmp cmp xs ! j)"
    using assms(2) by (auto simp: find_Some_iff)
  obtain j where j: "j < length (isort_cmp cmp xs)" "y = isort_cmp cmp xs ! j"
    using assms(3) set_isort by (metis in_set_conv_nth)
  have "i \<le> j" using i(3) j assms(4) not_le_imp_less by blast
  then show ?thesis
  proof (cases "i = j")
    case True
    then show ?thesis using i j cmp_rev [of x x] assms(1,3) by (cases "cmp x x") auto
  next
    case False
    then show ?thesis
      using sorted_wrt_nth_less [OF sorted_isort [OF assms(1)], of i j] \<open>i \<le> j\<close> i j by simp
  qed
qed

end

section \<open>Scores without NaN are totally ordered\<close>

interpretation scored: total_cmp scored_cmp "{c. \<not> is_nan (sc_score c)}"
proof
  fix x y z :: ScoredCandidate
  assume "x \<in> {c. \<not> is_nan (sc_score c)}" "y \<in> {c. \<not> is_nan (sc_score c)}"
  then have n: "\<not> is_nan (sc_score x)" "\<not> is_nan (sc_score y)" by auto
  show "scored_cmp y x = reverse_ordering (scored_cmp x y)"
    by (auto simp: scored_cmp_def bool_cmp_def partial_cmp_spec [OF n] partial_cmp_spec [OF n(2,1)])
  assume "z \<in> {c. \<not> is_nan (sc_score c)}"
  then have m: "\<not> is_nan (sc_score z)" by simp
  assume "scored_cmp x y \<noteq> Greater" "scored_cmp y z \<noteq> Greater"
  then show "scored_cmp x z \<noteq> Greater"
    by (auto simp: scored_cmp_def bool_cmp_def partial_cmp_spec [OF n(2,1)]
        partial_cmp_spec [OF m n(2)] partial_cmp_spec [OF m n(1)] split: if_splits)
qed

section \<open>Lemmas\<close>

lemma mset_insort_cmp: "mset (insort_cmp cmp x ys) = add_mset x (mset ys)"
  by (induction ys) auto

lemma mset_isort_cmp: "mset (isort_cmp cmp xs) = mset xs"
  by (induction xs) (simp_all add: mset_insort_cmp)

lemma cmp_consistent_trans:
  assumes "cmp_consistent cmp xs" "x \<in> set xs" "y \<in> set xs" "z \<in> set xs"
    and "cmp x y \<noteq> Greater" "cmp y z \<noteq> Greater"
  shows "cmp x z \<noteq> Greater"
  using assms unfolding cmp_consistent_def list_all_iff by blast

lemma missing_trace_empty: "missing_trace l r c = [] \<longleftrightarrow> covers c r"
  by (auto simp: missing_trace_def covers_def filter_empty_conv list_ex_iff)

lemma field_trace_empty: "field_trace (l, r, c) = [] \<longleftrightarrow> field_ok r c"
  by (auto simp: field_trace_def field_ok_def)

lemma facet_filter_match: "fst (facet_filter r c) \<longleftrightarrow> facets_match r c"
  by (auto simp: facet_filter_def Let_def missing_trace_empty field_trace_empty facets_match_def)

lemma facet_filter_trace: "fst (facet_filter r c) \<longleftrightarrow> snd (facet_filter r c) = []"
  by (simp add: facet_filter_def Let_def)

lemma score_card_Ok:
  assumes "score_card r q c = Ok s"
  shows "sc_card s = c" and "sc_passed_filter s \<longleftrightarrow> (\<exists>f. card_facets c = Some f \<and> facets_match r f)"
    and "\<And>e. card_embedding c = Some e \<Longrightarrow> sc_score s = dot q (emb_vector e)"
  using assms
  by (auto simp: score_card_def exec_simps facet_filter_match [symmetric] split: option.splits prod.splits)

lemma score_card_defined:
  assumes "\<And>e. card_embedding c = Some e \<Longrightarrow> length (emb_vector e) = length q"
  shows "\<exists>s. score_card r q c = (Ok s :: (ScoredCandidate, 'e) exec)"
  using assms by (cases "card_embedding c")
    (auto simp: score_card_def cosine_def split: prod.splits)

lemma score_card_not_nan:
  assumes "rankable q cs" "c \<in> set cs" "score_card r q c = Ok s"
  shows "\<not> is_nan (sc_score s)"
  using assms by (cases "card_embedding c")
    (auto simp: rankable_def score_card_def exec_simps split: prod.splits)

lemma try_map_score:
  assumes "rankable q cs"
  shows "\<exists>ss. try_map (score_card r q) cs = (Ok ss :: (ScoredCandidate list, 'e) exec) \<and>
    map sc_card ss = cs \<and> (\<forall>s\<in>set ss. \<not> is_nan (sc_score s)) \<and>
    (\<forall>s\<in>set ss. score_card r q (sc_card s) = (Ok s :: (ScoredCandidate, 'e) exec))"
  using assms
proof (induction cs)
  case (Cons c cs)
  have "rankable q cs" using Cons.prems by (simp add: rankable_def)
  then obtain ss where ss: "try_map (score_card r q) cs = (Ok ss :: (ScoredCandidate list, 'e) exec)"
    "map sc_card ss = cs" "\<forall>s\<in>set ss. \<not> is_nan (sc_score s)"
    "\<forall>s\<in>set ss. score_card r q (sc_card s) = (Ok s :: (ScoredCandidate, 'e) exec)"
    using Cons.IH by blast
  obtain s where s: "score_card r q c = (Ok s :: (ScoredCandidate, 'e) exec)"
    using score_card_defined [of c q r, where 'e = 'e] Cons.prems by (auto simp: rankable_def)
  have "sc_card s = c" "\<not> is_nan (sc_score s)"
    using score_card_Ok(1) [OF s] score_card_not_nan [OF Cons.prems _ s] by auto
  with s ss show ?case by (intro exI [of _ "s # ss"]) simp
qed simp

lemma rerank_Ok:
  assumes "rankable q cs"
  obtains ss where "try_map (score_card r q) cs = (Ok ss :: (ScoredCandidate list, 'e) exec)"
    "map sc_card ss = cs" "set ss \<subseteq> {c. \<not> is_nan (sc_score c)}"
    "\<forall>s\<in>set ss. score_card r q (sc_card s) = (Ok s :: (ScoredCandidate, 'e) exec)"
    "rerank fb r q cs = (Ok (isort_cmp scored_cmp ss) :: (ScoredCandidate list, 'e) exec)"
proof -
  obtain ss where ss: "try_map (score_card r q) cs = (Ok ss :: (ScoredCandidate list, 'e) exec)"
    "map sc_card ss = cs" "\<forall>s\<in>set ss. \<not> is_nan (sc_score s)"
    "\<forall>s\<in>set ss. score_card r q (sc_card s) = (Ok s :: (ScoredCandidate, 'e) exec)"
    using try_map_score [OF assms] by blast
  then have "set ss \<subseteq> {c. \<not> is_nan (sc_score c)}" by auto
  moreover from scored.consistent [OF this] ss
  have "rerank fb r q cs = (Ok (isort_cmp scored_cmp ss) :: (ScoredCandidate list, 'e) exec)"
    by (simp add: rerank_def sort_by_def)
  ultimately show ?thesis using ss that by blast
qed

lemma scored_cmp_not_greater:
  "scored_cmp a b \<noteq> Greater \<Longrightarrow> (sc_passed_filter b \<longrightarrow> sc_passed_filter a) \<and>
     (sc_passed_filter a = sc_passed_filter b \<longrightarrow> partial_cmp (sc_score b) (sc_score a) \<noteq> Some Greater)"
  by (auto simp: scored_cmp_def bool_cmp_def split: if_splits)

text \<open>
  The choice of the event loop is the best one: the first reranked candidate that passed
  the filter is a candidate whose facets match the requirement and no matching candidate has a
  strictly greater cosine; there is no such candidate exactly when none matches.
\<close>

lemma rerank_choice:
  assumes "rankable q cs" "rerank fb r q cs = (Ok ys :: (ScoredCandidate list, 'e) exec)"
  shows "(find sc_passed_filter ys = None \<longleftrightarrow>
      (\<forall>c\<in>set cs. \<forall>f. card_facets c = Some f \<longrightarrow> \<not> facets_match r f)) \<and>
    (\<forall>top. find sc_passed_filter ys = Some top \<longrightarrow>
      sc_card top \<in> set cs \<and> (\<exists>f. card_facets (sc_card top) = Some f \<and> facets_match r f) \<and>
      (\<forall>c\<in>set cs. \<forall>f e. card_facets c = Some f \<longrightarrow> facets_match r f \<longrightarrow> card_embedding c = Some e \<longrightarrow>
         partial_cmp (dot q (emb_vector e)) (sc_score top) \<noteq> Some Greater))"
proof -
  obtain ss where "try_map (score_card r q) cs = (Ok ss :: (ScoredCandidate list, 'e) exec)"
    and map: "map sc_card ss = cs" and nn: "set ss \<subseteq> {c. \<not> is_nan (sc_score c)}"
    and sc: "\<forall>s\<in>set ss. score_card r q (sc_card s) = (Ok s :: (ScoredCandidate, 'e) exec)"
    and eq: "rerank fb r q cs = (Ok (isort_cmp scored_cmp ss) :: (ScoredCandidate list, 'e) exec)"
    by (rule rerank_Ok [OF assms(1)])
  have ys: "ys = isort_cmp scored_cmp ss" using eq assms(2) by simp
  have set_ys: "set ys = set ss" by (simp add: ys scored.set_isort)
  have pass: "sc_passed_filter s \<longleftrightarrow> (\<exists>f. card_facets (sc_card s) = Some f \<and> facets_match r f)"
    if "s \<in> set ss" for s using score_card_Ok(2) sc that by blast
  have cs: "\<exists>s\<in>set ss. sc_card s = c" if "c \<in> set cs" for c using that map by auto
  have none: "find sc_passed_filter ys = None \<longleftrightarrow>
      (\<forall>c\<in>set cs. \<forall>f. card_facets c = Some f \<longrightarrow> \<not> facets_match r f)"
  proof -
    have "find sc_passed_filter ys = None \<longleftrightarrow> (\<forall>s\<in>set ss. \<not> sc_passed_filter s)"
      by (auto simp: find_None_iff set_ys)
    also have "\<dots> \<longleftrightarrow> (\<forall>s\<in>set ss. \<forall>f. card_facets (sc_card s) = Some f \<longrightarrow> \<not> facets_match r f)"
      using pass by blast
    finally show ?thesis by (simp add: map [symmetric])
  qed
  have best: "partial_cmp (dot q (emb_vector e)) (sc_score top) \<noteq> Some Greater"
    if top: "find sc_passed_filter ys = Some top" and c: "c \<in> set cs" "card_facets c = Some f"
      "facets_match r f" "card_embedding c = Some e" for top c f e
  proof -
    obtain s where s: "s \<in> set ss" "sc_card s = c" using cs c(1) by blast
    have "sc_passed_filter s" using pass s c by auto
    then have "scored_cmp top s \<noteq> Greater"
      using scored.find_isort_minimal [OF nn] top s(1) ys by blast
    moreover have "sc_passed_filter top" using top by (auto simp: find_Some_iff)
    moreover have "sc_score s = dot q (emb_vector e)" using score_card_Ok(3) sc s c(4) by blast
    ultimately show ?thesis using scored_cmp_not_greater \<open>sc_passed_filter s\<close> by metis
  qed
  have mem: "top \<in> set ss \<and> sc_passed_filter top" if "find sc_passed_filter ys = Some top" for top
    using that set_ys by (auto simp: find_Some_iff)
  show ?thesis using none best mem pass map by fastforce
qed

section \<open>Properties\<close>

text \<open>
  C29: the facet filter is exact: it passes a candidate precisely when every required tool and
  ontology occurs in the candidate up to ASCII case and every non-empty required field equals
  the candidate's up to ASCII case; and the trace it returns is empty precisely then.
\<close>

theorem facet_filter_exact:
  "fst (facet_filter r c) = facets_match r c \<and> (snd (facet_filter r c) = [] \<longleftrightarrow> facets_match r c)"
  using facet_filter_match [of r c] facet_filter_trace [of r c] by simp


text \<open>
  C28: a NaN score breaks the comparison: it compares equal to every score, so a list with a
  NaN between two different scores is not consistently ordered and the outcome of the sort is
  whatever the standard library does on such input.
\<close>

theorem nan_score_inconsistent:
  assumes "is_nan (sc_score n)" "sc_passed_filter a" "sc_passed_filter b" "sc_passed_filter n"
    and "partial_cmp (sc_score b) (sc_score a) = Some Greater"
    and "{a, b, n} \<subseteq> set xs"
  shows "sort_by fb scored_cmp xs = (case fb xs of Inl p \<Rightarrow> Panic p | Inr ys \<Rightarrow> Ok ys)"
proof -
  have "scored_cmp a n = Equal" "scored_cmp n b = Equal"
    using assms(1-4) by (simp_all add: scored_cmp_def bool_cmp_def partial_cmp_None_iff [THEN iffD2])
  moreover have "scored_cmp a b = Greater" using assms(2,3,5) by (simp add: scored_cmp_def bool_cmp_def)
  ultimately have "\<not> cmp_consistent scored_cmp xs"
    using assms(6) cmp_consistent_trans [of scored_cmp xs a n b] by auto
  then show ?thesis by (simp add: sort_by_def)
qed

end
