(* ===== verification/Kite_Codec.thy ===== *)
theory Kite_Codec
  imports Kite_Proto
begin

text \<open>
  \<^verbatim>\<open>kite-mesh-transport/src/codec.rs\<close>: length-prefixed framing of prost messages with a hard
  cap, and the two request-response codecs over it. A readable stream is the bytes it will
  deliver and how it ends, regularly or with an error of the transport; a writable one collects
  what was written, with the error its next write or flush returns, if any. The prost operations of a message type (\<^verbatim>\<open>encoded_len\<close>,
  \<^verbatim>\<open>encode\<close>, \<^verbatim>\<open>decode\<close>) are the fields of a \<open>wire\<close> record.
\<close>

section \<open>Streams and wire operations\<close>

datatype IoError = UnexpectedEof | InvalidData string | Other string

record 'm wire =
  w_len :: "'m \<Rightarrow> nat"
  w_enc :: "'m \<Rightarrow> string + bytes"
  w_dec :: "bytes \<Rightarrow> string + 'm"

text \<open>
  The sink of a writer: what it has accepted, the error of the next \<^verbatim>\<open>write_all\<close> with the number of
  bytes accepted before it, and the error of the next \<^verbatim>\<open>flush\<close>.
\<close>

record Sink =
  sink_written :: bytes
  sink_write_error :: "(nat \<times> string) option"
  sink_flush_error :: "string option"

text \<open>
  The source of a reader: the bytes it delivers and, when these are used up, the error it
  reports, or \<open>None\<close> for the regular end of the stream.
\<close>

record Source =
  src_bytes :: bytes
  src_end :: "string option"

definition end_error :: "string option \<Rightarrow> IoError" where
  "end_error e = (case e of Some x \<Rightarrow> Other x | None \<Rightarrow> UnexpectedEof)"

text \<open>A source that delivers some bytes ahead of another.\<close>

definition ahead :: "bytes \<Rightarrow> Source \<Rightarrow> Source" where
  "ahead b io = io\<lparr>src_bytes := b @ src_bytes io\<rparr>"

definition ACL_PROTOCOL :: string where
  "ACL_PROTOCOL = ''/kite-mesh/acl/1.0.0''"

definition CARD_PROTOCOL :: string where
  "CARD_PROTOCOL = ''/kite-mesh/card/1.0.0''"

definition MAX_MESSAGE_BYTES :: nat where
  "MAX_MESSAGE_BYTES = 2 ^ 20"

text \<open>\<^verbatim>\<open>read_exact\<close> of \<open>n\<close> bytes: what was read and what the stream still holds.\<close>

definition read_exact :: "nat \<Rightarrow> Source \<Rightarrow> (bytes \<times> Source, IoError) exec" where
  "read_exact n io =
     (if length (src_bytes io) < n then Err (end_error (src_end io))
      else Ok (take n (src_bytes io), io\<lparr>src_bytes := drop n (src_bytes io)\<rparr>))"

section \<open>Framing\<close>

definition read_framed :: "'m wire \<Rightarrow> Source \<Rightarrow> ('m \<times> Source, IoError) exec" where
  "read_framed w io =
     bind_exec (read_exact 4 io) (\<lambda>(len_buf, io1).
     let len = unat (from_be_bytes len_buf) in
     if len > MAX_MESSAGE_BYTES then Err (InvalidData ''message too large'')
     else bind_exec (read_exact len io1) (\<lambda>(buf, io2).
       bind_exec (of_sum InvalidData (w_dec w buf)) (\<lambda>m. Ok (m, io2))))"

definition write_framed :: "'m wire \<Rightarrow> 'm \<Rightarrow> Sink \<Rightarrow> (unit, IoError) exec \<times> Sink" where
  "write_framed w msg io =
     (let len = w_len w msg in
      if len > MAX_MESSAGE_BYTES then (Err (InvalidData ''message too large''), io)
      else case w_enc w msg of
        Inl e \<Rightarrow> (Err (Other e), io)
      | Inr body \<Rightarrow>
          (let buf = to_be_bytes (of_nat len) @ body in
           case sink_write_error io of
             Some (n, e) \<Rightarrow> (Err (Other e), io\<lparr>sink_written := sink_written io @ take n buf\<rparr>)
           | None \<Rightarrow> (let io1 = io\<lparr>sink_written := sink_written io @ buf\<rparr> in
               case sink_flush_error io of
                 Some e \<Rightarrow> (Err (Other e), io1)
               | None \<Rightarrow> (Ok (), io1))))"

section \<open>The codecs\<close>

record CardRequest =
  cr_capability_id :: string

datatype CardResponse = Found CapabilityCard | NotFound

record CardRequestProto =
  crp_capability_id :: string

record CardResponseProto =
  crp_card :: "CapabilityCard option"

definition acl_read_request :: "AclMessage wire \<Rightarrow> Source \<Rightarrow> (AclMessage \<times> Source, IoError) exec" where
  "acl_read_request w io = read_framed w io"

definition acl_read_response :: "AclMessage wire \<Rightarrow> Source \<Rightarrow> (AclMessage \<times> Source, IoError) exec" where
  "acl_read_response w io = read_framed w io"

definition acl_write_request :: "AclMessage wire \<Rightarrow> AclMessage \<Rightarrow> Sink \<Rightarrow> (unit, IoError) exec \<times> Sink" where
  "acl_write_request w req io = write_framed w req io"

definition acl_write_response :: "AclMessage wire \<Rightarrow> AclMessage \<Rightarrow> Sink \<Rightarrow> (unit, IoError) exec \<times> Sink" where
  "acl_write_response w res io = write_framed w res io"

definition card_read_request :: "CardRequestProto wire \<Rightarrow> Source \<Rightarrow> (CardRequest \<times> Source, IoError) exec" where
  "card_read_request w io =
     bind_exec (read_framed w io) (\<lambda>(body, rest). Ok (\<lparr>cr_capability_id = crp_capability_id body\<rparr>, rest))"

definition card_read_response :: "CardResponseProto wire \<Rightarrow> Source \<Rightarrow> (CardResponse \<times> Source, IoError) exec" where
  "card_read_response w io =
     bind_exec (read_framed w io) (\<lambda>(body, rest).
       Ok (case crp_card body of Some c \<Rightarrow> Found c | None \<Rightarrow> NotFound, rest))"

definition card_write_request ::
  "CardRequestProto wire \<Rightarrow> CardRequest \<Rightarrow> Sink \<Rightarrow> (unit, IoError) exec \<times> Sink" where
  "card_write_request w req io = write_framed w \<lparr>crp_capability_id = cr_capability_id req\<rparr> io"

definition card_write_response ::
  "CardResponseProto wire \<Rightarrow> CardResponse \<Rightarrow> Sink \<Rightarrow> (unit, IoError) exec \<times> Sink" where
  "card_write_response w res io =
     (let crd = (case res of Found c \<Rightarrow> Some c | NotFound \<Rightarrow> None)
      in write_framed w \<lparr>crp_card = crd\<rparr> io)"

section \<open>The contract of a wire type\<close>

text \<open>Prost: the announced length is that of the encoding, and decoding inverts it.\<close>

definition wire_law :: "'m wire \<Rightarrow> 'm \<Rightarrow> bool" where
  "wire_law w m \<longleftrightarrow> (\<forall>b. w_enc w m = Inr b \<longrightarrow> length b = w_len w m \<and> w_dec w b = Inr m)"

text \<open>
  A codec of a request-response protocol: a writer and a reader of the same type. The laws a
  peer relies on: what the writer put on the stream, the reader returns, leaving the rest, and
  from a part of it the reader returns nothing but the error with which the stream ends.
\<close>

definition frame_of :: "('w \<Rightarrow> Source \<Rightarrow> ('m \<times> Source, IoError) exec) \<Rightarrow> 'w \<Rightarrow> 'm \<Rightarrow> bytes \<Rightarrow> bool" where
  "frame_of get_msg w m frame \<longleftrightarrow> 4 \<le> length frame \<and> length frame \<le> 4 + MAX_MESSAGE_BYTES \<and>
     (\<forall>io. get_msg w (ahead frame io) = Ok (m, io)) \<and>
     (\<forall>k e. k < length frame \<longrightarrow> get_msg w \<lparr>src_bytes = take k frame, src_end = e\<rparr> = Err (end_error e))"

lemma all_source: "(\<forall>io. P io) \<longleftrightarrow> (\<forall>b e. P \<lparr>src_bytes = b, src_end = e\<rparr>)"
  by (metis Source.cases)

locale stream_codec =
  fixes put_msg :: "'w \<Rightarrow> 'm \<Rightarrow> Sink \<Rightarrow> (unit, IoError) exec \<times> Sink"
    and get_msg :: "'w \<Rightarrow> Source \<Rightarrow> ('m \<times> Source, IoError) exec"
    and lawful :: "'w \<Rightarrow> 'm \<Rightarrow> bool"
  assumes writes: "lawful w m \<Longrightarrow> put_msg w m io = (r, io') \<Longrightarrow>
      \<exists>part. sink_written io' = sink_written io @ part \<and> (part = [] \<and> r \<noteq> Ok () \<or>
        (\<exists>frame k. frame_of get_msg w m frame \<and> part = take k frame \<and> (r = Ok () \<longrightarrow> part = frame)))"
    and at_end: "get_msg w \<lparr>src_bytes = [], src_end = e\<rparr> = Err (end_error e)"
begin

lemma round_trip:
  assumes "lawful w m" "put_msg w m io = (Ok (), io')"
  shows "\<exists>frame. sink_written io' = sink_written io @ frame \<and> frame_of get_msg w m frame"
  using writes [OF assms] by auto

text \<open>Two messages written one after the other are read back in order.\<close>

lemma round_trip_two:
  assumes "lawful w m" "lawful w n" "put_msg w m io = (Ok (), io1)" "put_msg w n io1 = (Ok (), io2)"
  shows "\<exists>frames. sink_written io2 = sink_written io @ frames \<and>
    (\<forall>src. bind_exec (get_msg w (ahead frames src)) (\<lambda>(a, r). bind_exec (get_msg w r) (\<lambda>(b, r'). Ok (a, b, r'))) =
       Ok (m, n, src))"
proof -
  obtain f g where f: "sink_written io1 = sink_written io @ f" "\<And>src. get_msg w (ahead f src) = Ok (m, src)"
    and g: "sink_written io2 = sink_written io1 @ g" "\<And>src. get_msg w (ahead g src) = Ok (n, src)"
    using round_trip [OF assms(1,3)] round_trip [OF assms(2,4)] unfolding frame_of_def by blast
  have "get_msg w (ahead (f @ g) src) = Ok (m, ahead g src)" for src
    using f(2) [of "ahead g src"] by (simp add: ahead_def)
  then show ?thesis using f g by (intro exI [of _ "f @ g"]) simp
qed

text \<open>
  Whatever the writer reports, the reader of what was written returns the message itself or the
  error with which the stream ends, and the message when the writer succeeded.
\<close>

lemma message_or_error:
  assumes "lawful w m" "put_msg w m io = (r, io')"
  shows "\<exists>part. sink_written io' = sink_written io @ part \<and>
    (\<forall>e. get_msg w \<lparr>src_bytes = part, src_end = e\<rparr> = Ok (m, \<lparr>src_bytes = [], src_end = e\<rparr>) \<or>
       r \<noteq> Ok () \<and> get_msg w \<lparr>src_bytes = part, src_end = e\<rparr> = Err (end_error e))"
proof -
  obtain part where part: "sink_written io' = sink_written io @ part" "part = [] \<and> r \<noteq> Ok () \<or>
      (\<exists>frame k. frame_of get_msg w m frame \<and> part = take k frame \<and> (r = Ok () \<longrightarrow> part = frame))"
    using writes [OF assms] by blast
  have "get_msg w \<lparr>src_bytes = part, src_end = e\<rparr> = Ok (m, \<lparr>src_bytes = [], src_end = e\<rparr>) \<or>
       r \<noteq> Ok () \<and> get_msg w \<lparr>src_bytes = part, src_end = e\<rparr> = Err (end_error e)" for e
    using part(2)
  proof (elim disjE exE conjE)
    fix frame k
    assume f: "frame_of get_msg w m frame" "part = take k frame" "r = Ok () \<longrightarrow> part = frame"
    have "get_msg w \<lparr>src_bytes = frame, src_end = e\<rparr> = Ok (m, \<lparr>src_bytes = [], src_end = e\<rparr>)"
      using f(1) unfolding frame_of_def ahead_def all_source by (metis append_Nil2 Source.select_convs(1) Source.update_convs(1))
    then show ?thesis using f unfolding frame_of_def by (cases "k < length frame") auto
  qed (simp add: at_end)
  then show ?thesis using part(1) by blast
qed

end

section \<open>Framing is a codec\<close>

lemma unat_frame_len: "n \<le> MAX_MESSAGE_BYTES \<Longrightarrow> unat (of_nat n :: u32) = n"
  by (simp add: unat_of_nat MAX_MESSAGE_BYTES_def)

lemma read_framed_end: "read_framed w \<lparr>src_bytes = [], src_end = e\<rparr> = Err (end_error e)"
  by (simp add: read_framed_def read_exact_def)

lemma framed_is_frame:
  assumes "wire_law w m" "w_enc w m = Inr b" "w_len w m \<le> MAX_MESSAGE_BYTES"
  shows "frame_of read_framed w m (to_be_bytes (of_nat (w_len w m)) @ b)"
proof -
  have b: "length b = w_len w m" "w_dec w b = Inr m" using assms by (auto simp: wire_law_def)
  have cut: "read_framed w \<lparr>src_bytes = take k (to_be_bytes (of_nat (w_len w m)) @ b), src_end = e\<rparr> = Err (end_error e)"
    if "k < 4 + w_len w m" for k e
    using that b(1) assms(3) by (cases "k < 4") (auto simp: read_framed_def read_exact_def Let_def unat_frame_len)
  show ?thesis using b assms(3) cut
    by (simp add: frame_of_def ahead_def read_framed_def read_exact_def Let_def unat_frame_len)
qed

lemma framed_writes:
  assumes "wire_law w m" "write_framed w m io = (r, io')"
  shows "\<exists>part. sink_written io' = sink_written io @ part \<and> (part = [] \<and> r \<noteq> Ok () \<or>
        (\<exists>frame k. frame_of read_framed w m frame \<and> part = take k frame \<and> (r = Ok () \<longrightarrow> part = frame)))"
proof (cases "w_len w m \<le> MAX_MESSAGE_BYTES \<and> (\<exists>b. w_enc w m = Inr b)")
  case True
  then obtain b where b: "w_len w m \<le> MAX_MESSAGE_BYTES" "w_enc w m = Inr b" by blast
  let ?frame = "to_be_bytes (of_nat (w_len w m)) @ b"
  obtain k where "sink_written io' = sink_written io @ take k ?frame" "r = Ok () \<longrightarrow> take k ?frame = ?frame"
    using assms(2) b that [of "length ?frame"]
    by (auto simp: write_framed_def Let_def split: option.splits)
  then show ?thesis using framed_is_frame [OF assms(1) b(2,1)] by blast
next
  case False
  then show ?thesis using assms(2) by (auto simp: write_framed_def Let_def split: if_splits sum.splits)
qed

text \<open>All four codecs frame a translated message and translate back what they read.\<close>

lemma framed_codec:
  assumes "\<And>m. f (g m) = m" "\<And>w m io. put_msg w m io = write_framed w (g m) io"
    and "\<And>w io. get_msg w io = bind_exec (read_framed w io) (\<lambda>(body, rest). Ok (f body, rest))"
  shows "stream_codec put_msg get_msg (\<lambda>w m. wire_law w (g m))"
proof
  have frame: "frame_of get_msg w m frame" if "frame_of read_framed w (g m) frame" for w m frame
    using that unfolding frame_of_def assms(3) by (simp add: assms(1))
  show "\<exists>part. sink_written io' = sink_written io @ part \<and> (part = [] \<and> r \<noteq> Ok () \<or>
      (\<exists>frame k. frame_of get_msg w m frame \<and> part = take k frame \<and> (r = Ok () \<longrightarrow> part = frame)))"
    if "wire_law w (g m)" "put_msg w m io = (r, io')" for w m io r io'
    using framed_writes [OF that(1) that(2) [unfolded assms(2)]] frame [of w m] by fast
  show "get_msg w \<lparr>src_bytes = [], src_end = e\<rparr> = Err (end_error e)" for w e
    unfolding assms(3) read_framed_end by simp
qed

lemma bind_exec_Ok_id: "bind_exec x Ok = x"
  by (cases x) simp_all

interpretation acl_requests: stream_codec acl_write_request acl_read_request wire_law
  using framed_codec [of "\<lambda>m. m" "\<lambda>m. m" acl_write_request acl_read_request]
  by (simp add: acl_write_request_def acl_read_request_def bind_exec_Ok_id)

interpretation acl_responses: stream_codec acl_write_response acl_read_response wire_law
  using framed_codec [of "\<lambda>m. m" "\<lambda>m. m" acl_write_response acl_read_response]
  by (simp add: acl_write_response_def acl_read_response_def bind_exec_Ok_id)

interpretation card_requests: stream_codec card_write_request card_read_request
  "\<lambda>w r. wire_law w \<lparr>crp_capability_id = cr_capability_id r\<rparr>"
  by (rule framed_codec [where f = "\<lambda>b. \<lparr>cr_capability_id = crp_capability_id b\<rparr>"])
    (simp_all add: card_write_request_def card_read_request_def)

interpretation card_responses: stream_codec card_write_response card_read_response
  "\<lambda>w r. wire_law w \<lparr>crp_card = (case r of Found c \<Rightarrow> Some c | NotFound \<Rightarrow> None)\<rparr>"
  by (rule framed_codec [where f = "\<lambda>b. case crp_card b of Some c \<Rightarrow> Found c | None \<Rightarrow> NotFound"])
    (simp_all add: card_write_response_def card_read_response_def split: CardResponse.splits)

section \<open>Properties\<close>

text \<open>
  The card codec round trip: a card response that was written without an error is read
  back by the peer, found or not found alike, with whatever follows on the stream left unread,
  and two responses written in sequence come back in order.
\<close>

lemma card_codec_round_trip:
  assumes "wire_law w \<lparr>crp_card = (case m of Found c \<Rightarrow> Some c | NotFound \<Rightarrow> None)\<rparr>"
    and "wire_law w \<lparr>crp_card = (case n of Found c \<Rightarrow> Some c | NotFound \<Rightarrow> None)\<rparr>"
    and "card_write_response w m io = (Ok (), io1)" "card_write_response w n io1 = (Ok (), io2)"
  shows "\<exists>frames. sink_written io2 = sink_written io @ frames \<and>
    (\<forall>src. bind_exec (card_read_response w (ahead frames src)) (\<lambda>(a, r).
      bind_exec (card_read_response w r) (\<lambda>(b, r'). Ok (a, b, r'))) = Ok (m, n, src))"
  by (rule card_responses.round_trip_two [OF assms])

text \<open>
  C31: the ACL codec round trip: an envelope written without an error takes a four-byte header
  and at most one MiB on the stream and is read back unchanged.
\<close>

theorem acl_codec_round_trip:
  assumes "wire_law w m" "acl_write_request w m io = (Ok (), io')"
  shows "\<exists>frame. sink_written io' = sink_written io @ frame \<and> 4 \<le> length frame \<and>
    length frame \<le> 4 + MAX_MESSAGE_BYTES \<and> (\<forall>src. acl_read_request w (ahead frame src) = Ok (m, src))"
  using acl_requests.round_trip [OF assms] unfolding frame_of_def by blast

text \<open>
  C32: a frame that is cut short is never taken for a message. Whatever the writer of a card
  response reports (success, a refused message, a write that failed after some bytes, a failed flush),
  a peer that reads what was written gets that response or the error with which its stream
  ends (the regular end is reported as UnexpectedEof, an error of the transport as such), and the
  error only if the writer reported one.
\<close>

theorem cut_frame_rejected:
  assumes "wire_law w \<lparr>crp_card = (case m of Found c \<Rightarrow> Some c | NotFound \<Rightarrow> None)\<rparr>" "card_write_response w m io = (r, io')"
  shows "\<exists>part. sink_written io' = sink_written io @ part \<and>
    (\<forall>e. card_read_response w \<lparr>src_bytes = part, src_end = e\<rparr> = Ok (m, \<lparr>src_bytes = [], src_end = e\<rparr>) \<or>
       r \<noteq> Ok () \<and> card_read_response w \<lparr>src_bytes = part, src_end = e\<rparr> =
         Err (case e of Some x \<Rightarrow> Other x | None \<Rightarrow> UnexpectedEof))"
  using card_responses.message_or_error [OF assms] unfolding end_error_def .

text \<open>
  C33: the size cap holds on both sides: a message above one MiB is refused by the writer with
  nothing written, and a frame whose header announces more than one MiB is refused by the
  reader as soon as the header is read, whatever follows; no larger buffer is ever allocated.
\<close>

theorem framing_cap:
  "(MAX_MESSAGE_BYTES < w_len w m \<longrightarrow>
      write_framed w m io = (Err (InvalidData ''message too large''), io)) \<and>
   (MAX_MESSAGE_BYTES < unat n \<longrightarrow>
      read_framed w (ahead (to_be_bytes n) src) = Err (InvalidData ''message too large'')) \<and>
   (read_framed w inp = Ok (v, out) \<longrightarrow>
      length (src_bytes inp) \<le> length (src_bytes out) + 4 + MAX_MESSAGE_BYTES)"
  by (auto simp: ahead_def write_framed_def read_framed_def read_exact_def Let_def exec_simps split: if_splits)

end
