(* ===== verification/Kite_Event_Loop.thy ===== *)
theory Kite_Event_Loop
  imports Kite_Acl Kite_Capability Kite_Receipt Kite_Directory Kite_Rerank Kite_Codec
begin

text \<open>
  \<^verbatim>\<open>kited/src/event_loop.rs\<close> and the command types of \<^verbatim>\<open>daemon.rs\<close>: the state of the daemon and
  every handler of its event loop, in the order of the source. A handler takes the state and
  returns its outcome with the new state, so that effects made before an error are kept. The
  libp2p swarm, the clocks, the UUID generator, the outcome of SQL statements and the
  iteration order of a hash map are operations on an abstract world of type \<open>'w\<close>, the fields
  of the parameter \<open>N\<close>.
\<close>

section \<open>Identifiers, commands and events\<close>

datatype QueryId = QueryId nat
datatype OutboundRequestId = OutboundRequestId nat
datatype ResponseChannel = ResponseChannel nat
datatype Oneshot = Oneshot nat

text \<open>\<^verbatim>\<open>anyhow::Error\<close>: the errors that the handlers convert into it.\<close>

datatype anyhow = Core Error | PeerIdParse string | KadStore string | Msg string

record IntentOutcome =
  out_conversation_id :: string
  out_matched_capability_id :: string
  out_cosine_score :: f32

datatype KitedEvent =
    Listening string
  | PeerDiscovered PeerId
  | CapabilityPublished string u32
  | IntentCompleted IntentOutcome

datatype Command =
    PublishCapability CapabilityCard Oneshot
  | SubmitIntent CapabilityFacets "f32 list" Intent Oneshot
  | Shutdown

record KadRecord =
  kr_key :: bytes
  kr_value :: bytes
  kr_publisher :: "PeerId option"

datatype QueryResult =
    PutRecordOk
  | PutRecordErr string
  | FoundRecord KadRecord
  | FinishedWithNoAdditionalRecord
  | GetRecordErr string
  | QueryResultOther

datatype KadEvent =
    RoutingUpdated PeerId bool
  | OutboundQueryProgressed QueryId QueryResult
  | KadOther

datatype IdentifyEvent = IdentifyReceived PeerId "string list" "string list" | IdentifyOther
datatype MdnsEvent = Discovered "(PeerId \<times> string) list" | Expired

datatype CardEvent =
    CardRequestMessage CardRequest ResponseChannel
  | CardResponseMessage OutboundRequestId CardResponse
  | CardOther

datatype AclEvent =
    AclRequestMessage PeerId AclMessage ResponseChannel
  | AclResponseMessage PeerId OutboundRequestId AclMessage
  | AclOther

datatype SwarmEvent =
    NewListenAddr string
  | BehaviourMdns MdnsEvent
  | BehaviourKademlia KadEvent
  | BehaviourIdentify IdentifyEvent
  | BehaviourCard CardEvent
  | BehaviourAcl AclEvent
  | SwarmOther

section \<open>The world\<close>

record 'w net =
  kad_protocol_name :: string
  local_peer_id :: "'w \<Rightarrow> PeerId"
  kad_put_record :: "'w \<Rightarrow> KadRecord \<Rightarrow> (string + QueryId) \<times> 'w"
  kad_get_record :: "'w \<Rightarrow> bytes \<Rightarrow> QueryId \<times> 'w"
  kad_add_address :: "'w \<Rightarrow> PeerId \<Rightarrow> string \<Rightarrow> 'w"
  swarm_dial :: "'w \<Rightarrow> string \<Rightarrow> 'w"
  card_send_request :: "'w \<Rightarrow> PeerId \<Rightarrow> CardRequest \<Rightarrow> OutboundRequestId \<times> 'w"
  card_send_response :: "'w \<Rightarrow> ResponseChannel \<Rightarrow> CardResponse \<Rightarrow> 'w"
  acl_send_request :: "'w \<Rightarrow> PeerId \<Rightarrow> AclMessage \<Rightarrow> OutboundRequestId \<times> 'w"
  acl_send_response :: "'w \<Rightarrow> ResponseChannel \<Rightarrow> AclMessage \<Rightarrow> 'w"
  sys_clock :: "'w \<Rightarrow> nat option \<times> 'w"
  sys_instant :: "'w \<Rightarrow> nat \<times> 'w"
  sys_uuid :: "'w \<Rightarrow> string \<times> 'w"
  sql_outcome :: "'w \<Rightarrow> string option \<times> 'w"
  hash_first :: "'w \<Rightarrow> (string \<rightharpoonup> CapabilityCard) \<Rightarrow> string option"
  sort_unspecified :: "ScoredCandidate list \<Rightarrow> string + ScoredCandidate list"

section \<open>State\<close>

record RequesterState =
  rs_conversation_id :: string
  rs_required :: CapabilityFacets
  rs_query_vector :: "f32 list"
  rs_intent :: Intent
  rs_outstanding_dht_queries :: "QueryId set"
  rs_fetched_cards :: "CapabilityCard list"
  rs_seen_capability_ids :: "string set"
  rs_in_flight_card_fetches :: "OutboundRequestId set"
  rs_request_sent :: bool
  rs_provider_peer :: "PeerId option"
  rs_chosen_capability_id :: "string option"
  rs_chosen_score :: f32
  rs_started_at :: nat
  rs_reply :: "Oneshot option"

record ProviderState =
  ps_requester_peer :: PeerId
  ps_capability_id :: string
  ps_intent_payload :: bytes

text \<open>The reply of a count-only acknowledgement is a throwaway channel: \<open>None\<close>.\<close>

record PublishAck =
  pa_cap_id :: string
  pa_reply :: "Oneshot option"
  pa_remaining :: u32

text \<open>\<^verbatim>\<open>PendingLookup\<close> and \<^verbatim>\<open>PendingCardFetch\<close> hold the conversation they belong to.\<close>

type_synonym PendingLookup = string
type_synonym PendingCardFetch = string

record Metrics =
  directory_records_total :: nat
  match_accept_total :: nat
  receipts_total :: nat
  directory_lookup_samples :: "nat list"

text \<open>
  The last fields are the observable effects: the bounded event channel, the answers that were
  sent over the one-shot channels, and the metrics.
\<close>

record 'w State =
  st_swarm :: 'w
  st_identity :: AgentIdentity
  st_lsh :: AngularLsh
  st_receipts :: ReceiptStore
  st_local_cards :: "string \<rightharpoonup> CapabilityCard"
  st_pending_lookups :: "QueryId \<rightharpoonup> PendingLookup"
  st_pending_card_fetches :: "OutboundRequestId \<rightharpoonup> PendingCardFetch"
  st_requesters :: "string \<rightharpoonup> RequesterState"
  st_providers :: "string \<rightharpoonup> ProviderState"
  st_pending_publish_acks :: "QueryId \<rightharpoonup> PublishAck"
  st_pending_acl_round1 :: "OutboundRequestId \<rightharpoonup> string"
  st_pending_acl_round2 :: "OutboundRequestId \<rightharpoonup> string"
  st_known_peers :: "PeerId set"
  st_events :: "KitedEvent list"
  st_event_receiver_open :: bool
  st_publish_replies :: "(Oneshot \<times> (unit, anyhow) exec) list"
  st_intent_replies :: "(Oneshot \<times> (IntentOutcome, anyhow) exec) list"
  st_metrics :: Metrics

type_synonym 'w handler = "'w State \<Rightarrow> (unit, anyhow) exec \<times> 'w State"

definition ECHO_ONTOLOGY :: string where
  "ECHO_ONTOLOGY = ''code-execution''"

definition RECORD_TTL_NS :: u64 where
  "RECORD_TTL_NS = 300000000000"

definition EVENT_CAPACITY :: nat where
  "EVENT_CAPACITY = 32"

text \<open>The state that \<^verbatim>\<open>EventLoop::spawn\<close> starts from.\<close>

definition initial_state :: "'w \<Rightarrow> AgentIdentity \<Rightarrow> AngularLsh \<Rightarrow> ReceiptStore \<Rightarrow> 'w State" where
  "initial_state w i lsh receipts =
     \<lparr>st_swarm = w, st_identity = i, st_lsh = lsh, st_receipts = receipts,
      st_local_cards = Map.empty, st_pending_lookups = Map.empty,
      st_pending_card_fetches = Map.empty, st_requesters = Map.empty,
      st_providers = Map.empty, st_pending_publish_acks = Map.empty,
      st_pending_acl_round1 = Map.empty, st_pending_acl_round2 = Map.empty,
      st_known_peers = {}, st_events = [], st_event_receiver_open = True,
      st_publish_replies = [], st_intent_replies = [],
      st_metrics = \<lparr>directory_records_total = 0, match_accept_total = 0, receipts_total = 0,
                    directory_lookup_samples = []\<rparr>\<rparr>"

section \<open>Effects\<close>

text \<open>\<^verbatim>\<open>try_send\<close> on the bounded channel drops the event when the channel is full or closed.\<close>

definition emit :: "KitedEvent \<Rightarrow> 'w State \<Rightarrow> 'w State" where
  "emit ev s = s\<lparr>st_events :=
     (if st_event_receiver_open s \<and> length (st_events s) < EVENT_CAPACITY
      then st_events s @ [ev] else st_events s)\<rparr>"

definition reply_publish :: "Oneshot option \<Rightarrow> (unit, anyhow) exec \<Rightarrow> 'w State \<Rightarrow> 'w State" where
  "reply_publish ch v s = s\<lparr>st_publish_replies := st_publish_replies s @
     (case ch of None \<Rightarrow> [] | Some c \<Rightarrow> [(c, v)])\<rparr>"

definition reply_intent :: "Oneshot option \<Rightarrow> (IntentOutcome, anyhow) exec \<Rightarrow> 'w State \<Rightarrow> 'w State" where
  "reply_intent ch v s = s\<lparr>st_intent_replies := st_intent_replies s @
     (case ch of None \<Rightarrow> [] | Some c \<Rightarrow> [(c, v)])\<rparr>"

definition upd_metrics :: "(Metrics \<Rightarrow> Metrics) \<Rightarrow> 'w State \<Rightarrow> 'w State" where
  "upd_metrics f s = s\<lparr>st_metrics := f (st_metrics s)\<rparr>"

section \<open>Commands\<close>

fun put_all :: "'w net \<Rightarrow> DirectoryPublication list \<Rightarrow> 'w \<Rightarrow> (string + QueryId list) \<times> 'w" where
  "put_all N [] w = (Inr [], w)"
| "put_all N (p # ps) w =
     (case kad_put_record N w \<lparr>kr_key = pub_key p, kr_value = pub_record_bytes p,
            kr_publisher = Some (local_peer_id N w)\<rparr> of
        (Inl e, w1) \<Rightarrow> (Inl e, w1)
      | (Inr q, w1) \<Rightarrow> (case put_all N ps w1 of
          (Inl e, w2) \<Rightarrow> (Inl e, w2)
        | (Inr qs, w2) \<Rightarrow> (Inr (q # qs), w2)))"

definition count_only_ack :: PublishAck where
  "count_only_ack = \<lparr>pa_cap_id = '''', pa_reply = None, pa_remaining = 0\<rparr>"

definition publish :: "ext \<Rightarrow> 'w net \<Rightarrow> CapabilityCard \<Rightarrow> Oneshot \<Rightarrow> 'w handler" where
  "publish X N crd reply s =
     (case capability_verify X crd of Err e \<Rightarrow> (Err (Core e), s) | Panic p \<Rightarrow> (Panic p, s) | Ok _ \<Rightarrow>
     (case build_records X crd (st_lsh s) (st_identity s) RECORD_TTL_NS of
        Err e \<Rightarrow> (Err (Core e), s)
      | Panic p \<Rightarrow> (Panic p, s)
      | Ok publications \<Rightarrow>
          (let expected = of_nat (length publications);
               cap_id = card_capability_id crd;
               s1 = s\<lparr>st_local_cards := (st_local_cards s)(cap_id \<mapsto> crd)\<rparr>
           in if publications = [] then (Ok (), reply_publish (Some reply) (Ok ()) s1)
              else case put_all N publications (st_swarm s1) of
                (Inl e, w) \<Rightarrow> (Err (KadStore e), s1\<lparr>st_swarm := w\<rparr>)
              | (Inr qids, w) \<Rightarrow>
                  (let acks = (st_pending_publish_acks s1)(last qids \<mapsto>
                         \<lparr>pa_cap_id = cap_id, pa_reply = Some reply, pa_remaining = expected\<rparr>)
                   in (Ok (), s1\<lparr>st_swarm := w, st_pending_publish_acks :=
                         foldl (\<lambda>m q. m(q \<mapsto> count_only_ack)) acks (butlast qids)\<rparr>)))))"

fun get_all ::
  "'w net \<Rightarrow> string \<Rightarrow> (u32 \<times> bytes) list \<Rightarrow> 'w \<Rightarrow> QueryId set \<Rightarrow> (QueryId \<rightharpoonup> PendingLookup)
     \<Rightarrow> QueryId set \<times> (QueryId \<rightharpoonup> PendingLookup) \<times> 'w" where
  "get_all N conv [] w outstanding pending = (outstanding, pending, w)"
| "get_all N conv ((table_id, key) # keys) w outstanding pending =
     (case kad_get_record N w key of (qid, w1) \<Rightarrow>
        get_all N conv keys w1 (insert qid outstanding) (pending(qid \<mapsto> conv)))"

definition submit_intent ::
  "ext \<Rightarrow> 'w net \<Rightarrow> CapabilityFacets \<Rightarrow> f32 list \<Rightarrow> Intent \<Rightarrow> Oneshot \<Rightarrow> 'w handler" where
  "submit_intent X N required query_vector intent reply s =
     (let fp = fingerprint X required in
      case lookup_keys X fp query_vector (st_lsh s) of
        Err e \<Rightarrow> (Err e, s)
      | Panic p \<Rightarrow> (Panic p, s)
      | Ok keys \<Rightarrow>
          (case sys_uuid N (st_swarm s) of (conversation_id, w1) \<Rightarrow>
          (case get_all N conversation_id keys w1 {} (st_pending_lookups s) of (outstanding, pending, w2) \<Rightarrow>
          (case sys_instant N w2 of (started_at, w3) \<Rightarrow>
             (Ok (), s\<lparr>st_swarm := w3, st_pending_lookups := pending,
                st_requesters := (st_requesters s)(conversation_id \<mapsto>
                  \<lparr>rs_conversation_id = conversation_id, rs_required = required,
                   rs_query_vector = query_vector, rs_intent = intent,
                   rs_outstanding_dht_queries = outstanding, rs_fetched_cards = [],
                   rs_seen_capability_ids = {}, rs_in_flight_card_fetches = {},
                   rs_request_sent = False, rs_provider_peer = None,
                   rs_chosen_capability_id = None, rs_chosen_score = f_zero binary32,
                   rs_started_at = started_at, rs_reply = Some reply\<rparr>)\<rparr>)))))"

fun handle_command :: "ext \<Rightarrow> 'w net \<Rightarrow> Command \<Rightarrow> 'w handler" where
  "handle_command X N Shutdown s = (Panic ''internal error: entered unreachable code'', s)"
| "handle_command X N (PublishCapability crd ack) s = publish X N crd ack s"
| "handle_command X N (SubmitIntent required query_vector intent reply) s =
     submit_intent X N required query_vector intent reply s"

section \<open>Sending the REQUEST\<close>

definition maybe_send_request :: "ext \<Rightarrow> 'w net \<Rightarrow> string \<Rightarrow> 'w handler" where
  "maybe_send_request X N conversation_id s =
     (case st_requesters s conversation_id of None \<Rightarrow> (Ok (), s) | Some req \<Rightarrow>
     if rs_request_sent req \<or> rs_outstanding_dht_queries req \<noteq> {} \<or> rs_in_flight_card_fetches req \<noteq> {}
     then (Ok (), s)
     else (case rerank (sort_unspecified N) (rs_required req) (rs_query_vector req) (rs_fetched_cards req) of
         Err e \<Rightarrow> (Err e, s)
       | Panic p \<Rightarrow> (Panic p, s)
       | Ok scored \<Rightarrow>
           (let req1 = req\<lparr>rs_fetched_cards := []\<rparr> in
            case find sc_passed_filter scored of
              None \<Rightarrow> (Ok (), (reply_intent (rs_reply req1) (Err (Msg ''no matching capability'')) s)
                \<lparr>st_requesters := (st_requesters s)(conversation_id := None)\<rparr>)
            | Some best \<Rightarrow>
                (case pid_parse X (card_agent_id (sc_card best)) of
                   None \<Rightarrow> (Err (PeerIdParse (card_agent_id (sc_card best))),
                     s\<lparr>st_requesters := (st_requesters s)(conversation_id \<mapsto> req1)\<rparr>)
                 | Some provider \<Rightarrow>
                     (case sys_clock N (st_swarm s) of (t, w1) \<Rightarrow>
                     (case sys_uuid N w1 of (u, w2) \<Rightarrow>
                     (case acl_request X t u (acl_new (st_identity s) conversation_id) ECHO_ONTOLOGY (rs_intent req1) of
                        Err e \<Rightarrow> (Err (Core e), s\<lparr>st_swarm := w2,
                          st_requesters := (st_requesters s)(conversation_id \<mapsto> req1)\<rparr>)
                      | Panic p \<Rightarrow> (Panic p, s)
                      | Ok request_msg \<Rightarrow>
                          (case sys_instant N w2 of (now, w3) \<Rightarrow>
                          (let req2 = req1\<lparr>rs_request_sent := True, rs_provider_peer := Some provider,
                                 rs_chosen_capability_id := Some (card_capability_id (sc_card best)),
                                 rs_chosen_score := sc_score best\<rparr>;
                               s1 = upd_metrics (\<lambda>m. m\<lparr>match_accept_total := match_accept_total m + 1,
                                 directory_lookup_samples := directory_lookup_samples m @ [now - rs_started_at req1]\<rparr>)
                                 (s\<lparr>st_requesters := (st_requesters s)(conversation_id \<mapsto> req2)\<rparr>)
                           in case acl_send_request N w3 provider request_msg of (req_id, w4) \<Rightarrow>
                             (Ok (), s1\<lparr>st_swarm := w4, st_pending_acl_round1 :=
                                (st_pending_acl_round1 s)(req_id \<mapsto> conversation_id)\<rparr>))))))))))"

section \<open>DHT events\<close>

definition on_directory_hit :: "ext \<Rightarrow> 'w net \<Rightarrow> KadRecord \<Rightarrow> string \<Rightarrow> 'w handler" where
  "on_directory_hit X N record conversation_id s =
     (case dec_dir X (kr_value record) of Inl e \<Rightarrow> (Ok (), s) | Inr dir \<Rightarrow>
     if dir_model_id dir \<noteq> CANONICAL_MODEL_ID then (Ok (), s)
     else (case verify_record X dir of Err e \<Rightarrow> (Ok (), s) | Panic p \<Rightarrow> (Panic p, s) | Ok _ \<Rightarrow>
     (case st_requesters s conversation_id of None \<Rightarrow> (Ok (), s) | Some req \<Rightarrow>
     if dir_capability_id dir \<in> rs_seen_capability_ids req then (Ok (), s)
     else (let req1 = req\<lparr>rs_seen_capability_ids := insert (dir_capability_id dir) (rs_seen_capability_ids req)\<rparr>
       in case pid_parse X (dir_peer_id dir) of
            None \<Rightarrow> (Ok (), s\<lparr>st_requesters := (st_requesters s)(conversation_id \<mapsto> req1)\<rparr>)
          | Some peer \<Rightarrow>
              (case card_send_request N (st_swarm s) peer \<lparr>cr_capability_id = dir_capability_id dir\<rparr> of
                 (req_id, w1) \<Rightarrow>
                   (Ok (), s\<lparr>st_swarm := w1,
                      st_requesters := (st_requesters s)(conversation_id \<mapsto>
                        req1\<lparr>rs_in_flight_card_fetches := insert req_id (rs_in_flight_card_fetches req1)\<rparr>),
                      st_pending_card_fetches := (st_pending_card_fetches s)(req_id \<mapsto> conversation_id)\<rparr>))))))"

text \<open>The common end of a \<^verbatim>\<open>get_record\<close> query, successful or not.\<close>

definition finish_lookup :: "ext \<Rightarrow> 'w net \<Rightarrow> QueryId \<Rightarrow> 'w handler" where
  "finish_lookup X N qid s =
     (case st_pending_lookups s qid of None \<Rightarrow> (Ok (), s) | Some conv \<Rightarrow>
        (let s1 = s\<lparr>st_pending_lookups := (st_pending_lookups s)(qid := None)\<rparr>;
             s2 = (case st_requesters s1 conv of None \<Rightarrow> s1 | Some req \<Rightarrow>
               s1\<lparr>st_requesters := (st_requesters s1)(conv \<mapsto>
                 req\<lparr>rs_outstanding_dht_queries := rs_outstanding_dht_queries req - {qid}\<rparr>)\<rparr>)
         in maybe_send_request X N conv s2))"

fun handle_query_result :: "ext \<Rightarrow> 'w net \<Rightarrow> QueryId \<Rightarrow> QueryResult \<Rightarrow> 'w handler" where
  "handle_query_result X N qid PutRecordOk s =
     (let s1 = upd_metrics (\<lambda>m. m\<lparr>directory_records_total := directory_records_total m + 1\<rparr>) s in
      case st_pending_publish_acks s1 qid of None \<Rightarrow> (Ok (), s1) | Some ack \<Rightarrow>
        (let s2 = s1\<lparr>st_pending_publish_acks := (st_pending_publish_acks s1)(qid := None)\<rparr> in
         if 0 < pa_remaining ack
         then (Ok (), emit (CapabilityPublished (pa_cap_id ack) (pa_remaining ack))
                (reply_publish (pa_reply ack) (Ok ()) s2))
         else (Ok (), s2)))"
| "handle_query_result X N qid (PutRecordErr e) s =
     (case st_pending_publish_acks s qid of None \<Rightarrow> (Ok (), s) | Some ack \<Rightarrow>
        (let s1 = s\<lparr>st_pending_publish_acks := (st_pending_publish_acks s)(qid := None)\<rparr> in
         if 0 < pa_remaining ack then (Ok (), reply_publish (pa_reply ack) (Err (Msg e)) s1)
         else (Ok (), s1)))"
| "handle_query_result X N qid (FoundRecord record) s =
     (case st_pending_lookups s qid of None \<Rightarrow> (Ok (), s) | Some conv \<Rightarrow> on_directory_hit X N record conv s)"
| "handle_query_result X N qid FinishedWithNoAdditionalRecord s = finish_lookup X N qid s"
| "handle_query_result X N qid (GetRecordErr e) s = finish_lookup X N qid s"
| "handle_query_result X N qid QueryResultOther s = (Ok (), s)"

fun handle_kad :: "ext \<Rightarrow> 'w net \<Rightarrow> KadEvent \<Rightarrow> 'w handler" where
  "handle_kad X N (RoutingUpdated peer is_new_peer) s =
     (if is_new_peer \<and> peer \<notin> st_known_peers s
      then (Ok (), emit (PeerDiscovered peer) (s\<lparr>st_known_peers := insert peer (st_known_peers s)\<rparr>))
      else (Ok (), s))"
| "handle_kad X N (OutboundQueryProgressed qid result) s = handle_query_result X N qid result s"
| "handle_kad X N KadOther s = (Ok (), s)"

fun handle_identify :: "'w net \<Rightarrow> IdentifyEvent \<Rightarrow> 'w State \<Rightarrow> 'w State" where
  "handle_identify N (IdentifyReceived peer protocols addrs) s =
     (if kad_protocol_name N \<in> set protocols
      then s\<lparr>st_swarm := foldl (\<lambda>w a. kad_add_address N w peer a) (st_swarm s) addrs\<rparr> else s)"
| "handle_identify N IdentifyOther s = s"

fun handle_mdns :: "'w net \<Rightarrow> MdnsEvent \<Rightarrow> 'w State \<Rightarrow> 'w State" where
  "handle_mdns N (Discovered list) s =
     s\<lparr>st_swarm := foldl (\<lambda>w (peer, addr). swarm_dial N w addr) (st_swarm s) list\<rparr>"
| "handle_mdns N Expired s = s"

section \<open>Card events\<close>

definition handle_card_response :: "ext \<Rightarrow> 'w net \<Rightarrow> OutboundRequestId \<Rightarrow> CardResponse \<Rightarrow> 'w handler" where
  "handle_card_response X N request_id response s =
     (case st_pending_card_fetches s request_id of None \<Rightarrow> (Ok (), s) | Some conv \<Rightarrow>
        (let s1 = s\<lparr>st_pending_card_fetches := (st_pending_card_fetches s)(request_id := None)\<rparr> in
         case st_requesters s1 conv of None \<Rightarrow> (Ok (), s1) | Some req \<Rightarrow>
           (let req1 = req\<lparr>rs_in_flight_card_fetches := rs_in_flight_card_fetches req - {request_id}\<rparr>;
                req2 = (case response of
                    Found crd \<Rightarrow> if is_ok (capability_verify X crd)
                      then req1\<lparr>rs_fetched_cards := rs_fetched_cards req1 @ [crd]\<rparr> else req1
                  | NotFound \<Rightarrow> req1);
                s2 = s1\<lparr>st_requesters := (st_requesters s1)(conv \<mapsto> req2)\<rparr>;
                ready = (rs_outstanding_dht_queries req2 = {} \<and> rs_in_flight_card_fetches req2 = {})
            in if ready then maybe_send_request X N conv s2 else (Ok (), s2))))"

fun handle_card :: "ext \<Rightarrow> 'w net \<Rightarrow> CardEvent \<Rightarrow> 'w handler" where
  "handle_card X N (CardRequestMessage request channel) s =
     (let resp = (case st_local_cards s (cr_capability_id request) of
         Some crd \<Rightarrow> Found crd | None \<Rightarrow> NotFound)
      in (Ok (), s\<lparr>st_swarm := card_send_response N (st_swarm s) channel resp\<rparr>))"
| "handle_card X N (CardResponseMessage request_id response) s =
     handle_card_response X N request_id response s"
| "handle_card X N CardOther s = (Ok (), s)"

section \<open>ACL events\<close>

definition empty_payload :: bytes where
  "empty_payload = as_bytes ''(empty)''"

definition handle_request_round1 ::
  "ext \<Rightarrow> 'w net \<Rightarrow> PeerId \<Rightarrow> AclMessage \<Rightarrow> ResponseChannel \<Rightarrow> 'w handler" where
  "handle_request_round1 X N peer msg channel s =
     (case acl_payload msg of
        Some (PIntent intent) \<Rightarrow>
          (case hash_first N (st_swarm s) (st_local_cards s) of None \<Rightarrow> (Ok (), s) | Some capability_id \<Rightarrow>
          (case sys_clock N (st_swarm s) of (t, w1) \<Rightarrow>
          (case sys_uuid N w1 of (u, w2) \<Rightarrow>
          (case acl_propose X t u (acl_new (st_identity s) (acl_conversation_id msg)) (acl_ontology msg)
              (acl_message_id msg)
              \<lparr>pro_capability_id = capability_id,
               pro_provider_agent_id = pid_to_string X (peer_id X (st_identity s)),
               pro_quote = ''echo'', pro_expires_at_ns = 0\<rparr> of
             Err e \<Rightarrow> (Err (Core e), s\<lparr>st_swarm := w2\<rparr>)
           | Panic p \<Rightarrow> (Panic p, s)
           | Ok propose \<Rightarrow>
               (Ok (), s\<lparr>st_swarm := acl_send_response N w2 channel propose,
                  st_providers := (st_providers s)(acl_conversation_id msg \<mapsto>
                    \<lparr>ps_requester_peer = peer, ps_capability_id = capability_id,
                     ps_intent_payload = (if int_payload intent = [] then empty_payload
                       else int_payload intent)\<rparr>)\<rparr>)))))
      | _ \<Rightarrow> (Ok (), s))"

definition handle_agree_round2 ::
  "ext \<Rightarrow> 'w net \<Rightarrow> PeerId \<Rightarrow> AclMessage \<Rightarrow> ResponseChannel \<Rightarrow> 'w handler" where
  "handle_agree_round2 X N peer msg channel s =
     (let conv = acl_conversation_id msg in
      case st_providers s conv of None \<Rightarrow> (Ok (), s) | Some prov \<Rightarrow>
        (let s1 = s\<lparr>st_providers := (st_providers s)(conv := None)\<rparr> in
         case sys_clock N (st_swarm s1) of (t, w1) \<Rightarrow>
         (case sys_uuid N w1 of (u, w2) \<Rightarrow>
         (case acl_inform X t u (acl_new (st_identity s) conv) ECHO_ONTOLOGY (acl_message_id msg)
             \<lparr>res_conversation_id = conv, res_payload = ps_intent_payload prov,
              res_status = result_status_as_i32 ROk, res_error_message = ''''\<rparr> of
            Err e \<Rightarrow> (Err (Core e), s1\<lparr>st_swarm := w2\<rparr>)
          | Panic p \<Rightarrow> (Panic p, s1)
          | Ok inform \<Rightarrow>
              (let w3 = acl_send_response N w2 channel inform in
               case sys_clock N w3 of (t', w4) \<Rightarrow>
               (case receipt_build X t' (st_identity s) conv (ps_capability_id prov)
                   (pid_to_string X (ps_requester_peer prov)) (pid_to_string X (peer_id X (st_identity s))) ROk of
                  Err e \<Rightarrow> (Err (Core e), s1\<lparr>st_swarm := w4\<rparr>)
                | Panic p \<Rightarrow> (Panic p, s1)
                | Ok receipt_obj \<Rightarrow>
                    (case sql_outcome N w4 of (e, w5) \<Rightarrow>
                    (case store_insert e receipt_obj None (st_receipts s1) of
                       (Ok _, db) \<Rightarrow> (Ok (), upd_metrics (\<lambda>m. m\<lparr>receipts_total := receipts_total m + 1\<rparr>)
                          (s1\<lparr>st_swarm := w5, st_receipts := db\<rparr>))
                     | (Err x, db) \<Rightarrow> (Err (Core x), s1\<lparr>st_swarm := w5, st_receipts := db\<rparr>)
                     | (Panic p, db) \<Rightarrow> (Panic p, s1)))))))))"

definition performative_of :: "AclMessage \<Rightarrow> Performative" where
  "performative_of msg = (case performative_try_from (acl_performative msg) of
     Some p \<Rightarrow> p | None \<Rightarrow> PUnspecified)"

definition on_acl_request ::
  "ext \<Rightarrow> 'w net \<Rightarrow> PeerId \<Rightarrow> AclMessage \<Rightarrow> ResponseChannel \<Rightarrow> 'w handler" where
  "on_acl_request X N peer msg channel s =
     (if \<not> is_ok (acl_verify X msg) then (Ok (), s)
      else case performative_of msg of
        Request \<Rightarrow> handle_request_round1 X N peer msg channel s
      | Agree \<Rightarrow> handle_agree_round2 X N peer msg channel s
      | _ \<Rightarrow> (Ok (), s))"

definition complete_intent :: "ext \<Rightarrow> 'w net \<Rightarrow> PeerId \<Rightarrow> string \<Rightarrow> AclMessage \<Rightarrow> 'w handler" where
  "complete_intent X N provider_peer conv inform s =
     (case st_requesters s conv of None \<Rightarrow> (Ok (), s) | Some req \<Rightarrow>
        (let s1 = s\<lparr>st_requesters := (st_requesters s)(conv := None)\<rparr>;
             capability_id = (case rs_chosen_capability_id req of Some c \<Rightarrow> c | None \<Rightarrow> '''')
         in case sys_clock N (st_swarm s1) of (t, w1) \<Rightarrow>
            (case receipt_build X t (st_identity s) conv capability_id
                (pid_to_string X (peer_id X (st_identity s))) (pid_to_string X provider_peer) ROk of
               Err e \<Rightarrow> (Err (Core e), s1\<lparr>st_swarm := w1\<rparr>)
             | Panic p \<Rightarrow> (Panic p, s1)
             | Ok receipt_obj \<Rightarrow>
                 (case sql_outcome N w1 of (e, w2) \<Rightarrow>
                 (case store_insert e receipt_obj (Some (acl_signature inform)) (st_receipts s1) of
                    (Err x, db) \<Rightarrow> (Err (Core x), s1\<lparr>st_swarm := w2, st_receipts := db\<rparr>)
                  | (Panic p, db) \<Rightarrow> (Panic p, s1)
                  | (Ok _, db) \<Rightarrow>
                      (let outcome = \<lparr>out_conversation_id = conv, out_matched_capability_id = capability_id,
                             out_cosine_score = rs_chosen_score req\<rparr>;
                           s2 = upd_metrics (\<lambda>m. m\<lparr>receipts_total := receipts_total m + 1\<rparr>)
                             (s1\<lparr>st_swarm := w2, st_receipts := db\<rparr>)
                       in (Ok (), emit (IntentCompleted outcome)
                             (reply_intent (rs_reply req) (Ok outcome) s2))))))))"

definition send_agree ::
  "ext \<Rightarrow> 'w net \<Rightarrow> string \<Rightarrow> AclMessage \<Rightarrow> 'w handler" where
  "send_agree X N conv msg s =
     (case st_requesters s conv of None \<Rightarrow> (Ok (), s) | Some req \<Rightarrow>
     (case rs_provider_peer req of None \<Rightarrow> (Ok (), s) | Some provider \<Rightarrow>
     (case sys_clock N (st_swarm s) of (t, w1) \<Rightarrow>
     (case sys_uuid N w1 of (u, w2) \<Rightarrow>
     (case acl_agree X t u (acl_new (st_identity s) conv) ECHO_ONTOLOGY (acl_message_id msg)
         \<lparr>agr_conversation_id = conv,
          agr_capability_id = (case rs_chosen_capability_id req of Some c \<Rightarrow> c | None \<Rightarrow> '''')\<rparr> of
        Err e \<Rightarrow> (Err (Core e), s\<lparr>st_swarm := w2\<rparr>)
      | Panic p \<Rightarrow> (Panic p, s)
      | Ok agree \<Rightarrow>
          (case acl_send_request N w2 provider agree of (req_id, w3) \<Rightarrow>
             (Ok (), s\<lparr>st_swarm := w3,
                st_pending_acl_round2 := (st_pending_acl_round2 s)(req_id \<mapsto> conv)\<rparr>)))))))"

definition on_acl_response ::
  "ext \<Rightarrow> 'w net \<Rightarrow> PeerId \<Rightarrow> OutboundRequestId \<Rightarrow> AclMessage \<Rightarrow> 'w handler" where
  "on_acl_response X N peer request_id msg s =
     (if \<not> is_ok (acl_verify X msg) then (Ok (), s)
      else case st_pending_acl_round1 s request_id of
        Some conv \<Rightarrow>
          (let s1 = s\<lparr>st_pending_acl_round1 := (st_pending_acl_round1 s)(request_id := None)\<rparr> in
           if performative_of msg \<noteq> Propose then (Ok (), s1) else send_agree X N conv msg s1)
      | None \<Rightarrow>
          (case st_pending_acl_round2 s request_id of
             Some conv \<Rightarrow>
               (let s1 = s\<lparr>st_pending_acl_round2 := (st_pending_acl_round2 s)(request_id := None)\<rparr> in
                if performative_of msg \<noteq> Inform then (Ok (), s1)
                else complete_intent X N peer conv msg s1)
           | None \<Rightarrow> (Ok (), s)))"

fun handle_acl :: "ext \<Rightarrow> 'w net \<Rightarrow> AclEvent \<Rightarrow> 'w handler" where
  "handle_acl X N (AclRequestMessage peer request channel) s = on_acl_request X N peer request channel s"
| "handle_acl X N (AclResponseMessage peer request_id response) s =
     on_acl_response X N peer request_id response s"
| "handle_acl X N AclOther s = (Ok (), s)"

section \<open>The loop\<close>

fun handle_swarm_event :: "ext \<Rightarrow> 'w net \<Rightarrow> SwarmEvent \<Rightarrow> 'w handler" where
  "handle_swarm_event X N (NewListenAddr address) s = (Ok (), emit (Listening address) s)"
| "handle_swarm_event X N (BehaviourMdns ev) s = (Ok (), handle_mdns N ev s)"
| "handle_swarm_event X N (BehaviourKademlia ev) s = handle_kad X N ev s"
| "handle_swarm_event X N (BehaviourIdentify ev) s = (Ok (), handle_identify N ev s)"
| "handle_swarm_event X N (BehaviourCard ev) s = handle_card X N ev s"
| "handle_swarm_event X N (BehaviourAcl ev) s = handle_acl X N ev s"
| "handle_swarm_event X N SwarmOther s = (Ok (), s)"

text \<open>
  One turn of \<^verbatim>\<open>select!\<close>: a command (or the closed command channel) or a swarm event. Between
  turns the owner of the event receiver may take an event or drop the receiver.
\<close>

datatype Input = InCommand "Command option" | InSwarm SwarmEvent | InTakeEvent | InDropReceiver

fun loop_turn :: "ext \<Rightarrow> 'w net \<Rightarrow> Input \<Rightarrow> 'w State \<Rightarrow> (unit, anyhow) exec option \<times> 'w State" where
  "loop_turn X N (InCommand None) s = (Some (Ok ()), s)"
| "loop_turn X N (InCommand (Some c)) s =
     (if c = Shutdown then (Some (Ok ()), s)
      else case handle_command X N c s of (Ok _, s') \<Rightarrow> (None, s') | (r, s') \<Rightarrow> (Some r, s'))"
| "loop_turn X N (InSwarm ev) s =
     (case handle_swarm_event X N ev s of (Ok _, s') \<Rightarrow> (None, s') | (r, s') \<Rightarrow> (Some r, s'))"
| "loop_turn X N InTakeEvent s = (None, s\<lparr>st_events := tl (st_events s)\<rparr>)"
| "loop_turn X N InDropReceiver s = (None, s\<lparr>st_event_receiver_open := False\<rparr>)"

text \<open>The run over a sequence of inputs: the result of the loop, if it returned, and the state.\<close>

fun run :: "ext \<Rightarrow> 'w net \<Rightarrow> Input list \<Rightarrow> 'w State \<Rightarrow> (unit, anyhow) exec option \<times> 'w State" where
  "run X N [] s = (None, s)"
| "run X N (i # is) s = (case loop_turn X N i s of
     (Some r, s') \<Rightarrow> (Some r, s') | (None, s') \<Rightarrow> run X N is s')"

end
