(* ===== verification/Kite_Turn.thy ===== *)
theory Kite_Turn
  imports Kite_Event_Loop
begin

text \<open>
  Invariants of the event loop, as an interface: what every handler keeps, every turn, every run
  and every reachable state keeps. The locale \<open>turn_invariant\<close> holds the dispatch of commands and swarm events
  once; a theory that has an invariant proves its handlers and interprets the locale.
\<close>

lemma loop_turn_snd:
  "snd (loop_turn X N (InSwarm ev) s) = snd (handle_swarm_event X N ev s)"
  "snd (loop_turn X N (InCommand (Some c)) s) = (if c = Shutdown then s else snd (handle_command X N c s))"
  by (simp_all split: prod.splits exec.splits)

locale turn_invariant =
  fixes X :: ext and N :: "'w net" and ok :: "Input \<Rightarrow> bool" and J :: "'w State \<Rightarrow> bool"
  assumes aside: "J s \<Longrightarrow> J (emit ev s)" "J s \<Longrightarrow> J (upd_metrics f s)" "J s \<Longrightarrow> J (reply_publish ch v s)"
      "J s \<Longrightarrow> J (s\<lparr>st_known_peers := P\<rparr>)" "J s \<Longrightarrow> J (s\<lparr>st_pending_publish_acks := acks\<rparr>)"
      "J s \<Longrightarrow> J (s\<lparr>st_events := tl (st_events s)\<rparr>)" "J s \<Longrightarrow> J (s\<lparr>st_event_receiver_open := False\<rparr>)"
    and publish: "J s \<Longrightarrow> ok (InCommand (Some (PublishCapability c reply))) \<Longrightarrow> J (snd (publish X N c reply s))"
    and submit: "J s \<Longrightarrow> ok (InCommand (Some (SubmitIntent required query intent reply'))) \<Longrightarrow>
      J (snd (submit_intent X N required query intent reply' s))"
    and identify: "J s \<Longrightarrow> J (handle_identify N iev s)"
    and mdns: "J s \<Longrightarrow> J (handle_mdns N mev s)"
    and hit: "J s \<Longrightarrow> st_pending_lookups s q = Some conv \<Longrightarrow> J (snd (on_directory_hit X N rec conv s))"
    and lookup: "J s \<Longrightarrow> J (snd (finish_lookup X N q s))"
    and serve: "J s \<Longrightarrow> J (s\<lparr>st_swarm := card_send_response N (st_swarm s) rc
      (case st_local_cards s cap of Some crd \<Rightarrow> Found crd | None \<Rightarrow> NotFound)\<rparr>)"
    and fetched: "J s \<Longrightarrow> ok (InSwarm (BehaviourCard (CardResponseMessage i response))) \<Longrightarrow>
      J (snd (handle_card_response X N i response s))"
    and request: "J s \<Longrightarrow> ok (InSwarm (BehaviourAcl (AclRequestMessage peer m rc))) \<Longrightarrow>
      J (snd (handle_request_round1 X N peer m rc s))"
    and agree: "J s \<Longrightarrow> ok (InSwarm (BehaviourAcl (AclRequestMessage peer m rc))) \<Longrightarrow>
      J (snd (handle_agree_round2 X N peer m rc s))"
    and response: "J s \<Longrightarrow> ok (InSwarm (BehaviourAcl (AclResponseMessage peer i m))) \<Longrightarrow>
      J (snd (on_acl_response X N peer i m s))"
begin

lemma kad: "J s \<Longrightarrow> J (snd (handle_kad X N ev s))"
proof (cases ev)
  case (OutboundQueryProgressed q result)
  assume "J s"
  then show ?thesis using OutboundQueryProgressed aside hit lookup
    by (cases result) (simp_all add: Let_def split: option.splits)
qed (simp_all add: aside)

lemma card: "J s \<Longrightarrow> ok (InSwarm (BehaviourCard ev)) \<Longrightarrow> J (snd (handle_card X N ev s))"
  by (cases ev) (simp_all add: serve fetched Let_def)

lemma acl: "J s \<Longrightarrow> ok (InSwarm (BehaviourAcl ev)) \<Longrightarrow> J (snd (handle_acl X N ev s))"
  by (cases ev) (simp_all add: response on_acl_request_def request agree split: Performative.splits)

lemma swarm_event: "J s \<Longrightarrow> ok (InSwarm ev) \<Longrightarrow> J (snd (handle_swarm_event X N ev s))"
  by (cases ev) (simp_all add: aside mdns kad identify card acl)

lemma command: "J s \<Longrightarrow> ok (InCommand (Some c)) \<Longrightarrow> J (snd (handle_command X N c s))"
  by (cases c) (simp_all add: publish submit)

lemma turn: "J s \<Longrightarrow> ok i \<Longrightarrow> J (snd (loop_turn X N i s))"
proof (cases i)
  case (InCommand c)
  assume "J s" "ok i"
  then show ?thesis using InCommand command by (cases c) (simp_all add: loop_turn_snd del: loop_turn.simps(2))
next
  case (InSwarm ev)
  assume "J s" "ok i"
  then show ?thesis using InSwarm swarm_event by (metis loop_turn_snd(1))
qed (simp_all add: aside)

lemma run: "J s \<Longrightarrow> list_all ok is \<Longrightarrow> J (snd (run X N is s))"
proof (induction "is" arbitrary: s)
  case (Cons i "is")
  then have "J (snd (loop_turn X N i s))" by (simp add: turn)
  then show ?case using Cons by (auto split: prod.splits option.splits)
qed simp

end

section \<open>Reachable states\<close>

text \<open>
  The states of a daemon between turns: the initial state of a fresh swarm, and the state
  after every turn that did not end the loop. The inputs carry embeddings whose components are
  in \<open>[-1, 1]\<close>, as the encoder promises, and that are shorter than \<open>2\<^sup>32\<close>, which the dimension checks of
  the code cannot tell apart modulo \<open>2\<^sup>32\<close>.
\<close>

definition unit_vec :: "f32 list \<Rightarrow> bool" where
  "unit_vec v \<longleftrightarrow> length v < 2 ^ 32 \<and> list_all (f_within 1) v"

fun input_ok :: "Input \<Rightarrow> bool" where
  "input_ok (InCommand (Some (SubmitIntent required query_vector intent reply))) = unit_vec query_vector"
| "input_ok (InSwarm (BehaviourCard (CardResponseMessage r (Found crd)))) =
     (\<forall>e. card_embedding crd = Some e \<longrightarrow> unit_vec (emb_vector e))"
| "input_ok i = True"

inductive reachable :: "ext \<Rightarrow> 'w net \<Rightarrow> 'w State \<Rightarrow> 'w State \<Rightarrow> bool" for X N s0 where
  start: "reachable X N s0 s0"
| turn: "reachable X N s0 s \<Longrightarrow> input_ok i \<Longrightarrow> loop_turn X N i s = (None, s') \<Longrightarrow> reachable X N s0 s'"

lemma run_reachable:
  "reachable X N s0 s \<Longrightarrow> list_all input_ok is \<Longrightarrow> run X N is s = (None, s') \<Longrightarrow> reachable X N s0 s'"
proof (induction "is" arbitrary: s)
  case (Cons i "is")
  then obtain s1 where "loop_turn X N i s = (None, s1)" "run X N is s1 = (None, s')"
    by (auto split: prod.splits option.splits)
  then show ?case using Cons reachable.turn [of X N s0 s i s1] by simp
qed simp

text \<open>An invariant that assumes no more of its inputs holds in every reachable state.\<close>

locale loop_invariant = turn_invariant +
  assumes inputs: "input_ok i \<Longrightarrow> ok i"
begin

lemma reaches: "reachable X N s0 s \<Longrightarrow> J s0 \<Longrightarrow> J s"
proof (induction rule: reachable.induct)
  case (turn s i s')
  then show ?case using turn_invariant_axioms inputs turn_invariant.turn [of X N ok J s i] by simp
qed

end

end
