(* ===== verification/Kite_Loop_Inv.thy ===== *)
theory Kite_Loop_Inv
  imports Kite_Turn
begin

text \<open>
  The invariant of the event loop and its preservation by every handler. The swarm promises
  fresh identifiers: \<open>net_fresh\<close> says so relative to a ledger of the identifiers a world has
  handed out. The invariant \<open>loop_inv\<close> ties the bookkeeping of each conversation to the maps of
  pending queries and requests, keeps only verified cards, and records how far the
  conversation has come.
\<close>

section \<open>Fresh identifiers\<close>

record 'w ledger =
  lg_queries :: "'w \<Rightarrow> QueryId set"
  lg_cards :: "'w \<Rightarrow> OutboundRequestId set"
  lg_acls :: "'w \<Rightarrow> OutboundRequestId set"
  lg_uuids :: "'w \<Rightarrow> string set"

definition grows :: "'w ledger \<Rightarrow> 'w \<Rightarrow> 'w \<Rightarrow> bool" where
  "grows L w w' \<longleftrightarrow> lg_queries L w \<subseteq> lg_queries L w' \<and> lg_cards L w \<subseteq> lg_cards L w' \<and>
     lg_acls L w \<subseteq> lg_acls L w' \<and> lg_uuids L w \<subseteq> lg_uuids L w'"

definition net_fresh :: "'w net \<Rightarrow> 'w ledger \<Rightarrow> bool" where
  "net_fresh N L \<longleftrightarrow>
     (\<forall>w k q w'. kad_get_record N w k = (q, w') \<longrightarrow>
        q \<notin> lg_queries L w \<and> q \<in> lg_queries L w' \<and> grows L w w') \<and>
     (\<forall>w r q w'. kad_put_record N w r = (Inr q, w') \<longrightarrow>
        q \<notin> lg_queries L w \<and> q \<in> lg_queries L w') \<and>
     (\<forall>w r x w'. kad_put_record N w r = (x, w') \<longrightarrow> grows L w w') \<and>
     (\<forall>w p m r w'. card_send_request N w p m = (r, w') \<longrightarrow>
        r \<notin> lg_cards L w \<and> r \<in> lg_cards L w' \<and> grows L w w') \<and>
     (\<forall>w p m r w'. acl_send_request N w p m = (r, w') \<longrightarrow>
        r \<notin> lg_acls L w \<and> r \<in> lg_acls L w' \<and> grows L w w') \<and>
     (\<forall>w u w'. sys_uuid N w = (u, w') \<longrightarrow>
        u \<notin> lg_uuids L w \<and> u \<in> lg_uuids L w' \<and> grows L w w') \<and>
     (\<forall>w x w'. sys_clock N w = (x, w') \<longrightarrow> grows L w w') \<and>
     (\<forall>w x w'. sys_instant N w = (x, w') \<longrightarrow> grows L w w') \<and>
     (\<forall>w x w'. sql_outcome N w = (x, w') \<longrightarrow> grows L w w') \<and>
     (\<forall>w p a. grows L w (kad_add_address N w p a)) \<and>
     (\<forall>w a. grows L w (swarm_dial N w a)) \<and>
     (\<forall>w c r. grows L w (card_send_response N w c r)) \<and>
     (\<forall>w c r. grows L w (acl_send_response N w c r))"

section \<open>The invariant\<close>

definition vec_ok :: "f32 list \<Rightarrow> bool" where
  "vec_ok v \<longleftrightarrow> length v = 384 \<and> list_all (f_within 1) v"

definition card_ok :: "ext \<Rightarrow> CapabilityCard \<Rightarrow> bool" where
  "card_ok X c \<longleftrightarrow> capability_verify X c = Ok () \<and>
     (\<forall>e. card_embedding c = Some e \<longrightarrow> vec_ok (emb_vector e))"

definition req_ok ::
  "ext \<Rightarrow> (QueryId \<rightharpoonup> string) \<Rightarrow> (OutboundRequestId \<rightharpoonup> string) \<Rightarrow> (OutboundRequestId \<rightharpoonup> string)
     \<Rightarrow> (OutboundRequestId \<rightharpoonup> string) \<Rightarrow> string \<Rightarrow> RequesterState \<Rightarrow> bool" where
  "req_ok X pl pc r1 r2 conv req \<longleftrightarrow>
     rs_conversation_id req = conv \<and> rs_reply req \<noteq> None \<and>
     rs_outstanding_dht_queries req = {q. pl q = Some conv} \<and>
     rs_in_flight_card_fetches req = {r. pc r = Some conv} \<and>
     vec_ok (rs_query_vector req) \<and> (\<forall>c\<in>set (rs_fetched_cards req). card_ok X c) \<and>
     (if rs_request_sent req
      then rs_provider_peer req \<noteq> None \<and> rs_chosen_capability_id req \<noteq> None \<and>
        rs_outstanding_dht_queries req = {} \<and> rs_in_flight_card_fetches req = {}
      else rs_provider_peer req = None \<and> rs_chosen_capability_id req = None \<and>
        conv \<notin> ran r1 \<and> conv \<notin> ran r2)"

text \<open>At most one ACL request of a conversation is awaited, in one of the two rounds.\<close>

definition one_acl :: "(OutboundRequestId \<rightharpoonup> string) \<Rightarrow> (OutboundRequestId \<rightharpoonup> string) \<Rightarrow> bool" where
  "one_acl r1 r2 \<longleftrightarrow>
     (\<forall>a b c. r1 a = Some c \<longrightarrow> r1 b = Some c \<longrightarrow> a = b) \<and>
     (\<forall>a b c. r2 a = Some c \<longrightarrow> r2 b = Some c \<longrightarrow> a = b) \<and>
     ran r1 \<inter> ran r2 = {}"

definition ids_ok ::
  "'w ledger \<Rightarrow> 'w \<Rightarrow> (QueryId \<rightharpoonup> string) \<Rightarrow> (OutboundRequestId \<rightharpoonup> string) \<Rightarrow> (OutboundRequestId \<rightharpoonup> string)
     \<Rightarrow> (OutboundRequestId \<rightharpoonup> string) \<Rightarrow> (string \<rightharpoonup> RequesterState) \<Rightarrow> bool" where
  "ids_ok L w pl pc r1 r2 rq \<longleftrightarrow>
     dom pl \<subseteq> lg_queries L w \<and> dom pc \<subseteq> lg_cards L w \<and>
     dom r1 \<subseteq> lg_acls L w \<and> dom r2 \<subseteq> lg_acls L w \<and>
     ran pl \<subseteq> lg_uuids L w \<and> ran pc \<subseteq> lg_uuids L w \<and>
     ran r1 \<subseteq> lg_uuids L w \<and> ran r2 \<subseteq> lg_uuids L w \<and> dom rq \<subseteq> lg_uuids L w"

definition loop_inv :: "ext \<Rightarrow> 'w ledger \<Rightarrow> 'w State \<Rightarrow> bool" where
  "loop_inv X L s \<longleftrightarrow>
     (\<forall>conv req. st_requesters s conv = Some req \<longrightarrow>
        req_ok X (st_pending_lookups s) (st_pending_card_fetches s)
          (st_pending_acl_round1 s) (st_pending_acl_round2 s) conv req) \<and>
     ids_ok L (st_swarm s) (st_pending_lookups s) (st_pending_card_fetches s)
       (st_pending_acl_round1 s) (st_pending_acl_round2 s) (st_requesters s) \<and>
     one_acl (st_pending_acl_round1 s) (st_pending_acl_round2 s) \<and>
     lsh_wf (st_lsh s) \<and> lp_dim (lsh_params (st_lsh s)) = CANONICAL_EMBEDDING_DIM \<and>
     lp_l (lsh_params (st_lsh s)) \<noteq> 0 \<and>
     (\<forall>k c. st_local_cards s k = Some c \<longrightarrow> capability_verify X c = Ok () \<and> card_capability_id c = k) \<and>
     length (st_events s) \<le> EVENT_CAPACITY"

text \<open>Prost encodes every message and the key signs every byte string.\<close>

definition can_seal :: "ext \<Rightarrow> AgentIdentity \<Rightarrow> bool" where
  "can_seal X i \<longleftrightarrow> (\<forall>m. \<exists>b. enc_acl X m = Inr b) \<and> (\<forall>m. \<exists>b. enc_receipt X m = Inr b) \<and>
     (\<forall>m. \<exists>b. enc_dir X m = Inr b) \<and> (\<forall>b. \<exists>s. kp_sign X (keypair i) b = Inr s)"

section \<open>Lemmas on fresh identifiers\<close>

lemma grows_refl [simp]: "grows L w w"
  by (simp add: grows_def)

lemma grows_trans: "grows L a b \<Longrightarrow> grows L b c \<Longrightarrow> grows L a c"
  by (auto simp: grows_def)

lemma net_freshD:
  assumes "net_fresh N L"
  shows "kad_get_record N w k = (q, w') \<Longrightarrow> q \<notin> lg_queries L w \<and> q \<in> lg_queries L w' \<and> grows L w w'"
    and "kad_put_record N w r = (Inr q, w') \<Longrightarrow> q \<notin> lg_queries L w \<and> q \<in> lg_queries L w'"
    and "kad_put_record N w r = (x, w') \<Longrightarrow> grows L w w'"
    and "card_send_request N w p cm = (i, w') \<Longrightarrow> i \<notin> lg_cards L w \<and> i \<in> lg_cards L w' \<and> grows L w w'"
    and "acl_send_request N w p am = (i, w') \<Longrightarrow> i \<notin> lg_acls L w \<and> i \<in> lg_acls L w' \<and> grows L w w'"
    and "sys_uuid N w = (u, w') \<Longrightarrow> u \<notin> lg_uuids L w \<and> u \<in> lg_uuids L w' \<and> grows L w w'"
    and "sys_clock N w = (t, w') \<Longrightarrow> grows L w w'"
    and "sys_instant N w = (n, w') \<Longrightarrow> grows L w w'"
    and "sql_outcome N w = (e, w') \<Longrightarrow> grows L w w'"
    and "grows L w (kad_add_address N w p a)" and "grows L w (swarm_dial N w a)"
    and "grows L w (card_send_response N w ch cr)" and "grows L w (acl_send_response N w ch am)"
  using assms unfolding net_fresh_def by - (elim conjE, metis)+

lemma ids_ok_grows: "ids_ok L w pl pc r1 r2 rq \<Longrightarrow> grows L w w' \<Longrightarrow> ids_ok L w' pl pc r1 r2 rq"
  by (auto simp: ids_ok_def grows_def)

lemma unit_vec_ok: "unit_vec v \<Longrightarrow> (of_nat (length v) :: u32) = CANONICAL_EMBEDDING_DIM \<Longrightarrow> vec_ok v"
  using dim_length_exact [of "length v"] by (simp add: unit_vec_def vec_ok_def)

lemma card_ok_intro:
  assumes "capability_verify X c = Ok ()" "\<And>e. card_embedding c = Some e \<Longrightarrow> unit_vec (emb_vector e)"
  shows "card_ok X c"
  using assms unit_vec_ok by (auto simp: card_ok_def capability_verify_Ok_iff)

lemma rankable_ok:
  assumes "vec_ok q" "\<And>c. c \<in> set cs \<Longrightarrow> card_ok X c"
  shows "rankable q cs"
proof -
  have "length (emb_vector e) = length q \<and> \<not> is_nan (dot q (emb_vector e))"
    if "c \<in> set cs" "card_embedding c = Some e" for c e
    using assms(1) assms(2) [OF that(1)] that(2) dot_within [of q "emb_vector e"] f_within_not_nan
    by (auto simp: card_ok_def vec_ok_def)
  then show ?thesis by (auto simp: rankable_def)
qed

lemma can_sealD:
  assumes "can_seal X i"
  shows "acl_build X t u (acl_new i conv) perf ont irt pl \<noteq> Err e"
    and "receipt_build X t i conv cap a b st \<noteq> Err e"
    and "verify_record X d \<noteq> Panic p"
  using assms acl_build_Ok [of X "acl_new i conv" t u perf ont irt pl] receipt_build_Ok [of X i t conv cap a b st]
    verify_record_no_panic [of X d p] by (auto simp: can_seal_def acl_new_def)

section \<open>Outcomes of the handlers\<close>

lemmas effect_defs = emit_def reply_publish_def reply_intent_def upd_metrics_def

text \<open>What becomes of a chosen candidate: its REQUEST cannot be signed, or is sent.\<close>

lemma chosen_request_cases [consumes 6, case_names failed sent]:
  assumes "maybe_send_request X N conv s = (r, s')" "st_requesters s conv = Some req"
    and "\<not> (rs_request_sent req \<or> rs_outstanding_dht_queries req \<noteq> {} \<or> rs_in_flight_card_fetches req \<noteq> {})"
    and "rerank (sort_unspecified N) (rs_required req) (rs_query_vector req) (rs_fetched_cards req) = (Ok scored :: (ScoredCandidate list, anyhow) exec)"
    and "find sc_passed_filter scored = Some best" "pid_parse X (card_agent_id (sc_card best)) = Some provider"
  obtains t w1 u w2 e where "sys_clock N (st_swarm s) = (t, w1)" "sys_uuid N w1 = (u, w2)"
      "\<not> can_seal X (st_identity s)" "r = Err (Core e)" "s' = s\<lparr>st_swarm := w2,
         st_requesters := (st_requesters s)(conv \<mapsto> req\<lparr>rs_fetched_cards := []\<rparr>)\<rparr>"
  | t w1 u w2 now w3 msg rid w4 where "r = Ok ()" "sys_clock N (st_swarm s) = (t, w1)" "sys_uuid N w1 = (u, w2)"
      "acl_request X t u (acl_new (st_identity s) conv) ECHO_ONTOLOGY (rs_intent req) = Ok msg"
      "sys_instant N w2 = (now, w3)" "acl_send_request N w3 provider msg = (rid, w4)"
      "s' = (upd_metrics (\<lambda>m. m\<lparr>match_accept_total := match_accept_total m + 1,
           directory_lookup_samples := directory_lookup_samples m @ [now - rs_started_at req]\<rparr>)
         (s\<lparr>st_requesters := (st_requesters s)(conv \<mapsto> req\<lparr>rs_fetched_cards := [], rs_request_sent := True,
             rs_provider_peer := Some provider,
             rs_chosen_capability_id := Some (card_capability_id (sc_card best)),
             rs_chosen_score := sc_score best\<rparr>)\<rparr>))
         \<lparr>st_swarm := w4, st_pending_acl_round1 := (st_pending_acl_round1 s)(rid \<mapsto> conv)\<rparr>"
proof -
  obtain t w1 where tw: "sys_clock N (st_swarm s) = (t, w1)" by force
  obtain u w2 where uw: "sys_uuid N w1 = (u, w2)" by force
  obtain now w3 where nw: "sys_instant N w2 = (now, w3)" by force
  show thesis
  proof (cases "acl_request X t u (acl_new (st_identity s) conv) ECHO_ONTOLOGY (rs_intent req)")
    case m: (Ok msg)
    obtain rid w4 where rw: "acl_send_request N w3 provider msg = (rid, w4)" by force
    show thesis using assms tw uw nw m rw that(2) [of t w1 u w2 msg now w3 rid w4]
      by (simp add: maybe_send_request_def upd_metrics_def)
  next
    case (Err e)
    then show thesis using assms tw uw that(1) [of t w1 u w2 e]
      by (auto simp: maybe_send_request_def acl_request_def dest: can_sealD(1))
  qed (simp add: acl_request_def)
qed

text \<open>What sending the REQUEST can do, case by case.\<close>

lemma maybe_send_request_cases [consumes 1, case_names idle panic nomatch badpeer failed sent]:
  assumes "maybe_send_request X N conv s = (r, s')"
  obtains "r = Ok ()" "s' = s"
      "\<forall>req. st_requesters s conv = Some req \<longrightarrow> rs_request_sent req \<or>
         rs_outstanding_dht_queries req \<noteq> {} \<or> rs_in_flight_card_fetches req \<noteq> {}"
  | req p where "st_requesters s conv = Some req" "s' = s"
      "(\<exists>e. rerank (sort_unspecified N) (rs_required req) (rs_query_vector req) (rs_fetched_cards req) = (Err e :: (ScoredCandidate list, anyhow) exec) \<and> r = Err e) \<or>
       (rerank (sort_unspecified N) (rs_required req) (rs_query_vector req) (rs_fetched_cards req) = (Panic p :: (ScoredCandidate list, anyhow) exec) \<and> r = Panic p)"
  | req scored where "st_requesters s conv = Some req" "r = Ok ()" "\<not> rs_request_sent req"
      "rerank (sort_unspecified N) (rs_required req) (rs_query_vector req) (rs_fetched_cards req) = (Ok scored :: (ScoredCandidate list, anyhow) exec)"
      "find sc_passed_filter scored = None"
      "s' = (reply_intent (rs_reply req) (Err (Msg ''no matching capability'')) s)
         \<lparr>st_requesters := (st_requesters s)(conv := None)\<rparr>"
  | req scored best where "st_requesters s conv = Some req"
      "rerank (sort_unspecified N) (rs_required req) (rs_query_vector req) (rs_fetched_cards req) = (Ok scored :: (ScoredCandidate list, anyhow) exec)"
      "find sc_passed_filter scored = Some best" "pid_parse X (card_agent_id (sc_card best)) = None"
      "r = Err (PeerIdParse (card_agent_id (sc_card best)))"
      "s' = s\<lparr>st_requesters := (st_requesters s)(conv \<mapsto> req\<lparr>rs_fetched_cards := []\<rparr>)\<rparr>"
  | req t w1 u w2 e where "st_requesters s conv = Some req"
      "sys_clock N (st_swarm s) = (t, w1)" "sys_uuid N w1 = (u, w2)"
      "\<not> can_seal X (st_identity s)" "r = Err (Core e)" "s' = s\<lparr>st_swarm := w2,
         st_requesters := (st_requesters s)(conv \<mapsto> req\<lparr>rs_fetched_cards := []\<rparr>)\<rparr>"
  | req scored best provider t w1 u w2 now w3 msg rid w4 where
      "st_requesters s conv = Some req" "r = Ok ()"
      "\<not> rs_request_sent req" "rs_outstanding_dht_queries req = {}" "rs_in_flight_card_fetches req = {}"
      "rerank (sort_unspecified N) (rs_required req) (rs_query_vector req) (rs_fetched_cards req) = (Ok scored :: (ScoredCandidate list, anyhow) exec)"
      "find sc_passed_filter scored = Some best"
      "pid_parse X (card_agent_id (sc_card best)) = Some provider"
      "sys_clock N (st_swarm s) = (t, w1)" "sys_uuid N w1 = (u, w2)"
      "acl_request X t u (acl_new (st_identity s) conv) ECHO_ONTOLOGY (rs_intent req) = Ok msg"
      "sys_instant N w2 = (now, w3)" "acl_send_request N w3 provider msg = (rid, w4)"
      "s' = (upd_metrics (\<lambda>m. m\<lparr>match_accept_total := match_accept_total m + 1,
           directory_lookup_samples := directory_lookup_samples m @ [now - rs_started_at req]\<rparr>)
         (s\<lparr>st_requesters := (st_requesters s)(conv \<mapsto> req\<lparr>rs_fetched_cards := [], rs_request_sent := True,
             rs_provider_peer := Some provider,
             rs_chosen_capability_id := Some (card_capability_id (sc_card best)),
             rs_chosen_score := sc_score best\<rparr>)\<rparr>))
         \<lparr>st_swarm := w4, st_pending_acl_round1 := (st_pending_acl_round1 s)(rid \<mapsto> conv)\<rparr>"
proof (cases "\<exists>req. st_requesters s conv = Some req \<and>
    \<not> (rs_request_sent req \<or> rs_outstanding_dht_queries req \<noteq> {} \<or> rs_in_flight_card_fetches req \<noteq> {})")
  case False
  then show thesis using assms that(1) by (auto simp: maybe_send_request_def split: option.splits)
next
  case True
  then obtain req where req: "st_requesters s conv = Some req"
    "\<not> (rs_request_sent req \<or> rs_outstanding_dht_queries req \<noteq> {} \<or> rs_in_flight_card_fetches req \<noteq> {})" by blast
  let ?rr = "rerank (sort_unspecified N) (rs_required req) (rs_query_vector req) (rs_fetched_cards req)
    :: (ScoredCandidate list, anyhow) exec"
  show thesis
  proof (cases ?rr)
    case (Ok scored)
    consider (none) "find sc_passed_filter scored = None"
      | (bad) best where "find sc_passed_filter scored = Some best" "pid_parse X (card_agent_id (sc_card best)) = None"
      | (chosen) best provider where "find sc_passed_filter scored = Some best"
          "pid_parse X (card_agent_id (sc_card best)) = Some provider" by fastforce
    then show thesis
    proof cases
      case none
      then show thesis using assms req Ok that(3) [of req scored] by (simp add: maybe_send_request_def)
    next
      case bad
      then show thesis using assms req Ok that(4) [of req scored best] by (simp add: maybe_send_request_def)
    next
      case chosen
      from assms req Ok chosen show thesis
      proof (cases rule: chosen_request_cases)
        case (failed t w1 u w2 e)
        then show thesis using that(5) [of req t w1 u w2 e] req(1) by blast
      next
        case (sent t w1 u w2 now w3 msg rid w4)
        then show thesis using that(6) [of req scored best provider t w1 u w2 msg now w3 rid w4] req Ok chosen by blast
      qed
    qed
  next
    case (Err e)
    then show thesis using assms req that(2) [of req] by (simp add: maybe_send_request_def)
  next
    case (Panic p)
    then show thesis using assms req that(2) [of req p] by (simp add: maybe_send_request_def)
  qed
qed

section \<open>Preservation\<close>

lemma loop_invD:
  assumes "loop_inv X L s"
  shows "st_requesters s conv = Some req \<Longrightarrow> req_ok X (st_pending_lookups s) (st_pending_card_fetches s)
      (st_pending_acl_round1 s) (st_pending_acl_round2 s) conv req"
    and "ids_ok L (st_swarm s) (st_pending_lookups s) (st_pending_card_fetches s)
      (st_pending_acl_round1 s) (st_pending_acl_round2 s) (st_requesters s)"
    and "one_acl (st_pending_acl_round1 s) (st_pending_acl_round2 s)"
    and "lsh_wf (st_lsh s)" and "lp_dim (lsh_params (st_lsh s)) = CANONICAL_EMBEDDING_DIM"
    and "lp_l (lsh_params (st_lsh s)) \<noteq> 0"
  using assms by (simp_all add: loop_inv_def)

text \<open>The invariant reads neither the replies nor the metrics nor the providers nor the acknowledgements.\<close>

lemma loop_inv_effects [simp]:
  "loop_inv X L (reply_intent ch v s) = loop_inv X L s"
  "loop_inv X L (reply_publish ch u s) = loop_inv X L s"
  "loop_inv X L (upd_metrics f s) = loop_inv X L s"
  "loop_inv X L (s\<lparr>st_providers := pv\<rparr>) = loop_inv X L s"
  "loop_inv X L (s\<lparr>st_pending_publish_acks := pa\<rparr>) = loop_inv X L s"
  "loop_inv X L (s\<lparr>st_known_peers := kp\<rparr>) = loop_inv X L s"
  "loop_inv X L (s\<lparr>st_receipts := db\<rparr>) = loop_inv X L s"
  "loop_inv X L (s\<lparr>st_event_receiver_open := b\<rparr>) = loop_inv X L s"
  by (simp_all add: loop_inv_def effect_defs)

lemma loop_inv_events [simp]:
  "loop_inv X L s \<Longrightarrow> loop_inv X L (emit ev s)"
  "loop_inv X L s \<Longrightarrow> loop_inv X L (s\<lparr>st_events := tl (st_events s)\<rparr>)"
  by (auto simp: loop_inv_def emit_def)

lemma loop_inv_swarm: "loop_inv X L s \<Longrightarrow> grows L (st_swarm s) w \<Longrightarrow> loop_inv X L (s\<lparr>st_swarm := w\<rparr>)"
  by (auto simp: loop_inv_def intro: ids_ok_grows)

lemma loop_inv_remove_req: "loop_inv X L s \<Longrightarrow> loop_inv X L (s\<lparr>st_requesters := (st_requesters s)(conv := None)\<rparr>)"
  by (auto simp: loop_inv_def ids_ok_def)

lemma loop_inv_clear_cards:
  assumes "loop_inv X L s" "st_requesters s conv = Some req"
  shows "loop_inv X L (s\<lparr>st_requesters := (st_requesters s)(conv \<mapsto> req\<lparr>rs_fetched_cards := []\<rparr>)\<rparr>)"
  using assms by (auto simp: loop_inv_def ids_ok_def req_ok_def split: if_splits)

text \<open>Awaiting an answer in round one, or in round two, under a fresh request identifier.\<close>

lemma one_acl_round1:
  "one_acl r1 r2 \<Longrightarrow> r1 i = None \<Longrightarrow> c \<notin> ran r1 \<Longrightarrow> c \<notin> ran r2 \<Longrightarrow> one_acl (r1(i \<mapsto> c)) r2"
  unfolding one_acl_def by (auto simp: ran_map_upd) (auto simp: ran_def)

lemma one_acl_round2:
  "one_acl r1 r2 \<Longrightarrow> r2 i = None \<Longrightarrow> c \<notin> ran r1 \<Longrightarrow> c \<notin> ran r2 \<Longrightarrow> one_acl r1 (r2(i \<mapsto> c))"
  unfolding one_acl_def by (auto simp: ran_map_upd) (auto simp: ran_def)

lemma loop_inv_sent:
  assumes inv: "loop_inv X L s" and req: "st_requesters s conv = Some req" "\<not> rs_request_sent req"
    "rs_outstanding_dht_queries req = {}" "rs_in_flight_card_fetches req = {}"
    and w: "rid \<notin> lg_acls L (st_swarm s)" "rid \<in> lg_acls L w" "grows L (st_swarm s) w"
  shows "loop_inv X L (s\<lparr>st_requesters := (st_requesters s)(conv \<mapsto> req\<lparr>rs_fetched_cards := [], rs_request_sent := True,
             rs_provider_peer := Some provider, rs_chosen_capability_id := Some cap, rs_chosen_score := sc\<rparr>),
           st_swarm := w, st_pending_acl_round1 := (st_pending_acl_round1 s)(rid \<mapsto> conv)\<rparr>)"
proof -
  note rq = loop_invD(1) [OF inv] and ids = loop_invD(2) [OF inv] and one = loop_invD(3) [OF inv]
  have fresh: "st_pending_acl_round1 s rid = None" "conv \<in> lg_uuids L (st_swarm s)"
    using ids w(1) req(1) by (auto simp: ids_ok_def dom_def)
  have conv: "conv \<notin> ran (st_pending_acl_round1 s)" "conv \<notin> ran (st_pending_acl_round2 s)"
    using rq [OF req(1)] req(2) by (auto simp: req_ok_def)
  have "ids_ok L w (st_pending_lookups s) (st_pending_card_fetches s)
      ((st_pending_acl_round1 s)(rid \<mapsto> conv)) (st_pending_acl_round2 s) ((st_requesters s)(conv \<mapsto> r))" for r
    using ids_ok_grows [OF ids w(3)] fresh w req(1)
    by (auto simp: ids_ok_def ran_map_upd grows_def dom_def)
  moreover have "req_ok X (st_pending_lookups s) (st_pending_card_fetches s)
      ((st_pending_acl_round1 s)(rid \<mapsto> conv)) (st_pending_acl_round2 s) c r"
    if "st_requesters s c = Some r" "c \<noteq> conv" for c r
    using rq [OF that(1)] that(2) fresh(1) by (auto simp: req_ok_def ran_map_upd split: if_splits)
  moreover have "req_ok X (st_pending_lookups s) (st_pending_card_fetches s)
      ((st_pending_acl_round1 s)(rid \<mapsto> conv)) (st_pending_acl_round2 s) conv
      (req\<lparr>rs_fetched_cards := [], rs_request_sent := True, rs_provider_peer := Some provider,
        rs_chosen_capability_id := Some cap, rs_chosen_score := sc\<rparr>)"
    using rq [OF req(1)] req by (auto simp: req_ok_def)
  ultimately show ?thesis
    using inv one_acl_round1 [OF one fresh(1) conv] by (auto simp: loop_inv_def)
qed

lemma maybe_send_request_inv:
  assumes "net_fresh N L" "loop_inv X L s"
  shows "loop_inv X L (snd (maybe_send_request X N conv s))"
proof -
  obtain r s' where eq: "maybe_send_request X N conv s = (r, s')" by force
  from eq have "loop_inv X L s'"
  proof (cases rule: maybe_send_request_cases)
    case (nomatch req scored)
    then show ?thesis
      using loop_inv_remove_req [OF assms(2), of conv] by (simp add: loop_inv_def reply_intent_def)
  next
    case (badpeer req scored best)
    then show ?thesis using loop_inv_clear_cards assms(2) by simp
  next
    case (failed req t w1 u w2 e)
    have "grows L (st_swarm s) w2"
      using grows_trans [OF net_freshD(7) [OF assms(1) failed(2)]] net_freshD(6) [OF assms(1) failed(3)] by simp
    then have "loop_inv X L ((s\<lparr>st_requesters := (st_requesters s)(conv \<mapsto> req\<lparr>rs_fetched_cards := []\<rparr>)\<rparr>)\<lparr>st_swarm := w2\<rparr>)"
      using loop_inv_clear_cards [OF assms(2) failed(1)] by (intro loop_inv_swarm) simp_all
    then show ?thesis using failed by (simp add: loop_inv_def)
  next
    case (sent req scored best provider t w1 u w2 now w3 msg rid w4)
    have g: "grows L (st_swarm s) w3"
      using grows_trans [OF grows_trans [OF net_freshD(7) [OF assms(1) sent(9)]]
        net_freshD(8) [OF assms(1) sent(12)]] net_freshD(6) [OF assms(1) sent(10)] by simp
    have "rid \<notin> lg_acls L w3" "rid \<in> lg_acls L w4" "grows L w3 w4"
      using net_freshD(5) [OF assms(1) sent(13)] by auto
    then have w: "rid \<notin> lg_acls L (st_swarm s)" "rid \<in> lg_acls L w4" "grows L (st_swarm s) w4"
      using g grows_trans [OF g] by (auto simp: grows_def)
    show ?thesis using loop_inv_sent [OF assms(2) sent(1,3,4,5) w] sent(14)
      by (simp add: loop_inv_def upd_metrics_def)
  qed (use assms(2) in simp_all)
  then show ?thesis using eq by simp
qed


lemma ran_upd_None_subset: "ran (m(k := None)) \<subseteq> ran m"
  by (auto simp: ran_def split: if_splits)

text \<open>The state of a finished lookup before the REQUEST is considered.\<close>

definition lookup_done :: "QueryId \<Rightarrow> string \<Rightarrow> 'w State \<Rightarrow> 'w State" where
  "lookup_done qid conv s = s\<lparr>st_pending_lookups := (st_pending_lookups s)(qid := None),
     st_requesters := (case st_requesters s conv of None \<Rightarrow> st_requesters s | Some req \<Rightarrow>
       (st_requesters s)(conv \<mapsto> req\<lparr>rs_outstanding_dht_queries := rs_outstanding_dht_queries req - {qid}\<rparr>))\<rparr>"

lemma finish_lookup_eq:
  "finish_lookup X N qid s = (case st_pending_lookups s qid of None \<Rightarrow> (Ok (), s)
     | Some conv \<Rightarrow> maybe_send_request X N conv (lookup_done qid conv s))"
  by (simp add: finish_lookup_def lookup_done_def Let_def split: option.splits)

lemma lookup_done_inv:
  assumes "loop_inv X L s" "st_pending_lookups s qid = Some conv"
  shows "loop_inv X L (lookup_done qid conv s)"
proof -
  let ?pl = "(st_pending_lookups s)(qid := None)"
  let ?rq = "case st_requesters s conv of None \<Rightarrow> st_requesters s | Some req \<Rightarrow>
    (st_requesters s)(conv \<mapsto> req\<lparr>rs_outstanding_dht_queries := rs_outstanding_dht_queries req - {qid}\<rparr>)"
  have "req_ok X ?pl (st_pending_card_fetches s) (st_pending_acl_round1 s) (st_pending_acl_round2 s) c r"
    if rq: "?rq c = Some r" for c r
  proof (cases "c = conv")
    case True
    then obtain q where q: "st_requesters s conv = Some q"
      using rq by (cases "st_requesters s conv") simp_all
    then have "r = q\<lparr>rs_outstanding_dht_queries := rs_outstanding_dht_queries q - {qid}\<rparr>"
      using rq True by simp
    then show ?thesis using loop_invD(1) [OF assms(1) q] True
      by (auto simp: req_ok_def split: if_splits)
  next
    case False
    then have "st_requesters s c = Some r" using rq by (auto split: option.splits)
    from loop_invD(1) [OF assms(1) this] show ?thesis using False assms(2)
      by (auto simp: req_ok_def split: if_splits)
  qed
  moreover have "ids_ok L (st_swarm s) ?pl (st_pending_card_fetches s) (st_pending_acl_round1 s)
      (st_pending_acl_round2 s) ?rq"
    using loop_invD(2) [OF assms(1)] ran_upd_None_subset [of "st_pending_lookups s" qid]
    by (auto simp: ids_ok_def split: option.splits)
  ultimately show ?thesis using assms(1) by (simp add: loop_inv_def lookup_done_def)
qed

lemma finish_lookup_inv:
  assumes "net_fresh N L" "loop_inv X L s"
  shows "loop_inv X L (snd (finish_lookup X N qid s))"
  using assms(2) maybe_send_request_inv [OF assms(1)] lookup_done_inv [OF assms(2)]
  by (simp add: finish_lookup_eq split: option.splits)

lemma loop_inv_fetching:
  assumes inv: "loop_inv X L s" and req: "st_requesters s conv = Some req" "\<not> rs_request_sent req"
    and w: "i \<notin> lg_cards L (st_swarm s)" "i \<in> lg_cards L w" "grows L (st_swarm s) w"
  shows "loop_inv X L (s\<lparr>st_swarm := w, st_requesters := (st_requesters s)(conv \<mapsto>
      req\<lparr>rs_seen_capability_ids := ids, rs_in_flight_card_fetches := insert i (rs_in_flight_card_fetches req)\<rparr>),
      st_pending_card_fetches := (st_pending_card_fetches s)(i \<mapsto> conv)\<rparr>)"
proof -
  note rq = loop_invD(1) [OF inv] and ids = loop_invD(2) [OF inv]
  let ?pc = "(st_pending_card_fetches s)(i \<mapsto> conv)"
  have fresh: "st_pending_card_fetches s i = None" "conv \<in> lg_uuids L (st_swarm s)"
    using ids w(1) req(1) by (auto simp: ids_ok_def dom_def)
  have "ids_ok L w (st_pending_lookups s) ?pc (st_pending_acl_round1 s) (st_pending_acl_round2 s)
      ((st_requesters s)(conv \<mapsto> r))" for r
    using ids_ok_grows [OF ids w(3)] fresh w req(1) by (auto simp: ids_ok_def ran_map_upd grows_def dom_def)
  moreover have "req_ok X (st_pending_lookups s) ?pc (st_pending_acl_round1 s) (st_pending_acl_round2 s) c r"
    if "st_requesters s c = Some r" "c \<noteq> conv" for c r
    using rq [OF that(1)] that(2) fresh(1) by (auto simp: req_ok_def split: if_splits)
  moreover have "req_ok X (st_pending_lookups s) ?pc (st_pending_acl_round1 s) (st_pending_acl_round2 s) conv
      (req\<lparr>rs_seen_capability_ids := ids, rs_in_flight_card_fetches := insert i (rs_in_flight_card_fetches req)\<rparr>)"
    using rq [OF req(1)] req fresh(1) by (auto simp: req_ok_def)
  ultimately show ?thesis using inv by (auto simp: loop_inv_def)
qed

text \<open>
  What a directory hit can do: nothing, or fetch the card of a verified record seen for the
  first time. The peer identifier of a verified record always parses.
\<close>

lemma on_directory_hit_cases [consumes 1, case_names ignored fetch]:
  assumes "on_directory_hit X N record conv s = (r, s')"
  obtains "s' = s" "r = Ok () \<or> \<not> can_seal X (st_identity s)"
  | req dir peer i w where "r = Ok ()" "st_requesters s conv = Some req"
      "dec_dir X (kr_value record) = Inr dir" "dir_model_id dir = CANONICAL_MODEL_ID"
      "verify_record X dir = Ok ()" "dir_capability_id dir \<notin> rs_seen_capability_ids req"
      "pid_parse X (dir_peer_id dir) = Some peer"
      "card_send_request N (st_swarm s) peer \<lparr>cr_capability_id = dir_capability_id dir\<rparr> = (i, w)"
      "s' = s\<lparr>st_swarm := w, st_requesters := (st_requesters s)(conv \<mapsto>
         req\<lparr>rs_seen_capability_ids := insert (dir_capability_id dir) (rs_seen_capability_ids req),
           rs_in_flight_card_fetches := insert i (rs_in_flight_card_fetches req)\<rparr>),
         st_pending_card_fetches := (st_pending_card_fetches s)(i \<mapsto> conv)\<rparr>"
proof -
  show thesis
  proof (cases "\<exists>dir req. dec_dir X (kr_value record) = Inr dir \<and> dir_model_id dir = CANONICAL_MODEL_ID \<and>
      verify_record X dir = Ok () \<and> st_requesters s conv = Some req \<and> dir_capability_id dir \<notin> rs_seen_capability_ids req")
    case True
    then obtain dir req where d: "dec_dir X (kr_value record) = Inr dir" "dir_model_id dir = CANONICAL_MODEL_ID"
      "verify_record X dir = Ok ()" "st_requesters s conv = Some req" "dir_capability_id dir \<notin> rs_seen_capability_ids req"
      by blast
    obtain peer where peer: "pid_parse X (dir_peer_id dir) = Some peer" using verify_record_peer [OF d(3)] by blast
    obtain i w where iw: "card_send_request N (st_swarm s) peer \<lparr>cr_capability_id = dir_capability_id dir\<rparr> = (i, w)"
      by force
    show ?thesis using assms d peer iw that(2) [of req dir peer i w]
      by (simp add: on_directory_hit_def)
  next
    case False
    then have "s' = s \<and> (r = Ok () \<or> \<not> can_seal X (st_identity s))"
      using assms can_sealD(3) [of X "st_identity s"]
      by (auto simp: on_directory_hit_def split: sum.splits if_splits exec.splits option.splits)
    then show ?thesis using that(1) by blast
  qed
qed

lemma on_directory_hit_inv:
  assumes "net_fresh N L" "loop_inv X L s" "conv \<in> ran (st_pending_lookups s)"
  shows "loop_inv X L (snd (on_directory_hit X N record conv s))"
proof -
  obtain r s' where eq: "on_directory_hit X N record conv s = (r, s')" by force
  from eq have "loop_inv X L s'"
  proof (cases rule: on_directory_hit_cases)
    case (fetch req dir peer i w)
    have "\<not> rs_request_sent req"
      using loop_invD(1) [OF assms(2) fetch(2)] assms(3) by (auto simp: req_ok_def ran_def)
    then show ?thesis
      using loop_inv_fetching [OF assms(2) fetch(2)] net_freshD(4) [OF assms(1) fetch(8)] fetch(9) by simp
  qed (use assms(2) in simp)
  then show ?thesis using eq by simp
qed

lemma grows_foldl: "(\<And>w x. grows L w (f w x)) \<Longrightarrow> grows L w (foldl f w xs)"
  by (induction xs arbitrary: w) (auto intro: grows_trans)

lemma handle_identify_inv:
  assumes "net_fresh N L" "loop_inv X L s"
  shows "loop_inv X L (handle_identify N ev s)"
  using assms(2) by (cases ev) (auto intro!: loop_inv_swarm grows_foldl net_freshD(10) [OF assms(1)])

lemma handle_mdns_inv:
  assumes "net_fresh N L" "loop_inv X L s"
  shows "loop_inv X L (handle_mdns N ev s)"
  using assms(2) by (cases ev) (auto intro!: loop_inv_swarm grows_foldl net_freshD(11) [OF assms(1)])

lemma loop_inv_fetched:
  assumes inv: "loop_inv X L s" and pc: "st_pending_card_fetches s i = Some conv"
    and req: "st_requesters s conv = Some req" and cs: "\<forall>c\<in>set cs. card_ok X c"
  shows "loop_inv X L (s\<lparr>st_pending_card_fetches := (st_pending_card_fetches s)(i := None),
      st_requesters := (st_requesters s)(conv \<mapsto>
        req\<lparr>rs_in_flight_card_fetches := rs_in_flight_card_fetches req - {i},
          rs_fetched_cards := rs_fetched_cards req @ cs\<rparr>)\<rparr>)"
proof -
  note rq = loop_invD(1) [OF inv]
  let ?pc = "(st_pending_card_fetches s)(i := None)"
  have "ids_ok L (st_swarm s) (st_pending_lookups s) ?pc (st_pending_acl_round1 s) (st_pending_acl_round2 s)
      ((st_requesters s)(conv \<mapsto> r))" for r
    using loop_invD(2) [OF inv] req ran_upd_None_subset [of "st_pending_card_fetches s" i]
    by (auto simp: ids_ok_def)
  moreover have "req_ok X (st_pending_lookups s) ?pc (st_pending_acl_round1 s) (st_pending_acl_round2 s) c r"
    if "st_requesters s c = Some r" "c \<noteq> conv" for c r
    using rq [OF that(1)] that(2) pc by (auto simp: req_ok_def split: if_splits)
  moreover have "req_ok X (st_pending_lookups s) ?pc (st_pending_acl_round1 s) (st_pending_acl_round2 s) conv
      (req\<lparr>rs_in_flight_card_fetches := rs_in_flight_card_fetches req - {i},
        rs_fetched_cards := rs_fetched_cards req @ cs\<rparr>)"
    using rq [OF req] cs by (auto simp: req_ok_def split: if_splits)
  ultimately show ?thesis using inv by (auto simp: loop_inv_def)
qed

text \<open>The cards that a card response adds to the conversation: only a verified one.\<close>

definition response_cards :: "ext \<Rightarrow> CardResponse \<Rightarrow> CapabilityCard list" where
  "response_cards X response = (case response of
     Found crd \<Rightarrow> if is_ok (capability_verify X crd) then [crd] else [] | NotFound \<Rightarrow> [])"

text \<open>The state of an answered card fetch before the REQUEST is considered.\<close>

definition card_done :: "ext \<Rightarrow> OutboundRequestId \<Rightarrow> string \<Rightarrow> RequesterState \<Rightarrow> CardResponse \<Rightarrow> 'w State \<Rightarrow> 'w State" where
  "card_done X i conv req response s = s\<lparr>st_pending_card_fetches := (st_pending_card_fetches s)(i := None),
      st_requesters := (st_requesters s)(conv \<mapsto>
        req\<lparr>rs_in_flight_card_fetches := rs_in_flight_card_fetches req - {i},
          rs_fetched_cards := rs_fetched_cards req @ response_cards X response\<rparr>)\<rparr>"

lemma handle_card_response_eq:
  assumes "st_pending_card_fetches s i = Some conv" "st_requesters s conv = Some req"
  shows "handle_card_response X N i response s =
    (if rs_outstanding_dht_queries req = {} \<and> rs_in_flight_card_fetches req - {i} = {}
     then maybe_send_request X N conv (card_done X i conv req response s)
     else (Ok (), card_done X i conv req response s))"
  using assms
  by (cases response) (auto simp: handle_card_response_def response_cards_def card_done_def Let_def)

lemma card_done_inv:
  assumes "loop_inv X L s" "st_pending_card_fetches s i = Some conv" "st_requesters s conv = Some req"
    and "input_ok (InSwarm (BehaviourCard (CardResponseMessage i response)))"
  shows "loop_inv X L (card_done X i conv req response s)"
proof -
  have "\<forall>c\<in>set (response_cards X response). card_ok X c"
    using assms(4) card_ok_intro [of X]
    by (auto simp: response_cards_def is_ok_iff split: CardResponse.splits if_splits exec.splits)
  from loop_inv_fetched [OF assms(1-3) this] show ?thesis by (simp add: card_done_def)
qed

text \<open>An answer for a conversation that is over only clears the bookkeeping.\<close>

lemma loop_inv_drop_fetch:
  assumes "loop_inv X L s" "st_pending_card_fetches s i = Some conv" "st_requesters s conv = None"
  shows "loop_inv X L (s\<lparr>st_pending_card_fetches := (st_pending_card_fetches s)(i := None)\<rparr>)"
proof -
  let ?pc = "(st_pending_card_fetches s)(i := None)"
  have "req_ok X (st_pending_lookups s) ?pc (st_pending_acl_round1 s) (st_pending_acl_round2 s) c r"
    if "st_requesters s c = Some r" for c r
    using loop_invD(1) [OF assms(1) that] that assms(2,3) by (auto simp: req_ok_def split: if_splits)
  moreover have "ids_ok L (st_swarm s) (st_pending_lookups s) ?pc (st_pending_acl_round1 s)
      (st_pending_acl_round2 s) (st_requesters s)"
    using loop_invD(2) [OF assms(1)] ran_upd_None_subset [of "st_pending_card_fetches s" i]
    by (auto simp: ids_ok_def)
  ultimately show ?thesis using assms(1) by (simp add: loop_inv_def)
qed

lemma handle_card_response_inv:
  assumes "net_fresh N L" "loop_inv X L s" "input_ok (InSwarm (BehaviourCard (CardResponseMessage i response)))"
  shows "loop_inv X L (snd (handle_card_response X N i response s))"
proof (cases "st_pending_card_fetches s i")
  case None
  then show ?thesis using assms(2) by (simp add: handle_card_response_def)
next
  case pc: (Some conv)
  show ?thesis
  proof (cases "st_requesters s conv")
    case None
    then show ?thesis using pc loop_inv_drop_fetch [OF assms(2) pc None]
      by (simp add: handle_card_response_def Let_def)
  next
    case req: (Some req)
    then show ?thesis using maybe_send_request_inv [OF assms(1)] card_done_inv [OF assms(2) pc req assms(3)]
      by (simp add: handle_card_response_eq [OF pc req])
  qed
qed

lemma grows_clock_uuid:
  "net_fresh N L \<Longrightarrow> sys_clock N w = (t, w1) \<Longrightarrow> sys_uuid N w1 = (u, w2) \<Longrightarrow> grows L w w2"
  using grows_trans net_freshD(6,7) by metis

text \<open>The provider's side: a REQUEST is ignored, cannot be answered, or is answered by a PROPOSE.\<close>

lemma handle_request_round1_cases [consumes 1, case_names ignored failed proposed]:
  assumes "handle_request_round1 X N peer msg ch s = (r, s')"
  obtains "r = Ok ()" "s' = s"
      "(\<nexists>intent. acl_payload msg = Some (PIntent intent)) \<or> hash_first N (st_swarm s) (st_local_cards s) = None"
  | t w1 u w2 e where "sys_clock N (st_swarm s) = (t, w1)" "sys_uuid N w1 = (u, w2)"
      "\<not> can_seal X (st_identity s)" "r = Err (Core e)" "s' = s\<lparr>st_swarm := w2\<rparr>"
  | intent cap t w1 u w2 m where "r = Ok ()" "acl_payload msg = Some (PIntent intent)"
      "hash_first N (st_swarm s) (st_local_cards s) = Some cap"
      "sys_clock N (st_swarm s) = (t, w1)" "sys_uuid N w1 = (u, w2)"
      "acl_propose X t u (acl_new (st_identity s) (acl_conversation_id msg)) (acl_ontology msg) (acl_message_id msg)
         \<lparr>pro_capability_id = cap, pro_provider_agent_id = pid_to_string X (peer_id X (st_identity s)),
          pro_quote = ''echo'', pro_expires_at_ns = 0\<rparr> = Ok m"
      "s' = s\<lparr>st_swarm := acl_send_response N w2 ch m, st_providers := (st_providers s)(acl_conversation_id msg \<mapsto>
         \<lparr>ps_requester_peer = peer, ps_capability_id = cap,
          ps_intent_payload = (if int_payload intent = [] then empty_payload else int_payload intent)\<rparr>)\<rparr>"
proof -
  show thesis
  proof (cases "\<exists>intent cap. acl_payload msg = Some (PIntent intent) \<and> hash_first N (st_swarm s) (st_local_cards s) = Some cap")
    case False
    then show ?thesis using assms that(1)
      by (auto simp: handle_request_round1_def split: option.splits Payload.splits)
  next
    case True
    then obtain intent cap where ic: "acl_payload msg = Some (PIntent intent)"
      "hash_first N (st_swarm s) (st_local_cards s) = Some cap" by blast
    obtain t w1 where tw: "sys_clock N (st_swarm s) = (t, w1)" by force
    obtain u w2 where uw: "sys_uuid N w1 = (u, w2)" by force
    let ?m = "acl_propose X t u (acl_new (st_identity s) (acl_conversation_id msg)) (acl_ontology msg) (acl_message_id msg)
         \<lparr>pro_capability_id = cap, pro_provider_agent_id = pid_to_string X (peer_id X (st_identity s)),
          pro_quote = ''echo'', pro_expires_at_ns = 0\<rparr>"
    show ?thesis
    proof (cases ?m)
      case (Ok m)
      then show ?thesis using assms ic tw uw that(3) [of intent cap t w1 u w2 m] by (simp add: handle_request_round1_def)
    next
      case (Err e)
      then show ?thesis using assms ic tw uw that(2) [of t w1 u w2 e]
        by (auto simp: handle_request_round1_def acl_propose_def dest: can_sealD(1))
    next
      case (Panic p)
      then show ?thesis by (simp add: acl_propose_def)
    qed
  qed
qed

lemma handle_request_round1_inv:
  assumes "net_fresh N L" "loop_inv X L s"
  shows "loop_inv X L (snd (handle_request_round1 X N peer msg ch s))"
proof -
  obtain r s' where eq: "handle_request_round1 X N peer msg ch s = (r, s')" by force
  from eq have "loop_inv X L s'"
  proof (cases rule: handle_request_round1_cases)
    case (failed t w1 u w2 e)
    then show ?thesis using loop_inv_swarm [OF assms(2)] grows_clock_uuid [OF assms(1)] by simp
  next
    case (proposed intent cap t w1 u w2 m)
    have "grows L (st_swarm s) (acl_send_response N w2 ch m)"
      using grows_trans [OF grows_clock_uuid [OF assms(1) proposed(4,5)] net_freshD(13) [OF assms(1)]] .
    then show ?thesis using loop_inv_swarm [OF assms(2)] proposed(7) by simp
  qed (use assms(2) in simp)
  then show ?thesis using eq by simp
qed

text \<open>What becomes of an INFORM that is sent: its receipt cannot be signed, cannot be stored, or is stored.\<close>

lemma informed_cases [consumes 5, case_names failed unstored completed]:
  assumes "handle_agree_round2 X N peer msg ch s = (r, s')" "st_providers s (acl_conversation_id msg) = Some prov"
    and "sys_clock N (st_swarm s) = (t, w1)" "sys_uuid N w1 = (u, w2)"
    and "acl_inform X t u (acl_new (st_identity s) (acl_conversation_id msg)) ECHO_ONTOLOGY (acl_message_id msg)
         \<lparr>res_conversation_id = acl_conversation_id msg, res_payload = ps_intent_payload prov,
          res_status = result_status_as_i32 ROk, res_error_message = ''''\<rparr> = Ok m"
  obtains w e where "r = Err (Core e)"
      "s' = s\<lparr>st_providers := (st_providers s)(acl_conversation_id msg := None), st_swarm := w\<rparr>"
      "\<not> can_seal X (st_identity s)"
      "\<And>L. net_fresh N L \<Longrightarrow> grows L (st_swarm s) w"
  | w w' x where "r = Err (Core (Store x))" "sql_outcome N w = (Some x, w')"
      "s' = s\<lparr>st_providers := (st_providers s)(acl_conversation_id msg := None), st_swarm := w'\<rparr>"
      "\<And>L. net_fresh N L \<Longrightarrow> grows L (st_swarm s) w'"
  | t' w4 w5 rec where "r = Ok ()"
      "sys_clock N (acl_send_response N w2 ch m) = (t', w4)"
      "receipt_build X t' (st_identity s) (acl_conversation_id msg) (ps_capability_id prov)
         (pid_to_string X (ps_requester_peer prov)) (pid_to_string X (peer_id X (st_identity s))) ROk = Ok rec"
      "sql_outcome N w4 = (None, w5)"
      "s' = upd_metrics (\<lambda>m. m\<lparr>receipts_total := receipts_total m + 1\<rparr>)
         (s\<lparr>st_providers := (st_providers s)(acl_conversation_id msg := None), st_swarm := w5,
            st_receipts := (st_receipts s)(acl_conversation_id msg \<mapsto> row_of rec None)\<rparr>)"
      "\<And>L. net_fresh N L \<Longrightarrow> grows L (st_swarm s) w5"
proof -
  obtain t' w4 where tw4: "sys_clock N (acl_send_response N w2 ch m) = (t', w4)" by force
  have g4: "grows L (st_swarm s) w4" if "net_fresh N L" for L
    using grows_trans [OF grows_clock_uuid [OF that assms(3,4)] grows_trans [OF net_freshD(13) [OF that] net_freshD(7) [OF that tw4]]] .
  show thesis
  proof (cases "receipt_build X t' (st_identity s) (acl_conversation_id msg) (ps_capability_id prov)
         (pid_to_string X (ps_requester_peer prov)) (pid_to_string X (peer_id X (st_identity s))) ROk")
    case (Err e)
    then show thesis using assms tw4 g4 that(1) [of e w4]
      by (auto simp: handle_agree_round2_def Let_def dest: can_sealD(2))
  next
    case r: (Ok rec)
    obtain e w5 where ew: "sql_outcome N w4 = (e, w5)" by force
    have g5: "grows L (st_swarm s) w5" if "net_fresh N L" for L
      using grows_trans [OF g4 [OF that] net_freshD(9) [OF that ew]] .
    show thesis
    proof (cases e)
      case None
      then show thesis using assms tw4 r ew g5 receipt_build_fields(1) [OF r] that(3) [of t' w4 rec w5]
        by (simp add: handle_agree_round2_def store_insert_def Let_def)
    next
      case (Some x)
      then show thesis using assms tw4 r ew g5 that(2) [of x w4 w5]
        by (simp add: handle_agree_round2_def store_insert_def Let_def)
    qed
  qed simp
qed

text \<open>
  An AGREE is ignored, or consumes the provider's state of its conversation: the answer or
  the receipt cannot be signed, the receipt cannot be stored, or all succeed.
\<close>

lemma handle_agree_round2_cases [consumes 1, case_names ignored failed unstored completed]:
  assumes "handle_agree_round2 X N peer msg ch s = (r, s')"
  obtains "r = Ok ()" "s' = s" "st_providers s (acl_conversation_id msg) = None"
  | w e where "r = Err (Core e)"
      "s' = s\<lparr>st_providers := (st_providers s)(acl_conversation_id msg := None), st_swarm := w\<rparr>"
      "\<not> can_seal X (st_identity s)"
      "\<And>L. net_fresh N L \<Longrightarrow> grows L (st_swarm s) w"
  | w w' x where "r = Err (Core (Store x))" "sql_outcome N w = (Some x, w')"
      "s' = s\<lparr>st_providers := (st_providers s)(acl_conversation_id msg := None), st_swarm := w'\<rparr>"
      "\<And>L. net_fresh N L \<Longrightarrow> grows L (st_swarm s) w'"
  | prov t w1 u w2 m t' w4 w5 rec where "r = Ok ()" "st_providers s (acl_conversation_id msg) = Some prov"
      "sys_clock N (st_swarm s) = (t, w1)" "sys_uuid N w1 = (u, w2)"
      "acl_inform X t u (acl_new (st_identity s) (acl_conversation_id msg)) ECHO_ONTOLOGY (acl_message_id msg)
         \<lparr>res_conversation_id = acl_conversation_id msg, res_payload = ps_intent_payload prov,
          res_status = result_status_as_i32 ROk, res_error_message = ''''\<rparr> = Ok m"
      "sys_clock N (acl_send_response N w2 ch m) = (t', w4)"
      "receipt_build X t' (st_identity s) (acl_conversation_id msg) (ps_capability_id prov)
         (pid_to_string X (ps_requester_peer prov)) (pid_to_string X (peer_id X (st_identity s))) ROk = Ok rec"
      "sql_outcome N w4 = (None, w5)"
      "s' = upd_metrics (\<lambda>m. m\<lparr>receipts_total := receipts_total m + 1\<rparr>)
         (s\<lparr>st_providers := (st_providers s)(acl_conversation_id msg := None), st_swarm := w5,
            st_receipts := (st_receipts s)(acl_conversation_id msg \<mapsto> row_of rec None)\<rparr>)"
      "\<And>L. net_fresh N L \<Longrightarrow> grows L (st_swarm s) w5"
proof (cases "st_providers s (acl_conversation_id msg)")
  case None
  then show thesis using assms that(1) by (simp add: handle_agree_round2_def)
next
  case prov: (Some prov)
  obtain t w1 where tw: "sys_clock N (st_swarm s) = (t, w1)" by force
  obtain u w2 where uw: "sys_uuid N w1 = (u, w2)" by force
  show thesis
  proof (cases "acl_inform X t u (acl_new (st_identity s) (acl_conversation_id msg)) ECHO_ONTOLOGY (acl_message_id msg)
         \<lparr>res_conversation_id = acl_conversation_id msg, res_payload = ps_intent_payload prov,
          res_status = result_status_as_i32 ROk, res_error_message = ''''\<rparr>")
    case (Err e)
    then show thesis using assms prov tw uw grows_clock_uuid [OF _ tw uw] that(2) [of e w2]
      by (auto simp: handle_agree_round2_def Let_def acl_inform_def dest: can_sealD(1))
  next
    case m: (Ok m)
    from assms prov tw uw m show thesis
    proof (cases rule: informed_cases)
      case (completed t' w4 w5 rec)
      then show thesis using that(4) [of prov t w1 u w2 m t' w4 rec w5] prov tw uw m by blast
    qed (use that(2,3) in blast)+
  qed (simp add: acl_inform_def)
qed

lemma handle_agree_round2_inv:
  assumes "net_fresh N L" "loop_inv X L s"
  shows "loop_inv X L (snd (handle_agree_round2 X N peer msg ch s))"
proof -
  obtain r s' where eq: "handle_agree_round2 X N peer msg ch s = (r, s')" by force
  have frame: "loop_inv X L (s\<lparr>st_providers := pv, st_swarm := w\<rparr>)" if "grows L (st_swarm s) w" for pv w
    using loop_inv_swarm [of X L "s\<lparr>st_providers := pv\<rparr>"] assms(2) that by simp
  from eq have "loop_inv X L s'"
    by (cases rule: handle_agree_round2_cases) (use assms frame in simp_all)
  then show ?thesis using eq by simp
qed

text \<open>The requester's side: a PROPOSE is answered by an AGREE, an INFORM completes the conversation.\<close>

lemma send_agree_cases [consumes 1, case_names ignored failed sent]:
  assumes "send_agree X N conv msg s = (r, s')"
  obtains "r = Ok ()" "s' = s" "st_requesters s conv = None \<or> (\<exists>req. st_requesters s conv = Some req \<and> rs_provider_peer req = None)"
  | t w1 u w2 e where "sys_clock N (st_swarm s) = (t, w1)" "sys_uuid N w1 = (u, w2)"
      "\<not> can_seal X (st_identity s)" "r = Err (Core e)" "s' = s\<lparr>st_swarm := w2\<rparr>"
  | req provider t w1 u w2 m i w3 where "r = Ok ()" "st_requesters s conv = Some req"
      "rs_provider_peer req = Some provider" "sys_clock N (st_swarm s) = (t, w1)" "sys_uuid N w1 = (u, w2)"
      "acl_agree X t u (acl_new (st_identity s) conv) ECHO_ONTOLOGY (acl_message_id msg)
         \<lparr>agr_conversation_id = conv,
          agr_capability_id = (case rs_chosen_capability_id req of Some c \<Rightarrow> c | None \<Rightarrow> '''')\<rparr> = Ok m"
      "acl_send_request N w2 provider m = (i, w3)"
      "s' = s\<lparr>st_swarm := w3, st_pending_acl_round2 := (st_pending_acl_round2 s)(i \<mapsto> conv)\<rparr>"
proof -
  show thesis
  proof (cases "\<exists>req provider. st_requesters s conv = Some req \<and> rs_provider_peer req = Some provider")
    case False
    then show ?thesis using assms that(1) by (auto simp: send_agree_def split: option.splits)
  next
    case True
    then obtain req provider where rp: "st_requesters s conv = Some req" "rs_provider_peer req = Some provider" by blast
    obtain t w1 where tw: "sys_clock N (st_swarm s) = (t, w1)" by force
    obtain u w2 where uw: "sys_uuid N w1 = (u, w2)" by force
    show ?thesis
    proof (cases "acl_agree X t u (acl_new (st_identity s) conv) ECHO_ONTOLOGY (acl_message_id msg)
         \<lparr>agr_conversation_id = conv,
          agr_capability_id = (case rs_chosen_capability_id req of Some c \<Rightarrow> c | None \<Rightarrow> '''')\<rparr>")
      case m: (Ok m)
      obtain i w3 where iw: "acl_send_request N w2 provider m = (i, w3)" by force
      show ?thesis using assms rp tw uw m iw that(3) [of req provider t w1 u w2 m i w3]
        by (simp add: send_agree_def)
    next
      case (Err e)
      then show ?thesis using assms rp tw uw that(2) [of t w1 u w2 e]
        by (auto simp: send_agree_def acl_agree_def dest: can_sealD(1))
    next
      case (Panic p)
      then show ?thesis by (simp add: acl_agree_def)
    qed
  qed
qed

lemma loop_inv_agreed:
  assumes inv: "loop_inv X L s" and req: "st_requesters s conv = Some req" "rs_request_sent req"
    and conv: "conv \<notin> ran (st_pending_acl_round1 s)" "conv \<notin> ran (st_pending_acl_round2 s)"
    and w: "i \<notin> lg_acls L (st_swarm s)" "i \<in> lg_acls L w" "grows L (st_swarm s) w"
  shows "loop_inv X L (s\<lparr>st_swarm := w, st_pending_acl_round2 := (st_pending_acl_round2 s)(i \<mapsto> conv)\<rparr>)"
proof -
  note rq = loop_invD(1) [OF inv] and ids = loop_invD(2) [OF inv] and one = loop_invD(3) [OF inv]
  let ?r2 = "(st_pending_acl_round2 s)(i \<mapsto> conv)"
  have fresh: "st_pending_acl_round2 s i = None" "conv \<in> lg_uuids L (st_swarm s)"
    using ids w(1) req(1) by (auto simp: ids_ok_def dom_def)
  have "ids_ok L w (st_pending_lookups s) (st_pending_card_fetches s) (st_pending_acl_round1 s) ?r2 (st_requesters s)"
    using ids_ok_grows [OF ids w(3)] fresh w by (auto simp: ids_ok_def ran_map_upd grows_def)
  moreover have "req_ok X (st_pending_lookups s) (st_pending_card_fetches s) (st_pending_acl_round1 s) ?r2 c r"
    if "st_requesters s c = Some r" for c r
    using rq [OF that] that req fresh(1) by (auto simp: req_ok_def ran_map_upd split: if_splits)
  ultimately show ?thesis using inv one_acl_round2 [OF one fresh(1) conv] by (auto simp: loop_inv_def)
qed

lemma ran_upd_None_subsetD: "x \<in> ran (m(k := None)) \<Longrightarrow> x \<in> ran m"
  using ran_upd_None_subset [of m k] by blast

lemma one_acl_remove:
  assumes "one_acl r1 r2"
  shows "one_acl (r1(i := None)) r2" and "one_acl r1 (r2(i := None))"
    and "r1 i = Some c \<Longrightarrow> c \<notin> ran (r1(i := None)) \<and> c \<notin> ran r2"
    and "r2 i = Some c \<Longrightarrow> c \<notin> ran (r2(i := None)) \<and> c \<notin> ran r1"
  using assms unfolding one_acl_def by (auto simp: ran_def split: if_splits)

text \<open>Taking an awaited request identifier out of either round keeps the invariant.\<close>

lemma loop_inv_take:
  assumes "loop_inv X L s"
  shows "loop_inv X L (s\<lparr>st_pending_acl_round1 := (st_pending_acl_round1 s)(i := None)\<rparr>)"
    and "loop_inv X L (s\<lparr>st_pending_acl_round2 := (st_pending_acl_round2 s)(i := None)\<rparr>)"
proof -
  note rq = loop_invD(1) [OF assms] and ids = loop_invD(2) [OF assms]
    and one = one_acl_remove(1,2) [OF loop_invD(3) [OF assms]]
  have "req_ok X (st_pending_lookups s) (st_pending_card_fetches s) ((st_pending_acl_round1 s)(i := None)) (st_pending_acl_round2 s) c r"
    "req_ok X (st_pending_lookups s) (st_pending_card_fetches s) (st_pending_acl_round1 s) ((st_pending_acl_round2 s)(i := None)) c r"
    if "st_requesters s c = Some r" for c r
    using rq [OF that] by (auto simp: req_ok_def dest: ran_upd_None_subsetD split: if_splits)
  moreover have "ids_ok L (st_swarm s) (st_pending_lookups s) (st_pending_card_fetches s)
      ((st_pending_acl_round1 s)(i := None)) (st_pending_acl_round2 s) (st_requesters s)"
    "ids_ok L (st_swarm s) (st_pending_lookups s) (st_pending_card_fetches s)
      (st_pending_acl_round1 s) ((st_pending_acl_round2 s)(i := None)) (st_requesters s)"
    using ids by (auto simp: ids_ok_def dest: ran_upd_None_subsetD)
  ultimately show "loop_inv X L (s\<lparr>st_pending_acl_round1 := (st_pending_acl_round1 s)(i := None)\<rparr>)"
    and "loop_inv X L (s\<lparr>st_pending_acl_round2 := (st_pending_acl_round2 s)(i := None)\<rparr>)"
    using assms one by (simp_all add: loop_inv_def)
qed

lemma send_agree_inv:
  assumes "net_fresh N L" "loop_inv X L s" "conv \<notin> ran (st_pending_acl_round1 s)" "conv \<notin> ran (st_pending_acl_round2 s)"
  shows "loop_inv X L (snd (send_agree X N conv msg s))"
proof -
  obtain r s' where eq: "send_agree X N conv msg s = (r, s')" by force
  from eq have "loop_inv X L s'"
  proof (cases rule: send_agree_cases)
    case (failed t w1 u w2 e)
    then show ?thesis using loop_inv_swarm [OF assms(2)] grows_clock_uuid [OF assms(1)] by simp
  next
    case (sent req provider t w1 u w2 m i w3)
    have "rs_request_sent req"
      using loop_invD(1) [OF assms(2) sent(2)] sent(3) by (auto simp: req_ok_def split: if_splits)
    moreover have "i \<notin> lg_acls L (st_swarm s)" "i \<in> lg_acls L w3" "grows L (st_swarm s) w3"
      using grows_clock_uuid [OF assms(1) sent(4,5)] net_freshD(5) [OF assms(1) sent(7)] grows_trans
      by (auto simp: grows_def)
    ultimately show ?thesis using loop_inv_agreed [OF assms(2) sent(2) _ assms(3,4)] sent(8) by simp
  qed (use assms(2) in simp)
  then show ?thesis using eq by simp
qed

lemma complete_intent_cases [consumes 1, case_names ignored failed unstored completed]:
  assumes "complete_intent X N provider conv inform s = (r, s')"
  obtains "r = Ok ()" "s' = s" "st_requesters s conv = None"
  | t w e where "\<not> can_seal X (st_identity s)" "sys_clock N (st_swarm s) = (t, w)" "r = Err (Core e)"
      "s' = s\<lparr>st_requesters := (st_requesters s)(conv := None), st_swarm := w\<rparr>"
  | t w1 w2 x where "r = Err (Core (Store x))" "sys_clock N (st_swarm s) = (t, w1)" "sql_outcome N w1 = (Some x, w2)"
      "s' = s\<lparr>st_requesters := (st_requesters s)(conv := None), st_swarm := w2\<rparr>"
  | req t w1 w2 rec cap where "r = Ok ()" "st_requesters s conv = Some req"
      "cap = (case rs_chosen_capability_id req of Some c \<Rightarrow> c | None \<Rightarrow> '''')"
      "sys_clock N (st_swarm s) = (t, w1)"
      "receipt_build X t (st_identity s) conv cap (pid_to_string X (peer_id X (st_identity s)))
         (pid_to_string X provider) ROk = Ok rec"
      "sql_outcome N w1 = (None, w2)"
      "s' = emit (IntentCompleted \<lparr>out_conversation_id = conv, out_matched_capability_id = cap,
             out_cosine_score = rs_chosen_score req\<rparr>)
           (reply_intent (rs_reply req) (Ok \<lparr>out_conversation_id = conv, out_matched_capability_id = cap,
             out_cosine_score = rs_chosen_score req\<rparr>)
           (upd_metrics (\<lambda>m. m\<lparr>receipts_total := receipts_total m + 1\<rparr>)
             (s\<lparr>st_requesters := (st_requesters s)(conv := None), st_swarm := w2,
                st_receipts := (st_receipts s)(conv \<mapsto> row_of rec (Some (acl_signature inform)))\<rparr>)))"
proof -
  show thesis
  proof (cases "st_requesters s conv")
    case None
    then show ?thesis using assms that(1) by (simp add: complete_intent_def)
  next
    case req: (Some req)
    obtain t w1 where tw: "sys_clock N (st_swarm s) = (t, w1)" by force
    define cap where "cap = (case rs_chosen_capability_id req of Some c \<Rightarrow> c | None \<Rightarrow> '''')"
    show ?thesis
    proof (cases "receipt_build X t (st_identity s) conv cap (pid_to_string X (peer_id X (st_identity s)))
         (pid_to_string X provider) ROk")
      case (Err e)
      then show ?thesis using assms req tw that(2) [of t w1 e]
        by (auto simp: complete_intent_def Let_def cap_def dest: can_sealD(2))
    next
      case (Panic p)
      then show ?thesis by simp
    next
      case r: (Ok rec)
      obtain e w2 where ew: "sql_outcome N w1 = (e, w2)" by force
      show ?thesis
      proof (cases e)
        case None
        then show ?thesis using assms req tw r ew receipt_build_fields(1) [OF r] that(4) [of req cap t w1 rec w2]
          by (simp add: complete_intent_def store_insert_def Let_def cap_def)
      next
        case (Some x)
        then show ?thesis using assms req tw r ew that(3) [of x t w1 w2]
          by (simp add: complete_intent_def store_insert_def Let_def cap_def)
      qed
    qed
  qed
qed

lemma complete_intent_inv:
  assumes "net_fresh N L" "loop_inv X L s"
  shows "loop_inv X L (snd (complete_intent X N provider conv inform s))"
proof -
  obtain r s' where eq: "complete_intent X N provider conv inform s = (r, s')" by force
  have frame: "loop_inv X L (s\<lparr>st_requesters := (st_requesters s)(conv := None), st_swarm := w\<rparr>)"
    if "grows L (st_swarm s) w" for w
    using loop_inv_swarm [OF loop_inv_remove_req [OF assms(2), of conv]] that by simp
  have two: "grows L w w2" if "sys_clock N w = (t, w1)" "sql_outcome N w1 = (x, w2)" for w t w1 x w2
    using grows_trans [OF net_freshD(7) [OF assms(1) that(1)] net_freshD(9) [OF assms(1) that(2)]] .
  from eq have "loop_inv X L s'"
    by (cases rule: complete_intent_cases) (use assms frame two net_freshD(7) [OF assms(1)] in simp_all)
  then show ?thesis using eq by simp
qed

lemma on_acl_response_inv:
  assumes "net_fresh N L" "loop_inv X L s"
  shows "loop_inv X L (snd (on_acl_response X N peer i msg s))"
proof (cases "is_ok (acl_verify X msg)")
  case ok: True
  note take = loop_inv_take [OF assms(2), of i] and one = one_acl_remove(3) [OF loop_invD(3) [OF assms(2)]]
  show ?thesis
  proof (cases "st_pending_acl_round1 s i")
    case (Some conv)
    then show ?thesis using ok take one [OF Some] send_agree_inv [OF assms(1) take(1), of conv]
      by (simp add: on_acl_response_def Let_def)
  next
    case None
    then show ?thesis using ok take(2) assms(2) complete_intent_inv [OF assms(1) take(2)]
      by (simp add: on_acl_response_def Let_def split: option.splits)
  qed
qed (use assms(2) in \<open>simp add: on_acl_response_def\<close>)

text \<open>Commands.\<close>

lemma put_all_grows: "net_fresh N L \<Longrightarrow> put_all N ps w = (r, w') \<Longrightarrow> grows L w w'"
proof (induction ps arbitrary: w r w')
  case (Cons p ps)
  obtain x w1 where x: "kad_put_record N w \<lparr>kr_key = pub_key p, kr_value = pub_record_bytes p,
      kr_publisher = Some (local_peer_id N w)\<rparr> = (x, w1)" by force
  have g: "grows L w w1" using net_freshD(3) [OF Cons.prems(1) x] .
  obtain y w2 where y: "put_all N ps w1 = (y, w2)" by force
  have "grows L w w2" using grows_trans [OF g Cons.IH [OF Cons.prems(1) y]] .
  then show ?case using Cons.prems(2) x y g by (auto split: sum.splits)
qed simp

lemma loop_inv_local_card:
  assumes "loop_inv X L s" "capability_verify X c = Ok ()"
  shows "loop_inv X L (s\<lparr>st_local_cards := (st_local_cards s)(card_capability_id c \<mapsto> c)\<rparr>)"
  using assms by (auto simp: loop_inv_def)

lemma publish_inv:
  assumes "net_fresh N L" "loop_inv X L s"
  shows "loop_inv X L (snd (publish X N c reply s))"
proof (cases "capability_verify X c")
  case ok: (Ok u)
  let ?s1 = "s\<lparr>st_local_cards := (st_local_cards s)(card_capability_id c \<mapsto> c)\<rparr>"
  have inv1: "loop_inv X L ?s1" using loop_inv_local_card assms(2) ok by simp
  show ?thesis
  proof (cases "build_records X c (st_lsh s) (st_identity s) RECORD_TTL_NS")
    case pubs: (Ok pubs)
    obtain r w where rw: "put_all N pubs (st_swarm s) = (r, w)" by force
    have "loop_inv X L (?s1\<lparr>st_swarm := w\<rparr>)"
      using loop_inv_swarm [OF inv1] put_all_grows [OF assms(1) rw] by simp
    then have "loop_inv X L (?s1\<lparr>st_swarm := w, st_pending_publish_acks := acks\<rparr>)" for acks by simp
    then show ?thesis using ok pubs rw inv1 loop_inv_swarm [OF inv1] put_all_grows [OF assms(1) rw]
      by (simp add: publish_def Let_def split: sum.splits)
  qed (use ok assms(2) in \<open>simp_all add: publish_def\<close>)
qed (use assms(2) in \<open>simp_all add: publish_def\<close>)

text \<open>The queries of one lookup are fresh and belong to its conversation.\<close>

lemma get_all_fresh:
  assumes "net_fresh N L" "get_all N conv keys w out pl = (out', pl', w')"
    and "dom pl \<subseteq> lg_queries L w" "out = {q. pl q = Some conv}"
  shows "grows L w w' \<and> dom pl' \<subseteq> lg_queries L w' \<and> out' = {q. pl' q = Some conv} \<and>
    (\<forall>c. c \<noteq> conv \<longrightarrow> {q. pl' q = Some c} = {q. pl q = Some c}) \<and> ran pl' \<subseteq> insert conv (ran pl) \<and>
    (keys \<noteq> [] \<longrightarrow> out' \<noteq> {})"
  using assms(2-)
proof (induction keys arbitrary: w out pl)
  case (Cons k keys)
  obtain t key where k: "k = (t, key)" by force
  obtain q w1 where q: "kad_get_record N w key = (q, w1)" by force
  have f: "q \<notin> lg_queries L w" "q \<in> lg_queries L w1" "grows L w w1"
    using net_freshD(1) [OF assms(1) q] by auto
  have new: "pl q = None" using f(1) Cons.prems(2) by (auto simp: dom_def)
  have "get_all N conv keys w1 (insert q out) (pl(q \<mapsto> conv)) = (out', pl', w')"
    using Cons.prems(1) k q by simp
  moreover have "dom (pl(q \<mapsto> conv)) \<subseteq> lg_queries L w1" using Cons.prems(2) f by (auto simp: grows_def)
  moreover have "insert q out = {p. (pl(q \<mapsto> conv)) p = Some conv}" using Cons.prems(3) by auto
  ultimately have ih: "grows L w1 w' \<and> dom pl' \<subseteq> lg_queries L w' \<and> out' = {p. pl' p = Some conv} \<and>
    (\<forall>c. c \<noteq> conv \<longrightarrow> {p. pl' p = Some c} = {p. (pl(q \<mapsto> conv)) p = Some c}) \<and>
    ran pl' \<subseteq> insert conv (ran (pl(q \<mapsto> conv))) \<and> (keys \<noteq> [] \<longrightarrow> out' \<noteq> {})"
    by (rule Cons.IH)
  have sub: "keys = [] \<Longrightarrow> out' \<noteq> {}" using Cons.prems(1) k q by auto
  have same: "{p. (pl(q \<mapsto> conv)) p = Some c} = {p. pl p = Some c}" if "c \<noteq> conv" for c
    using that new by auto
  show ?case using ih grows_trans [OF f(3)] sub same new by (simp add: ran_map_upd) blast
qed (simp add: subset_insertI)

lemma submit_intent_inv:
  assumes "net_fresh N L" "loop_inv X L s" "unit_vec query"
  shows "loop_inv X L (snd (submit_intent X N required query intent reply s))"
proof (cases "lookup_keys X (fingerprint X required) query (st_lsh s) :: ((u32 \<times> bytes) list, anyhow) exec")
  case (Ok keys)
  obtain conv w1 where u: "sys_uuid N (st_swarm s) = (conv, w1)" by force
  obtain out pl w2 where g: "get_all N conv keys w1 {} (st_pending_lookups s) = (out, pl, w2)"
    by (metis prod_cases3)
  obtain t w3 where t: "sys_instant N w2 = (t, w3)" by force
  note ids = loop_invD(2) [OF assms(2)] and rq = loop_invD(1) [OF assms(2)]
  have conv: "conv \<notin> lg_uuids L (st_swarm s)" "conv \<in> lg_uuids L w1" "grows L (st_swarm s) w1"
    using net_freshD(6) [OF assms(1) u] by auto
  have none: "{q. st_pending_lookups s q = Some conv} = {}" "{r. st_pending_card_fetches s r = Some conv} = {}"
    "conv \<notin> ran (st_pending_acl_round1 s)" "conv \<notin> ran (st_pending_acl_round2 s)"
    using ids conv(1) by (auto simp: ids_ok_def ran_def)
  have dm: "dom (st_pending_lookups s) \<subseteq> lg_queries L w1"
    using ids conv(3) by (auto simp: ids_ok_def grows_def)
  have g2: "grows L w1 w2" "dom pl \<subseteq> lg_queries L w2" "out = {q. pl q = Some conv}"
    "\<And>c. c \<noteq> conv \<Longrightarrow> {q. pl q = Some c} = {q. st_pending_lookups s q = Some c}"
    "ran pl \<subseteq> insert conv (ran (st_pending_lookups s))"
    using get_all_fresh [OF assms(1) g dm] none(1) by auto
  have g3: "grows L w2 w3" using net_freshD(8) [OF assms(1) t] .
  have gs: "grows L (st_swarm s) w3" using grows_trans [OF conv(3) grows_trans [OF g2(1) g3]] .
  have len: "(of_nat (length query) :: u32) = CANONICAL_EMBEDDING_DIM"
    using Ok signatures_panics [of query "st_lsh s", where 'a = anyhow] loop_invD(5) [OF assms(2)]
    by - (rule ccontr, auto simp: lookup_keys_def exec_simps)
  have uu: "conv \<in> lg_uuids L w3" using conv(2) g2(1) g3 by (auto simp: grows_def)
  have "ran pl \<subseteq> lg_uuids L w3"
    using uu g2(5) ids_ok_grows [OF ids gs] by (auto simp: ids_ok_def)
  then have "ids_ok L w3 pl (st_pending_card_fetches s) (st_pending_acl_round1 s) (st_pending_acl_round2 s)
      ((st_requesters s)(conv \<mapsto> r))" for r
    using ids_ok_grows [OF ids gs] g2(2) g3 uu by (auto simp: ids_ok_def grows_def)
  moreover have "req_ok X pl (st_pending_card_fetches s) (st_pending_acl_round1 s) (st_pending_acl_round2 s) c r"
    if "st_requesters s c = Some r" "c \<noteq> conv" for c r
    using rq [OF that(1)] unfolding req_ok_def g2(4) [OF that(2)] .
  ultimately show ?thesis
    using Ok u g t assms(2) g2(3) none unit_vec_ok [OF assms(3) len]
    by (auto simp: submit_intent_def loop_inv_def req_ok_def)
qed (use assms(2) in \<open>simp_all add: submit_intent_def\<close>)

section \<open>Every turn keeps the invariant\<close>

lemmas loop_inv_handlers = publish_inv submit_intent_inv handle_identify_inv handle_mdns_inv on_directory_hit_inv [OF _ _ ranI]
  finish_lookup_inv handle_card_response_inv handle_request_round1_inv handle_agree_round2_inv on_acl_response_inv

interpretation bookkeeping: loop_invariant X N input_ok "\<lambda>s. net_fresh N L \<longrightarrow> loop_inv X L s" for X N L
  by unfold_locales (simp_all add: loop_inv_handlers loop_inv_swarm net_freshD(12))

lemma loop_turn_inv:
  "net_fresh N L \<Longrightarrow> loop_inv X L s \<Longrightarrow> input_ok i \<Longrightarrow> loop_inv X L (snd (loop_turn X N i s))"
  using bookkeeping.turn by blast

lemma reachable_inv: "reachable X N s0 s \<Longrightarrow> net_fresh N L \<Longrightarrow> loop_inv X L s0 \<Longrightarrow> loop_inv X L s"
  using bookkeeping.reaches by blast

lemma initial_state_inv:
  assumes "lsh_wf lsh" "lp_dim (lsh_params lsh) = CANONICAL_EMBEDDING_DIM" "lp_l (lsh_params lsh) \<noteq> 0"
  shows "loop_inv X L (initial_state w i lsh db)"
  using assms by (simp add: loop_inv_def initial_state_def ids_ok_def one_acl_def)

end
