(* ===== verification/Kite_Phases.thy ===== *)
theory Kite_Phases
  imports Kite_Loop_Inv
begin

text \<open>
  The abstract protocol of a conversation, as a step relation on phases, and the accounting of
  the replies to the callers; every handler of the event loop makes one step of the protocol
  (\<open>follows\<close>) and answers exactly the conversations it closes (\<open>reply_step\<close>).
\<close>

section \<open>The abstract protocol of a conversation\<close>

text \<open>
  The phases of one conversation identifier on the requester's side: never used, searching the
  directory and fetching cards, awaiting a PROPOSE, awaiting an INFORM, closed (completed, or
  without a match), or stalled (the answer was not the expected performative, and nothing is
  awaited any more).
\<close>

datatype phase = Unused | Searching | AwaitPropose | AwaitInform | Stalled | Closed

definition phase_of :: "'w ledger \<Rightarrow> string \<Rightarrow> 'w State \<Rightarrow> phase" where
  "phase_of L conv s = (case st_requesters s conv of
     None \<Rightarrow> if conv \<in> lg_uuids L (st_swarm s) then Closed else Unused
   | Some req \<Rightarrow>
       if \<not> rs_request_sent req then Searching
       else if conv \<in> ran (st_pending_acl_round1 s) then AwaitPropose
       else if conv \<in> ran (st_pending_acl_round2 s) then AwaitInform else Stalled)"

inductive phase_step :: "phase \<Rightarrow> phase \<Rightarrow> bool" where
  stay: "phase_step p p"
| submitted: "phase_step Unused Searching"
| other_use: "phase_step Unused Closed"
| requested: "phase_step Searching AwaitPropose"
| no_match: "phase_step Searching Closed"
| agreed: "phase_step AwaitPropose AwaitInform"
| no_propose: "phase_step AwaitPropose Stalled"
| informed: "phase_step AwaitInform Closed"
| no_inform: "phase_step AwaitInform Stalled"

inductive_simps phase_step_final: "phase_step Closed p" "phase_step Stalled p"

text \<open>The order of the phases, along which a conversation moves.\<close>

fun phase_rank :: "phase \<Rightarrow> nat" where
  "phase_rank Unused = 0"
| "phase_rank Searching = 1"
| "phase_rank AwaitPropose = 2"
| "phase_rank AwaitInform = 3"
| "phase_rank Stalled = 4"
| "phase_rank Closed = 5"

lemma phase_rank_inject: "phase_rank p = phase_rank q \<longleftrightarrow> p = q"
  by (cases p; cases q) simp_all

instantiation phase :: linorder
begin

definition less_eq_phase :: "phase \<Rightarrow> phase \<Rightarrow> bool" where
  "less_eq_phase p q \<longleftrightarrow> phase_rank p \<le> phase_rank q"

definition less_phase :: "phase \<Rightarrow> phase \<Rightarrow> bool" where
  "less_phase p q \<longleftrightarrow> phase_rank p < phase_rank q"

instance
  by standard (auto simp: less_eq_phase_def less_phase_def phase_rank_inject)

end

lemma phase_step_le: "phase_step p q \<Longrightarrow> p \<le> q"
  by (induction rule: phase_step.induct) (simp_all add: less_eq_phase_def)

text \<open>
  The replies of one turn: every conversation that closes is answered on its own channel, at
  most one reply is sent, and none without a conversation that closes; the others keep their
  channel.
\<close>

definition reply_step :: "'w State \<Rightarrow> 'w State \<Rightarrow> bool" where
  "reply_step s s' \<longleftrightarrow> (\<exists>rs. st_intent_replies s' = st_intent_replies s @ rs \<and>
     (\<forall>c req. st_requesters s c = Some req \<longrightarrow>
        (case st_requesters s' c of
           Some req' \<Rightarrow> rs_reply req' = rs_reply req
         | None \<Rightarrow> \<exists>ch v. rs_reply req = Some ch \<and> rs = [(ch, v)])) \<and>
     (rs = [] \<or> (\<exists>c req. st_requesters s c = Some req \<and> st_requesters s' c = None)))"

section \<open>Frames\<close>

text \<open>What of a requester's state the protocol sees.\<close>

definition req_view :: "RequesterState \<Rightarrow> bool \<times> Oneshot option" where
  "req_view req = (rs_request_sent req, rs_reply req)"

definition same_reqs :: "'w State \<Rightarrow> 'w State \<Rightarrow> bool" where
  "same_reqs s s' \<longleftrightarrow> st_intent_replies s' = st_intent_replies s \<and>
     (\<forall>c. map_option req_view (st_requesters s' c) = map_option req_view (st_requesters s c))"

lemma same_reqs_refl [simp]: "same_reqs s s"
  by (simp add: same_reqs_def)

lemma same_reqs_same:
  "st_intent_replies s' = st_intent_replies s \<Longrightarrow> st_requesters s' = st_requesters s \<Longrightarrow> same_reqs s s'"
  by (simp add: same_reqs_def)

lemma same_reqs_upd:
  assumes "st_requesters s conv = Some req" "req_view req' = req_view req"
    and "st_intent_replies s' = st_intent_replies s" "st_requesters s' = (st_requesters s)(conv \<mapsto> req')"
  shows "same_reqs s s'"
  using assms by (simp add: same_reqs_def)

lemma same_reqsD:
  assumes "same_reqs s s'" "st_requesters s c = Some req"
  obtains req' where "st_requesters s' c = Some req'" "rs_request_sent req' = rs_request_sent req"
    "rs_reply req' = rs_reply req"
proof -
  have "map_option req_view (st_requesters s' c) = map_option req_view (st_requesters s c)"
    using assms(1) by (simp add: same_reqs_def)
  with assms(2) that show thesis by (cases "st_requesters s' c") (auto simp: req_view_def)
qed

lemma same_reqs_None: "same_reqs s s' \<Longrightarrow> st_requesters s' c = None \<longleftrightarrow> st_requesters s c = None"
  unfolding same_reqs_def by (metis map_option_is_None)

lemma reply_step_frame:
  assumes "same_reqs s s'"
  shows "reply_step s s'"
proof -
  have "case st_requesters s' c of
      Some req' \<Rightarrow> rs_reply req' = rs_reply req | None \<Rightarrow> \<exists>ch v. rs_reply req = Some ch \<and> [] = [(ch, v)]"
    if "st_requesters s c = Some req" for c req
    using that by (elim same_reqsD [OF assms]) simp
  then show ?thesis using assms unfolding reply_step_def same_reqs_def
    by (intro exI [of _ "[]"]) auto
qed

lemma reply_step_after:
  assumes "same_reqs s s1" "reply_step s1 s'"
  shows "reply_step s s'"
proof -
  obtain rs where rs: "st_intent_replies s' = st_intent_replies s1 @ rs"
    "\<And>c req. st_requesters s1 c = Some req \<Longrightarrow> (case st_requesters s' c of
        Some req' \<Rightarrow> rs_reply req' = rs_reply req | None \<Rightarrow> \<exists>ch v. rs_reply req = Some ch \<and> rs = [(ch, v)])"
    "rs = [] \<or> (\<exists>c req. st_requesters s1 c = Some req \<and> st_requesters s' c = None)"
    using assms(2) unfolding reply_step_def by blast
  have "case st_requesters s' c of
      Some req' \<Rightarrow> rs_reply req' = rs_reply req | None \<Rightarrow> \<exists>ch v. rs_reply req = Some ch \<and> rs = [(ch, v)]"
    if sc: "st_requesters s c = Some req" for c req
  proof -
    obtain req1 where "st_requesters s1 c = Some req1" "rs_reply req1 = rs_reply req"
      using same_reqsD [OF assms(1) sc] by metis
    with rs(2) [of c req1] show ?thesis by (simp split: option.splits)
  qed
  moreover have "rs = [] \<or> (\<exists>c req. st_requesters s c = Some req \<and> st_requesters s' c = None)"
    using rs(3) same_reqs_None [OF assms(1)] by (metis not_None_eq)
  ultimately show ?thesis using rs(1) assms(1) unfolding reply_step_def same_reqs_def by auto
qed

lemma reply_step_close:
  assumes "st_requesters s conv = Some req" "rs_reply req = Some ch"
    and "st_intent_replies s' = st_intent_replies s @ [(ch, v)]" "st_requesters s' = (st_requesters s)(conv := None)"
  shows "reply_step s s'"
  unfolding reply_step_def using assms by (intro exI [of _ "[(ch, v)]"]) (auto split: option.splits)

lemma reply_step_upd:
  assumes "st_requesters s conv = Some req" "rs_reply req' = rs_reply req"
    and "st_intent_replies s' = st_intent_replies s" "st_requesters s' = (st_requesters s)(conv \<mapsto> req')"
  shows "reply_step s s'"
  unfolding reply_step_def using assms by (intro exI [of _ "[]"]) simp

text \<open>A conversation whose requester and awaited requests are as before stays in its phase.\<close>

lemma phase_frame:
  assumes "map_option rs_request_sent (st_requesters s' c) = map_option rs_request_sent (st_requesters s c)"
    and "c \<in> ran (st_pending_acl_round1 s') \<longleftrightarrow> c \<in> ran (st_pending_acl_round1 s)"
    and "c \<in> ran (st_pending_acl_round2 s') \<longleftrightarrow> c \<in> ran (st_pending_acl_round2 s)"
    and "grows L (st_swarm s) (st_swarm s')"
  shows "phase_step (phase_of L c s) (phase_of L c s')"
proof (cases "st_requesters s c")
  case None
  then have "st_requesters s' c = None" using assms(1) by simp
  then show ?thesis using None assms(4) by (auto simp: phase_of_def grows_def intro: phase_step.intros)
next
  case (Some req)
  then obtain req' where "st_requesters s' c = Some req'" "rs_request_sent req' = rs_request_sent req"
    using assms(1) by auto
  then show ?thesis using Some assms by (auto simp: phase_of_def intro: phase_step.intros)
qed

lemma phase_same_reqs:
  assumes "same_reqs s s'" "st_pending_acl_round1 s' = st_pending_acl_round1 s"
    and "st_pending_acl_round2 s' = st_pending_acl_round2 s" "grows L (st_swarm s) (st_swarm s')"
  shows "phase_step (phase_of L c s) (phase_of L c s')"
proof (rule phase_frame)
  have "map_option fst (map_option req_view (st_requesters s' c)) = map_option fst (map_option req_view (st_requesters s c))"
    using assms(1) by (simp add: same_reqs_def)
  moreover have "fst \<circ> req_view = rs_request_sent" by (auto simp: req_view_def)
  ultimately show "map_option rs_request_sent (st_requesters s' c) = map_option rs_request_sent (st_requesters s c)"
    by (simp add: option.map_comp)
qed (use assms in simp_all)

lemma phase_of_same_reqs:
  assumes "same_reqs s s'" "st_pending_acl_round1 s' = st_pending_acl_round1 s"
    and "st_pending_acl_round2 s' = st_pending_acl_round2 s" "st_swarm s' = st_swarm s"
  shows "phase_of L c s' = phase_of L c s"
proof (cases "st_requesters s c")
  case None
  then show ?thesis using same_reqs_None [OF assms(1), of c] assms(4) by (simp add: phase_of_def)
next
  case (Some req)
  then obtain req' where "st_requesters s' c = Some req'" "rs_request_sent req' = rs_request_sent req"
    using same_reqsD [OF assms(1)] by metis
  then show ?thesis using Some assms(2-4) by (simp add: phase_of_def)
qed

section \<open>Every handler follows the protocol\<close>

text \<open>\<open>follows\<close>: from \<open>s\<close> to \<open>s'\<close> every conversation makes one step of the protocol.\<close>

definition follows :: "'w ledger \<Rightarrow> 'w State \<Rightarrow> 'w State \<Rightarrow> bool" where
  "follows L s s' \<longleftrightarrow> (\<forall>c. phase_step (phase_of L c s) (phase_of L c s'))"

lemma follows_frame:
  assumes "same_reqs s s'" "st_pending_acl_round1 s' = st_pending_acl_round1 s"
    and "st_pending_acl_round2 s' = st_pending_acl_round2 s" "grows L (st_swarm s) (st_swarm s')"
  shows "follows L s s' \<and> reply_step s s'"
  using phase_same_reqs [OF assms] reply_step_frame [OF assms(1)] by (simp add: follows_def)

lemma follows_same:
  assumes "st_intent_replies s' = st_intent_replies s" "st_requesters s' = st_requesters s"
    and "st_pending_acl_round1 s' = st_pending_acl_round1 s" "st_pending_acl_round2 s' = st_pending_acl_round2 s"
    and "grows L (st_swarm s) (st_swarm s')"
  shows "follows L s s' \<and> reply_step s s'"
  using follows_frame [OF same_reqs_same [OF assms(1,2)] assms(3-5)] .

lemma ran_remove_other:
  assumes "m i = Some c" "d \<noteq> c"
  shows "d \<in> ran (m(i := None)) \<longleftrightarrow> d \<in> ran m"
proof
  assume "d \<in> ran m"
  then obtain a where a: "m a = Some d" by (auto simp: ran_def)
  then have "(m(i := None)) a = Some d" using assms by auto
  then show "d \<in> ran (m(i := None))" by (rule ranI)
qed (rule ran_upd_None_subsetD)

lemma follows_after:
  assumes "same_reqs s s1" "st_pending_acl_round1 s1 = st_pending_acl_round1 s"
    and "st_pending_acl_round2 s1 = st_pending_acl_round2 s" "st_swarm s1 = st_swarm s" "follows L s1 s'"
  shows "follows L s s'"
  using assms(5) phase_of_same_reqs [OF assms(1-4)] by (simp add: follows_def)

lemma inv_uuid: "loop_inv X L s \<Longrightarrow> st_requesters s conv = Some req \<Longrightarrow> conv \<in> lg_uuids L (st_swarm s)"
  using loop_invD(2) [of X L s] by (auto simp: ids_ok_def dom_def)

lemma inv_reply:
  assumes "loop_inv X L s" "st_requesters s conv = Some req"
  obtains ch where "rs_reply req = Some ch"
  using loop_invD(1) [OF assms] by (auto simp: req_ok_def)

text \<open>A REQUEST that goes out moves its conversation from the search to the wait for a PROPOSE.\<close>

lemma requested_follows:
  assumes "loop_inv X L s" "st_requesters s conv = Some req" "\<not> rs_request_sent req" "rs_request_sent req'" "rs_reply req' = rs_reply req"
    and "rid \<notin> lg_acls L (st_swarm s)" "grows L (st_swarm s) (st_swarm s')"
    and "st_pending_acl_round1 s' = (st_pending_acl_round1 s)(rid \<mapsto> conv)" "st_pending_acl_round2 s' = st_pending_acl_round2 s"
    and "st_intent_replies s' = st_intent_replies s" "st_requesters s' = (st_requesters s)(conv \<mapsto> req')"
  shows "follows L s s' \<and> reply_step s s'"
proof -
  have "st_pending_acl_round1 s rid = None" using loop_invD(2) [OF assms(1)] assms(6) by (auto simp: ids_ok_def dom_def)
  then have ran: "ran ((st_pending_acl_round1 s)(rid \<mapsto> conv)) = insert conv (ran (st_pending_acl_round1 s))"
    by (rule ran_map_upd)
  have "phase_step (phase_of L c s) (phase_of L c s')" for c
  proof (cases "c = conv")
    case True
    then show ?thesis using assms ran by (auto simp: phase_of_def intro: phase_step.intros)
  next
    case False
    then show ?thesis using assms ran by (intro phase_frame) auto
  qed
  then show ?thesis using reply_step_upd [OF assms(2,5,10,11)] by (simp add: follows_def)
qed

lemma maybe_send_request_follows:
  assumes "net_fresh N L" "loop_inv X L s" "maybe_send_request X N conv s = (r, s')"
  shows "follows L s s' \<and> reply_step s s'"
  using assms(3)
proof (cases rule: maybe_send_request_cases)
  case idle
  then show ?thesis using follows_frame [of s s' L] by simp
next
  case (panic req p)
  then show ?thesis using follows_frame [of s s' L] by simp
next
  case (nomatch req scored)
  obtain ch where ch: "rs_reply req = Some ch" using inv_reply [OF assms(2) nomatch(1)] .
  have s': "st_requesters s' = (st_requesters s)(conv := None)" "st_pending_acl_round1 s' = st_pending_acl_round1 s"
    "st_pending_acl_round2 s' = st_pending_acl_round2 s" "st_swarm s' = st_swarm s"
    "st_intent_replies s' = st_intent_replies s @ [(ch, Err (Msg ''no matching capability''))]"
    using nomatch ch by (simp_all add: reply_intent_def)
  have "phase_step (phase_of L c s) (phase_of L c s')" for c
    using nomatch(1,3) inv_uuid [OF assms(2) nomatch(1)] s'
    by (cases "c = conv") (auto simp: phase_of_def intro: phase_step.intros)
  then show ?thesis using reply_step_close [OF nomatch(1) ch s'(5,1)] by (simp add: follows_def)
next
  case (badpeer req scored best)
  then have "same_reqs s s'" by (intro same_reqs_upd [OF badpeer(1)]) (simp_all add: req_view_def)
  then show ?thesis using follows_frame [of s s' L] badpeer by simp
next
  case (failed req t w1 u w2 e)
  then have "same_reqs s s'" by (intro same_reqs_upd [OF failed(1)]) (simp_all add: req_view_def)
  then show ?thesis using follows_frame [of s s' L] grows_clock_uuid [OF assms(1) failed(2,3)] failed by simp
next
  case (sent req scored best provider t w1 u w2 now w3 msg rid w4)
  have g: "grows L (st_swarm s) w4"
    using grows_trans [OF grows_clock_uuid [OF assms(1) sent(9,10)] grows_trans [OF net_freshD(8) [OF assms(1) sent(12)]]]
      net_freshD(5) [OF assms(1) sent(13)] by blast
  have fresh: "rid \<notin> lg_acls L (st_swarm s)"
    using net_freshD(5) [OF assms(1) sent(13)] grows_trans [OF grows_clock_uuid [OF assms(1) sent(9,10)]
      net_freshD(8) [OF assms(1) sent(12)]] by (auto simp: grows_def)
  let ?req = "req\<lparr>rs_fetched_cards := [], rs_request_sent := True, rs_provider_peer := Some provider,
    rs_chosen_capability_id := Some (card_capability_id (sc_card best)), rs_chosen_score := sc_score best\<rparr>"
  show ?thesis by (rule requested_follows [OF assms(2) sent(1,3), of ?req rid]) (use g fresh sent(14) in \<open>simp_all add: upd_metrics_def\<close>)
qed

lemma lookup_done_frame:
  "same_reqs s (lookup_done qid conv s)"
  "st_pending_acl_round1 (lookup_done qid conv s) = st_pending_acl_round1 s"
  "st_pending_acl_round2 (lookup_done qid conv s) = st_pending_acl_round2 s"
  "st_swarm (lookup_done qid conv s) = st_swarm s"
  by (auto simp: lookup_done_def same_reqs_def req_view_def split: option.splits)

lemma card_done_frame:
  assumes "st_requesters s conv = Some req"
  shows "same_reqs s (card_done X i conv req response s)"
    and "st_pending_acl_round1 (card_done X i conv req response s) = st_pending_acl_round1 s"
    and "st_pending_acl_round2 (card_done X i conv req response s) = st_pending_acl_round2 s"
    and "st_swarm (card_done X i conv req response s) = st_swarm s"
  using assms by (auto simp: card_done_def same_reqs_def req_view_def)

lemma finish_lookup_follows:
  assumes "net_fresh N L" "loop_inv X L s" "finish_lookup X N qid s = (r, s')"
  shows "follows L s s' \<and> reply_step s s'"
proof (cases "st_pending_lookups s qid")
  case None
  then show ?thesis using assms(3) follows_frame [of s s' L] by (simp add: finish_lookup_eq)
next
  case (Some conv)
  have m: "maybe_send_request X N conv (lookup_done qid conv s) = (r, s')"
    using assms(3) Some by (simp add: finish_lookup_eq)
  note f = maybe_send_request_follows [OF assms(1) lookup_done_inv [OF assms(2) Some] m]
  show ?thesis
    using f follows_after [OF lookup_done_frame, of L] reply_step_after [OF lookup_done_frame(1)] by blast
qed

lemma on_directory_hit_follows:
  assumes "net_fresh N L" "on_directory_hit X N record conv s = (r, s')"
  shows "follows L s s' \<and> reply_step s s'"
  using assms(2)
proof (cases rule: on_directory_hit_cases)
  case ignored
  then show ?thesis using follows_frame [of s s' L] by simp
next
  case (fetch req dir peer i w)
  then have "same_reqs s s'" by (intro same_reqs_upd [OF fetch(2)]) (simp_all add: req_view_def)
  then show ?thesis using follows_frame [of s s' L] net_freshD(4) [OF assms(1) fetch(8)] fetch(9) by simp
qed

lemma handle_card_response_follows:
  assumes "net_fresh N L" "loop_inv X L s" "handle_card_response X N i response s = (r, s')"
    and "input_ok (InSwarm (BehaviourCard (CardResponseMessage i response)))"
  shows "follows L s s' \<and> reply_step s s'"
proof (cases "\<exists>conv req. st_pending_card_fetches s i = Some conv \<and> st_requesters s conv = Some req")
  case False
  then show ?thesis using assms(3) follows_frame [of s s' L]
    by (auto simp: handle_card_response_def Let_def same_reqs_same split: option.splits)
next
  case True
  then obtain conv req where pc: "st_pending_card_fetches s i = Some conv" and req: "st_requesters s conv = Some req"
    by blast
  note d = card_done_frame [OF req, of X i response]
  let ?s1 = "card_done X i conv req response s"
  show ?thesis
  proof (cases "rs_outstanding_dht_queries req = {} \<and> rs_in_flight_card_fetches req - {i} = {}")
    case True
    then have m: "maybe_send_request X N conv ?s1 = (r, s')"
      using assms(3) by (simp add: handle_card_response_eq [OF pc req])
    show ?thesis using maybe_send_request_follows [OF assms(1) card_done_inv [OF assms(2) pc req assms(4)] m]
        follows_after [OF d, of L] reply_step_after [OF d(1)] by blast
  next
    case False
    then have "handle_card_response X N i response s = (Ok (), ?s1)"
      unfolding handle_card_response_eq [OF pc req] by (rule if_not_P)
    then have "s' = ?s1" using assms(3) by simp
    then show ?thesis using follows_frame [of s s' L] d by simp
  qed
qed

text \<open>The provider's side, the directory and the peer events do not touch the requester's conversations.\<close>

lemma handle_request_round1_follows:
  assumes "net_fresh N L" "handle_request_round1 X N peer msg ch s = (r, s')"
  shows "follows L s s' \<and> reply_step s s'"
  using assms(2)
proof (cases rule: handle_request_round1_cases)
  case (proposed intent cap t w1 u w2 m)
  have "grows L (st_swarm s) (acl_send_response N w2 ch m)"
    using grows_trans [OF grows_clock_uuid [OF assms(1) proposed(4,5)] net_freshD(13) [OF assms(1)]] .
  then show ?thesis using proposed(7) by (intro follows_same) simp_all
next
  case (failed t w1 u w2 e)
  then show ?thesis using grows_clock_uuid [OF assms(1) failed(1,2)] by (intro follows_same) simp_all
next
  case ignored
  then show ?thesis by (intro follows_same) simp_all
qed

lemma handle_agree_round2_follows:
  assumes "net_fresh N L" "handle_agree_round2 X N peer msg ch s = (r, s')"
  shows "follows L s s' \<and> reply_step s s'"
  using assms(2)
  by (cases rule: handle_agree_round2_cases; intro follows_same) (use assms(1) in \<open>simp_all add: upd_metrics_def\<close>)

text \<open>Taking the awaited request out of a round, on its own: the conversation stalls.\<close>

lemma follows_take1:
  assumes "loop_inv X L s" "st_pending_acl_round1 s i = Some conv"
    and "s' = s\<lparr>st_pending_acl_round1 := (st_pending_acl_round1 s)(i := None)\<rparr>"
  shows "follows L s s' \<and> reply_step s s'"
proof -
  note one = one_acl_remove(3) [OF loop_invD(3) [OF assms(1)] assms(2)]
  note other = ran_remove_other [of "st_pending_acl_round1 s", OF assms(2)]
  have "phase_step (phase_of L c s) (phase_of L c s')" for c
  proof (cases "c = conv")
    case True
    then show ?thesis using one assms(2,3) loop_invD(1) [OF assms(1), of conv]
      by (auto simp: phase_of_def ran_def intro: phase_step.intros split: option.splits)
  next
    case False
    then show ?thesis using other assms(3) by (intro phase_frame) simp_all
  qed
  moreover have "same_reqs s s'" using assms(3) by (simp add: same_reqs_same)
  ultimately show ?thesis using reply_step_frame by (auto simp: follows_def)
qed

lemma follows_take2:
  assumes "loop_inv X L s" "st_pending_acl_round2 s i = Some conv"
    and "s' = s\<lparr>st_pending_acl_round2 := (st_pending_acl_round2 s)(i := None)\<rparr>"
  shows "follows L s s' \<and> reply_step s s'"
proof -
  note one = one_acl_remove(4) [OF loop_invD(3) [OF assms(1)] assms(2)]
  note other = ran_remove_other [of "st_pending_acl_round2 s", OF assms(2)]
  have mem: "conv \<in> ran (st_pending_acl_round2 s)" using assms(2) by (rule ranI)
  have "phase_step (phase_of L c s) (phase_of L c s')" for c
  proof (cases "c = conv")
    case True
    then show ?thesis using one mem assms(3)
      by (auto simp: phase_of_def intro: phase_step.intros split: option.splits)
  next
    case False
    then show ?thesis using other assms(3) by (intro phase_frame) simp_all
  qed
  moreover have "same_reqs s s'" using assms(3) by (simp add: same_reqs_same)
  ultimately show ?thesis using reply_step_frame by (auto simp: follows_def)
qed

text \<open>A PROPOSE that was awaited: the AGREE goes out, or the daemon cannot sign it.\<close>

lemma send_agree_follows:
  assumes "net_fresh N L" "loop_inv X L s" "st_pending_acl_round1 s i = Some conv"
    and "send_agree X N conv msg (s\<lparr>st_pending_acl_round1 := (st_pending_acl_round1 s)(i := None)\<rparr>) = (Ok (), s')"
  shows "follows L s s' \<and> reply_step s s'"
  using assms(4)
proof (cases rule: send_agree_cases)
  case ignored
  then show ?thesis using follows_take1 [OF assms(2,3)] by simp
next
  case (failed t w1 u w2 e)
  then show ?thesis by simp
next
  case (sent req provider t w1 u w2 m j w3)
  note one = one_acl_remove(3) [OF loop_invD(3) [OF assms(2)] assms(3)]
  have req: "st_requesters s conv = Some req" using sent(2) by simp
  have rs: "rs_request_sent req" using loop_invD(1) [OF assms(2) req] sent(3) by (auto simp: req_ok_def split: if_splits)
  have g: "grows L (st_swarm s) w3"
    using grows_trans [OF grows_clock_uuid [OF assms(1)], of "st_swarm s" t w1 u w2 w3] sent(4,5)
      net_freshD(5) [OF assms(1) sent(7)] by simp
  have "j \<notin> lg_acls L (st_swarm s)"
    using net_freshD(5) [OF assms(1) sent(7)] grows_clock_uuid [OF assms(1), of "st_swarm s" t w1 u w2] sent(4,5)
    by (auto simp: grows_def)
  then have fresh: "st_pending_acl_round2 s j = None" using loop_invD(2) [OF assms(2)] by (auto simp: ids_ok_def dom_def)
  note other = ran_remove_other [of "st_pending_acl_round1 s", OF assms(3)]
  have ran: "ran ((st_pending_acl_round2 s)(j \<mapsto> conv)) = insert conv (ran (st_pending_acl_round2 s))"
    using fresh by (rule ran_map_upd)
  have mem: "conv \<in> ran (st_pending_acl_round1 s)" using assms(3) by (rule ranI)
  have "phase_step (phase_of L c s) (phase_of L c s')" for c
  proof (cases "c = conv")
    case True
    then show ?thesis using one mem req rs sent(8) ran by (auto simp: phase_of_def intro: phase_step.intros)
  next
    case False
    then show ?thesis using other sent(8) ran g by (intro phase_frame) simp_all
  qed
  moreover have "same_reqs s s'" using sent(8) by (simp add: same_reqs_same)
  ultimately show ?thesis using reply_step_frame by (auto simp: follows_def)
qed

text \<open>An INFORM that was awaited closes the conversation and answers the caller.\<close>

lemma complete_intent_follows:
  assumes "net_fresh N L" "loop_inv X L s" "st_pending_acl_round2 s i = Some conv"
    and "complete_intent X N peer conv msg (s\<lparr>st_pending_acl_round2 := (st_pending_acl_round2 s)(i := None)\<rparr>) = (Ok (), s')"
  shows "follows L s s' \<and> reply_step s s'"
  using assms(4)
proof (cases rule: complete_intent_cases)
  case ignored
  then show ?thesis using follows_take2 [OF assms(2,3)] by simp
next
  case (completed req t w1 w2 rec cap)
  have req: "st_requesters s conv = Some req" using completed(2) by simp
  obtain ch where ch: "rs_reply req = Some ch" using inv_reply [OF assms(2) req] .
  have g: "grows L (st_swarm s) w2"
    using grows_trans [OF net_freshD(7) [OF assms(1)] net_freshD(9) [OF assms(1) completed(6)]] completed(4) by simp
  note other = ran_remove_other [of "st_pending_acl_round2 s", OF assms(3)]
  have s': "st_requesters s' = (st_requesters s)(conv := None)" "st_swarm s' = w2"
    "st_pending_acl_round1 s' = st_pending_acl_round1 s"
    "st_pending_acl_round2 s' = (st_pending_acl_round2 s)(i := None)"
    "st_intent_replies s' = st_intent_replies s @ [(ch, Ok \<lparr>out_conversation_id = conv, out_matched_capability_id = cap,
             out_cosine_score = rs_chosen_score req\<rparr>)]"
    using completed(7) ch by (simp_all add: effect_defs)
  have rs: "rs_request_sent req" "conv \<notin> ran (st_pending_acl_round1 s)"
    using loop_invD(1) [OF assms(2) req] assms(3) one_acl_remove(4) [OF loop_invD(3) [OF assms(2)] assms(3)]
    by (auto simp: req_ok_def ran_def split: if_splits)
  have mem: "conv \<in> ran (st_pending_acl_round2 s)" using assms(3) by (rule ranI)
  have uu: "conv \<in> lg_uuids L w2" using inv_uuid [OF assms(2) req] g by (auto simp: grows_def)
  have "phase_step (phase_of L c s) (phase_of L c s')" for c
  proof (cases "c = conv")
    case True
    then show ?thesis using s' req rs mem uu by (auto simp: phase_of_def intro: phase_step.intros)
  next
    case False
    then show ?thesis using other s' g by (intro phase_frame) simp_all
  qed
  then show ?thesis using reply_step_close [OF req ch s'(5,1)] by (simp add: follows_def)
qed simp_all

text \<open>Submitting an intent opens a conversation under an unused identifier.\<close>

lemma submit_intent_cases [consumes 1, case_names refused opened]:
  assumes "submit_intent X N required query intent reply s = (r, s')"
  obtains "s' = s" "r \<noteq> Ok ()"
  | keys conv w1 out pl w2 t w3 req where "r = Ok ()"
      "lookup_keys X (fingerprint X required) query (st_lsh s) = (Ok keys :: ((u32 \<times> bytes) list, anyhow) exec)"
      "sys_uuid N (st_swarm s) = (conv, w1)"
      "get_all N conv keys w1 {} (st_pending_lookups s) = (out, pl, w2)" "sys_instant N w2 = (t, w3)"
      "s' = s\<lparr>st_swarm := w3, st_pending_lookups := pl, st_requesters := (st_requesters s)(conv \<mapsto> req)\<rparr>"
      "\<not> rs_request_sent req" "rs_reply req = Some reply" "rs_outstanding_dht_queries req = out"
      "rs_required req = required" "rs_query_vector req = query" "rs_intent req = intent"
      "rs_fetched_cards req = []" "rs_seen_capability_ids req = {}" "rs_in_flight_card_fetches req = {}"
proof (cases "lookup_keys X (fingerprint X required) query (st_lsh s) :: ((u32 \<times> bytes) list, anyhow) exec")
  case (Ok keys)
  obtain conv w1 where u: "sys_uuid N (st_swarm s) = (conv, w1)" by force
  obtain out pl w2 where g: "get_all N conv keys w1 {} (st_pending_lookups s) = (out, pl, w2)"
    by (metis prod_cases3)
  obtain t w3 where t: "sys_instant N w2 = (t, w3)" by force
  show thesis using assms Ok u g t by (intro that(2) [OF _ Ok u g t]) (auto simp: submit_intent_def)
next
  case (Err e)
  then show thesis using assms that(1) by (auto simp: submit_intent_def)
next
  case (Panic p)
  then show thesis using assms that(1) by (auto simp: submit_intent_def)
qed

lemma submit_intent_follows:
  assumes "net_fresh N L" "loop_inv X L s" "submit_intent X N required query intent reply s = (r, s')"
  shows "follows L s s' \<and> reply_step s s'"
  using assms(3)
proof (cases rule: submit_intent_cases)
  case refused
  then show ?thesis by (intro follows_same) simp_all
next
  case (opened keys conv w1 out pl w2 t w3 req)
  have conv: "conv \<notin> lg_uuids L (st_swarm s)" "grows L (st_swarm s) w1"
    using net_freshD(6) [OF assms(1) opened(3)] by auto
  have none: "st_requesters s conv = None" using loop_invD(2) [OF assms(2)] conv(1) by (auto simp: ids_ok_def)
  have "dom (st_pending_lookups s) \<subseteq> lg_queries L w1"
    using loop_invD(2) [OF assms(2)] conv(2) by (auto simp: ids_ok_def grows_def)
  moreover have "{} = {q. st_pending_lookups s q = Some conv}"
    using loop_invD(2) [OF assms(2)] conv(1) by (auto simp: ids_ok_def ran_def)
  ultimately have "grows L w1 w2" using get_all_fresh [OF assms(1) opened(4)] by blast
  then have g: "grows L (st_swarm s) w3"
    using grows_trans [OF conv(2) grows_trans] net_freshD(8) [OF assms(1) opened(5)] by blast
  have "phase_step (phase_of L c s) (phase_of L c s')" for c
  proof (cases "c = conv")
    case True
    then show ?thesis using opened(6,7) none conv(1) by (auto simp: phase_of_def intro: phase_step.intros)
  next
    case False
    then show ?thesis using opened(6) g by (intro phase_frame) simp_all
  qed
  moreover have "reply_step s s'"
    unfolding reply_step_def using opened(6) none by (intro exI [of _ "[]"]) auto
  ultimately show ?thesis by (simp add: follows_def)
qed

lemma publish_follows:
  assumes "net_fresh N L" "publish X N c reply s = (r, s')"
  shows "follows L s s' \<and> reply_step s s'"
proof -
  have "st_intent_replies s' = st_intent_replies s \<and> st_requesters s' = st_requesters s \<and>
    st_pending_acl_round1 s' = st_pending_acl_round1 s \<and> st_pending_acl_round2 s' = st_pending_acl_round2 s \<and>
    grows L (st_swarm s) (st_swarm s')"
    using assms put_all_grows [OF assms(1)]
    by (auto simp: publish_def Let_def reply_publish_def split: exec.splits if_splits sum.splits prod.splits)
  then show ?thesis by (intro follows_same) simp_all
qed

lemma handle_query_result_follows:
  assumes "net_fresh N L" "loop_inv X L s" "handle_query_result X N qid result s = (r, s')"
  shows "follows L s s' \<and> reply_step s s'"
proof (cases result)
  case PutRecordOk
  then show ?thesis using assms(3)
    by (intro follows_same) (auto simp: Let_def effect_defs split: option.splits if_splits)
next
  case (PutRecordErr e)
  then show ?thesis using assms(3)
    by (intro follows_same) (auto simp: Let_def effect_defs split: option.splits if_splits)
next
  case (FoundRecord rec)
  then show ?thesis using assms on_directory_hit_follows [OF assms(1)] follows_same [of s s L]
    by (auto split: option.splits)
next
  case QueryResultOther
  then show ?thesis using assms(3) by (intro follows_same) simp_all
qed (use assms finish_lookup_follows [OF assms(1,2)] in simp_all)

lemma handle_kad_follows:
  assumes "net_fresh N L" "loop_inv X L s" "handle_kad X N ev s = (r, s')"
  shows "follows L s s' \<and> reply_step s s'"
proof (cases ev)
  case (RoutingUpdated p b)
  then show ?thesis using assms(3) by (intro follows_same) (auto simp: emit_def split: if_splits)
next
  case KadOther
  then show ?thesis using assms(3) by (intro follows_same) simp_all
qed (use assms handle_query_result_follows [OF assms(1,2)] in simp)

lemma handle_card_follows:
  assumes "net_fresh N L" "loop_inv X L s" "handle_card X N ev s = (r, s')" "input_ok (InSwarm (BehaviourCard ev))"
  shows "follows L s s' \<and> reply_step s s'"
proof (cases ev)
  case (CardRequestMessage q ch)
  then show ?thesis using assms(3) net_freshD(12) [OF assms(1)] by (intro follows_same) (auto simp: Let_def)
next
  case CardOther
  then show ?thesis using assms(3) by (intro follows_same) simp_all
qed (use assms handle_card_response_follows [OF assms(1,2)] in simp)

lemma on_acl_request_follows:
  assumes "net_fresh N L" "on_acl_request X N peer msg ch s = (r, s')"
  shows "follows L s s' \<and> reply_step s s'"
  using assms(2) handle_request_round1_follows [OF assms(1)] handle_agree_round2_follows [OF assms(1)]
    follows_same [of s s L]
  by (auto simp: on_acl_request_def split: if_splits Performative.splits)

lemma on_acl_response_follows:
  assumes "net_fresh N L" "loop_inv X L s" "on_acl_response X N peer i msg s = (Ok (), s')"
  shows "follows L s s' \<and> reply_step s s'"
proof (cases "is_ok (acl_verify X msg)")
  case False
  then show ?thesis using assms(3) follows_same [of s s L] by (simp add: on_acl_response_def)
next
  case ok: True
  show ?thesis
  proof (cases "st_pending_acl_round1 s i")
    case (Some conv)
    show ?thesis
    proof (cases "performative_of msg = Propose")
      case True
      then show ?thesis using assms(3) ok Some send_agree_follows [OF assms(1,2) Some]
        by (simp add: on_acl_response_def)
    next
      case False
      then show ?thesis using assms(3) ok Some follows_take1 [OF assms(2) Some]
        by (simp add: on_acl_response_def)
    qed
  next
    case r1: None
    show ?thesis
    proof (cases "st_pending_acl_round2 s i")
      case None
      then show ?thesis using assms(3) ok r1 follows_same [of s s L] by (simp add: on_acl_response_def)
    next
      case (Some conv)
      show ?thesis
      proof (cases "performative_of msg = Inform")
        case True
        then show ?thesis using assms(3) ok r1 Some complete_intent_follows [OF assms(1,2) Some]
          by (simp add: on_acl_response_def)
      next
        case False
        then show ?thesis using assms(3) ok r1 Some follows_take2 [OF assms(2) Some]
          by (simp add: on_acl_response_def)
      qed
    qed
  qed
qed

lemma handle_acl_follows:
  assumes "net_fresh N L" "loop_inv X L s" "handle_acl X N ev s = (Ok (), s')"
  shows "follows L s s' \<and> reply_step s s'"
  using assms(3) on_acl_request_follows [OF assms(1)] on_acl_response_follows [OF assms(1,2)] follows_same [of s s L]
  by (cases ev) auto

lemma handle_swarm_event_follows:
  assumes "net_fresh N L" "loop_inv X L s" "handle_swarm_event X N ev s = (Ok (), s')" "input_ok (InSwarm ev)"
  shows "follows L s s' \<and> reply_step s s'"
proof (cases ev)
  case (NewListenAddr a)
  then show ?thesis using assms(3) by (intro follows_same) (auto simp: emit_def)
next
  case (BehaviourMdns e)
  then show ?thesis using assms(3) grows_foldl [OF net_freshD(11) [OF assms(1)], of "st_swarm s" "\<lambda>_ (p, a). a"]
    by (cases e; intro follows_same) (auto intro!: grows_foldl net_freshD(11) [OF assms(1)])
next
  case (BehaviourIdentify e)
  then show ?thesis using assms(3)
    by (cases e; intro follows_same) (auto intro!: grows_foldl net_freshD(10) [OF assms(1)])
next
  case SwarmOther
  then show ?thesis using assms(3) by (intro follows_same) simp_all
qed (use assms handle_kad_follows [OF assms(1,2)] handle_card_follows [OF assms(1,2)]
    handle_acl_follows [OF assms(1,2)] in simp_all)

lemma loop_turn_follows:
  assumes "net_fresh N L" "loop_inv X L s" "input_ok i" "loop_turn X N i s = (None, s')"
  shows "follows L s s' \<and> reply_step s s'"
proof (cases i)
  case (InCommand c)
  then obtain c' where c: "c = Some c'" "c' \<noteq> Shutdown" "handle_command X N c' s = (Ok (), s')"
    using assms(4) by (cases c) (auto split: if_splits prod.splits exec.splits)
  then show ?thesis using publish_follows [OF assms(1)] submit_intent_follows [OF assms(1,2)]
    by (cases c') auto
next
  case (InSwarm ev)
  then have "handle_swarm_event X N ev s = (Ok (), s')"
    using assms(4) by (auto split: prod.splits exec.splits)
  then show ?thesis using handle_swarm_event_follows [OF assms(1,2)] assms(3) InSwarm by simp
next
  case InTakeEvent
  then show ?thesis using assms(4) by (intro follows_same) auto
next
  case InDropReceiver
  then show ?thesis using assms(4) by (intro follows_same) auto
qed

end
