(* ===== verification/Kite_Progress.thy ===== *)
theory Kite_Progress
  imports Kite_Phases
begin

text \<open>
  Progress of the event loop: no handler of a network event fails on a state that satisfies the
  invariant, a conversation that has not sent its REQUEST always has a query or a card fetch
  that the loop waits for, and the REQUEST goes to the best verified match.
\<close>

section \<open>No network event ends the loop\<close>

lemma rerank_chosen:
  assumes "loop_inv X L s" "st_requesters s conv = Some req"
    and "rerank fb (rs_required req) (rs_query_vector req) (rs_fetched_cards req) = (Ok scored :: (ScoredCandidate list, anyhow) exec)"
    and "find sc_passed_filter scored = Some best"
  shows "sc_card best \<in> set (rs_fetched_cards req)" and "capability_verify X (sc_card best) = Ok ()"
    and "\<exists>f. card_facets (sc_card best) = Some f \<and> facets_match (rs_required req) f"
    and "\<And>c f e. c \<in> set (rs_fetched_cards req) \<Longrightarrow> card_facets c = Some f \<Longrightarrow> facets_match (rs_required req) f \<Longrightarrow>
      card_embedding c = Some e \<Longrightarrow> partial_cmp (dot (rs_query_vector req) (emb_vector e)) (sc_score best) \<noteq> Some Greater"
proof -
  have ok: "vec_ok (rs_query_vector req)" "\<And>c. c \<in> set (rs_fetched_cards req) \<Longrightarrow> card_ok X c"
    using loop_invD(1) [OF assms(1,2)] by (auto simp: req_ok_def)
  note best = rerank_choice [OF rankable_ok [OF ok] assms(3)]
  show mem: "sc_card best \<in> set (rs_fetched_cards req)" using best assms(4) by blast
  show "capability_verify X (sc_card best) = Ok ()" using ok(2) [OF mem] by (simp add: card_ok_def)
  show "\<exists>f. card_facets (sc_card best) = Some f \<and> facets_match (rs_required req) f" using best assms(4) by blast
  show "\<And>c f e. c \<in> set (rs_fetched_cards req) \<Longrightarrow> card_facets c = Some f \<Longrightarrow> facets_match (rs_required req) f \<Longrightarrow>
      card_embedding c = Some e \<Longrightarrow> partial_cmp (dot (rs_query_vector req) (emb_vector e)) (sc_score best) \<noteq> Some Greater"
    using best assms(4) by blast
qed

lemma rerank_defined:
  assumes "loop_inv X L s" "st_requesters s conv = Some req"
  shows "\<exists>scored. rerank fb (rs_required req) (rs_query_vector req) (rs_fetched_cards req) = (Ok scored :: (ScoredCandidate list, 'e) exec)"
proof -
  have ok: "vec_ok (rs_query_vector req)" "\<And>c. c \<in> set (rs_fetched_cards req) \<Longrightarrow> card_ok X c"
    using loop_invD(1) [OF assms] by (auto simp: req_ok_def)
  then show ?thesis using rerank_Ok [OF rankable_ok [OF ok]] by metis
qed

lemma maybe_send_request_Ok:
  assumes "loop_inv X L s" "can_seal X (st_identity s)"
  shows "fst (maybe_send_request X N conv s) = Ok ()"
proof -
  obtain r s' where eq: "maybe_send_request X N conv s = (r, s')" by force
  from eq have "r = Ok ()"
  proof (cases rule: maybe_send_request_cases)
    case (panic req p)
    then show ?thesis using rerank_defined [OF assms(1) panic(1), where 'e = anyhow and fb = "sort_unspecified N"] by auto
  next
    case (badpeer req scored best)
    then show ?thesis using rerank_chosen(2) [OF assms(1) badpeer(1,2,3)] by (auto simp: capability_verify_Ok_iff)
  qed (use assms(2) in simp_all)
  then show ?thesis using eq by simp
qed

lemma lookup_done_identity [simp]: "st_identity (lookup_done qid conv s) = st_identity s"
  by (simp add: lookup_done_def)

lemma card_done_identity [simp]: "st_identity (card_done X i conv req response s) = st_identity s"
  by (simp add: card_done_def)

lemma finish_lookup_Ok:
  assumes "loop_inv X L s" "can_seal X (st_identity s)"
  shows "fst (finish_lookup X N qid s) = Ok ()"
  using maybe_send_request_Ok [OF lookup_done_inv [OF assms(1)]] assms(2)
  by (simp add: finish_lookup_eq split: option.splits)

lemma on_directory_hit_Ok:
  assumes "can_seal X (st_identity s)"
  shows "fst (on_directory_hit X N rec conv s) = Ok ()"
proof -
  obtain r s' where eq: "on_directory_hit X N rec conv s = (r, s')" by force
  from eq have "r = Ok ()" by (cases rule: on_directory_hit_cases) (use assms in auto)
  then show ?thesis using eq by simp
qed

lemma handle_query_result_Ok:
  assumes "loop_inv X L s" "can_seal X (st_identity s)"
  shows "fst (handle_query_result X N qid result s) = Ok ()"
  using finish_lookup_Ok [OF assms] on_directory_hit_Ok [OF assms(2)]
  by (cases result) (simp_all add: Let_def split: option.splits)

lemma handle_card_response_Ok:
  assumes "loop_inv X L s" "can_seal X (st_identity s)" "input_ok (InSwarm (BehaviourCard (CardResponseMessage i response)))"
  shows "fst (handle_card_response X N i response s) = Ok ()"
proof (cases "\<exists>conv req. st_pending_card_fetches s i = Some conv \<and> st_requesters s conv = Some req")
  case False
  then show ?thesis by (auto simp: handle_card_response_def Let_def split: option.splits)
next
  case True
  then obtain conv req where pc: "st_pending_card_fetches s i = Some conv" and req: "st_requesters s conv = Some req"
    by blast
  show ?thesis using maybe_send_request_Ok [OF card_done_inv [OF assms(1) pc req assms(3)]] assms(2)
    by (simp add: handle_card_response_eq [OF pc req])
qed

text \<open>The database accepts every statement.\<close>

definition sql_works :: "'w net \<Rightarrow> bool" where
  "sql_works N \<longleftrightarrow> (\<forall>w. fst (sql_outcome N w) = None)"

lemma sql_worksD: "sql_works N \<Longrightarrow> sql_outcome N w \<noteq> (Some x, w')"
  by (auto simp: sql_works_def dest: spec [of _ w])

lemma on_acl_request_Ok:
  assumes "can_seal X (st_identity s)" "sql_works N"
  shows "fst (on_acl_request X N peer msg ch s) = Ok ()"
proof -
  obtain r1 s1 where r1: "handle_request_round1 X N peer msg ch s = (r1, s1)" by force
  from r1 have "r1 = Ok ()" by (cases rule: handle_request_round1_cases) (use assms in auto)
  moreover obtain r2 s2 where r2: "handle_agree_round2 X N peer msg ch s = (r2, s2)" by force
  from r2 have "r2 = Ok ()" by (cases rule: handle_agree_round2_cases) (use assms(1) sql_worksD [OF assms(2)] in auto)
  ultimately show ?thesis using r1 r2 by (simp add: on_acl_request_def split: Performative.splits)
qed

lemma on_acl_response_Ok:
  assumes "can_seal X (st_identity s)" "sql_works N"
  shows "fst (on_acl_response X N peer i msg s) = Ok ()"
proof -
  have a: "fst (send_agree X N conv msg s1) = Ok ()" if "st_identity s1 = st_identity s" for conv s1
  proof -
    obtain r s' where eq: "send_agree X N conv msg s1 = (r, s')" by force
    from eq have "r = Ok ()" by (cases rule: send_agree_cases) (use assms that in auto)
    then show ?thesis using eq by simp
  qed
  have c: "fst (complete_intent X N peer conv msg s1) = Ok ()" if "st_identity s1 = st_identity s" for conv s1
  proof -
    obtain r s' where eq: "complete_intent X N peer conv msg s1 = (r, s')" by force
    from eq have "r = Ok ()" by (cases rule: complete_intent_cases) (use assms(1) that sql_worksD [OF assms(2)] in auto)
    then show ?thesis using eq by simp
  qed
  show ?thesis using a c by (simp add: on_acl_response_def Let_def split: option.splits)
qed

lemma handle_swarm_event_Ok:
  assumes "loop_inv X L s" "can_seal X (st_identity s)" "sql_works N" "input_ok (InSwarm ev)"
  shows "fst (handle_swarm_event X N ev s) = Ok ()"
proof (cases ev)
  case (BehaviourKademlia e)
  then show ?thesis using handle_query_result_Ok [OF assms(1,2)] by (cases e) simp_all
next
  case (BehaviourCard e)
  then show ?thesis using handle_card_response_Ok [OF assms(1,2)] assms(4) by (cases e) (simp_all add: Let_def)
next
  case (BehaviourAcl e)
  then show ?thesis using on_acl_request_Ok [OF assms(2,3)] on_acl_response_Ok [OF assms(2,3)] by (cases e) simp_all
qed simp_all

section \<open>A search never gets stuck by itself\<close>

definition busy :: "RequesterState \<Rightarrow> bool" where
  "busy req \<longleftrightarrow> rs_request_sent req \<or> rs_outstanding_dht_queries req \<noteq> {} \<or> rs_in_flight_card_fetches req \<noteq> {}"

definition all_busy :: "string set \<Rightarrow> 'w State \<Rightarrow> bool" where
  "all_busy C s \<longleftrightarrow> (\<forall>c req. c \<notin> C \<longrightarrow> st_requesters s c = Some req \<longrightarrow> busy req)"

lemma all_busy_same: "all_busy C s \<Longrightarrow> st_requesters s' = st_requesters s \<Longrightarrow> all_busy C s'"
  by (simp add: all_busy_def)

lemma all_busy_upd:
  "all_busy {conv} s \<Longrightarrow> busy req \<Longrightarrow> st_requesters s' = (st_requesters s)(conv \<mapsto> req) \<Longrightarrow> all_busy {} s'"
  by (simp add: all_busy_def)

lemma all_busy_remove:
  "all_busy {conv} s \<Longrightarrow> st_requesters s' = (st_requesters s)(conv := None) \<Longrightarrow> all_busy {} s'"
  by (simp add: all_busy_def)

lemma all_busy_weaken: "all_busy {} s \<Longrightarrow> all_busy C s"
  by (simp add: all_busy_def)

lemma maybe_send_request_busy:
  assumes "all_busy {conv} s" "maybe_send_request X N conv s = (Ok (), s')"
  shows "all_busy {} s'"
  using assms(2)
proof (cases rule: maybe_send_request_cases)
  case idle
  then show ?thesis using assms(1) by (auto simp: all_busy_def busy_def)
next
  case (nomatch req scored)
  then show ?thesis by (intro all_busy_remove [OF assms(1)]) simp
next
  case (sent req scored best provider t w1 u w2 now w3 msg rid w4)
  then show ?thesis using assms(1) by (auto simp: all_busy_def busy_def upd_metrics_def split: if_splits)
qed simp_all

lemma finish_lookup_busy:
  assumes "all_busy {} s" "finish_lookup X N qid s = (Ok (), s')"
  shows "all_busy {} s'"
proof (cases "st_pending_lookups s qid")
  case None
  then show ?thesis using assms by (simp add: finish_lookup_eq)
next
  case (Some conv)
  have "all_busy {conv} (lookup_done qid conv s)"
    using assms(1) by (auto simp: all_busy_def lookup_done_def split: option.splits)
  then show ?thesis using maybe_send_request_busy assms(2) Some by (simp add: finish_lookup_eq)
qed

lemma on_directory_hit_busy:
  assumes "all_busy {} s" "on_directory_hit X N record conv s = (r, s')"
  shows "all_busy {} s'"
  using assms(2)
proof (cases rule: on_directory_hit_cases)
  case (fetch req dir peer i w)
  then show ?thesis by (intro all_busy_upd [OF all_busy_weaken [OF assms(1)]]) (simp_all add: busy_def)
qed (use assms(1) in simp)

lemma handle_card_response_busy:
  assumes "all_busy {} s" "handle_card_response X N i response s = (Ok (), s')"
  shows "all_busy {} s'"
proof (cases "\<exists>conv req. st_pending_card_fetches s i = Some conv \<and> st_requesters s conv = Some req")
  case False
  then have "st_requesters s' = st_requesters s" using assms(2)
    by (auto simp: handle_card_response_def Let_def split: option.splits)
  then show ?thesis by (rule all_busy_same [OF assms(1)])
next
  case True
  then obtain conv req where pc: "st_pending_card_fetches s i = Some conv" and req: "st_requesters s conv = Some req"
    by blast
  let ?s1 = "card_done X i conv req response s"
  have b1: "all_busy {conv} ?s1" using assms(1) by (simp add: all_busy_def card_done_def)
  show ?thesis
  proof (cases "rs_outstanding_dht_queries req = {} \<and> rs_in_flight_card_fetches req - {i} = {}")
    case True
    then show ?thesis using assms(2) maybe_send_request_busy [OF b1] by (simp add: handle_card_response_eq [OF pc req])
  next
    case False
    then have "handle_card_response X N i response s = (Ok (), ?s1)"
      unfolding handle_card_response_eq [OF pc req] by (rule if_not_P)
    then have "s' = ?s1" using assms(2) by simp
    then show ?thesis using False b1 by (auto simp: all_busy_def card_done_def busy_def split: if_splits)
  qed
qed

lemma on_acl_request_requesters: "st_requesters (snd (on_acl_request X N peer msg ch s)) = st_requesters s"
proof -
  obtain r1 s1 where r1: "handle_request_round1 X N peer msg ch s = (r1, s1)" by force
  from r1 have "st_requesters s1 = st_requesters s" by (cases rule: handle_request_round1_cases) simp_all
  moreover obtain r2 s2 where r2: "handle_agree_round2 X N peer msg ch s = (r2, s2)" by force
  from r2 have "st_requesters s2 = st_requesters s"
    by (cases rule: handle_agree_round2_cases) (simp_all add: upd_metrics_def)
  ultimately show ?thesis using r1 r2 by (simp add: on_acl_request_def split: Performative.splits)
qed

lemma on_acl_response_requesters:
  "\<exists>C. st_requesters (snd (on_acl_response X N peer i msg s)) = st_requesters s |` C"
proof -
  have a: "st_requesters (snd (send_agree X N conv msg s1)) = st_requesters s1" for conv s1
  proof -
    obtain r s' where eq: "send_agree X N conv msg s1 = (r, s')" by force
    from eq have "st_requesters s' = st_requesters s1" by (cases rule: send_agree_cases) simp_all
    then show ?thesis using eq by simp
  qed
  have c: "st_requesters (snd (complete_intent X N peer conv msg s1)) = st_requesters s1 |` (- {conv})" for conv s1
  proof -
    obtain r s' where eq: "complete_intent X N peer conv msg s1 = (r, s')" by force
    have "st_requesters s1 |` (- {conv}) = (st_requesters s1)(conv := None)"
      by (auto simp: restrict_map_def)
    with eq have "st_requesters s' = st_requesters s1 |` (- {conv})"
      by (cases rule: complete_intent_cases) (auto simp: effect_defs fun_eq_iff)
    then show ?thesis using eq by simp
  qed
  have "st_requesters s = st_requesters s |` UNIV" by (simp add: restrict_map_def)
  then have "\<exists>C. st_requesters s = st_requesters s |` C" by blast
  then show ?thesis by (auto simp: a c on_acl_response_def Let_def split: option.splits)
qed

lemma handle_swarm_event_busy:
  assumes "all_busy {} s" "handle_swarm_event X N ev s = (Ok (), s')"
  shows "all_busy {} s'"
proof (cases ev)
  case (BehaviourKademlia e)
  show ?thesis
  proof (cases e)
    case (OutboundQueryProgressed qid result)
    then show ?thesis
      using assms BehaviourKademlia on_directory_hit_busy [OF assms(1)] finish_lookup_busy [OF assms(1)]
      by (cases result)
        (auto simp: Let_def effect_defs intro: all_busy_same split: if_splits option.splits)
  qed (use assms BehaviourKademlia in \<open>auto simp: emit_def intro: all_busy_same split: if_splits\<close>)
next
  case (BehaviourCard e)
  then show ?thesis using assms handle_card_response_busy [OF assms(1)]
    by (cases e) (auto simp: Let_def intro: all_busy_same)
next
  case (BehaviourAcl e)
  show ?thesis
  proof (cases e)
    case (AclRequestMessage p m ch)
    then show ?thesis using assms BehaviourAcl on_acl_request_requesters [of X N p m ch s]
      by (intro all_busy_same [OF assms(1)]) simp
  next
    case (AclResponseMessage p i m)
    then show ?thesis using assms BehaviourAcl on_acl_response_requesters [of X N p i m s]
      by (auto simp: all_busy_def restrict_map_def split: if_splits)
  qed (use assms BehaviourAcl in simp)
next
  case (BehaviourMdns e)
  then show ?thesis using assms by (cases e) (auto intro: all_busy_same)
next
  case (BehaviourIdentify e)
  then show ?thesis using assms by (cases e) (auto intro: all_busy_same)
qed (use assms in \<open>auto simp: emit_def intro: all_busy_same\<close>)

lemma submit_intent_busy:
  assumes "net_fresh N L" "loop_inv X L s" "all_busy {} s"
    and "submit_intent X N required query intent reply s = (Ok (), s')"
  shows "all_busy {} s'"
  using assms(4)
proof (cases rule: submit_intent_cases)
  case (opened keys conv w1 out pl w2 t w3 req)
  obtain sigs where sigs: "signatures (st_lsh s) query = (Ok sigs :: (bytes list, anyhow) exec)"
    using opened(2) by (auto simp: lookup_keys_def exec_simps)
  have "(of_nat (length query) :: u32) = lp_dim (lsh_params (st_lsh s))"
    using sigs signatures_panics [of query "st_lsh s", where 'a = anyhow] by - (rule ccontr, simp)
  then have "length sigs = unat (lp_l (lsh_params (st_lsh s)))"
    using signatures_Ok [OF loop_invD(4) [OF assms(2)], of query, where 'e = anyhow] sigs by auto
  then have "sigs \<noteq> []" using loop_invD(6) [OF assms(2)] by (auto simp: unat_eq_0)
  then have "keys \<noteq> []" using opened(2) sigs by (cases sigs) (auto simp: lookup_keys_def)
  moreover have conv: "conv \<notin> lg_uuids L (st_swarm s)" "grows L (st_swarm s) w1"
    using net_freshD(6) [OF assms(1) opened(3)] by auto
  have "dom (st_pending_lookups s) \<subseteq> lg_queries L w1" "{} = {q. st_pending_lookups s q = Some conv}"
    using loop_invD(2) [OF assms(2)] conv by (auto simp: ids_ok_def grows_def ran_def)
  ultimately have "out \<noteq> {}" using get_all_fresh [OF assms(1) opened(4)] by blast
  then have "busy req" using opened(9) by (simp add: busy_def)
  then show ?thesis using opened(6) by (intro all_busy_upd [OF all_busy_weaken [OF assms(3)]]) simp_all
qed simp

lemma publish_requesters: "st_requesters (snd (publish X N c reply s)) = st_requesters s"
  by (simp add: publish_def Let_def reply_publish_def split: exec.splits prod.splits sum.splits)

lemma loop_turn_busy:
  assumes "net_fresh N L" "loop_inv X L s" "all_busy {} s" "loop_turn X N i s = (None, s')"
  shows "all_busy {} s'"
proof (cases i)
  case (InCommand c)
  then obtain c' where c: "c = Some c'" "c' \<noteq> Shutdown" "handle_command X N c' s = (Ok (), s')"
    using assms(4) by (cases c) (auto split: if_splits prod.splits exec.splits)
  then show ?thesis
  proof (cases c')
    case (PublishCapability crd reply)
    then show ?thesis using c(3) publish_requesters [of X N crd reply s]
      by (intro all_busy_same [OF assms(3)]) simp
  next
    case (SubmitIntent a b d e)
    then show ?thesis using c(3) submit_intent_busy [OF assms(1-3)] by simp
  qed simp
next
  case (InSwarm ev)
  then have "handle_swarm_event X N ev s = (Ok (), s')"
    using assms(4) by (auto split: prod.splits exec.splits)
  then show ?thesis using handle_swarm_event_busy [OF assms(3)] by simp
qed (use assms in \<open>auto intro: all_busy_same\<close>)

lemma reachable_busy:
  assumes "net_fresh N L" "loop_inv X L s0" "all_busy {} s0" "reachable X N s0 s"
  shows "all_busy {} s"
  using assms(4)
proof induction
  case (turn s i s')
  then show ?case using loop_turn_busy [OF assms(1) reachable_inv [OF turn.hyps(1) assms(1,2)]] by simp
qed (rule assms(3))

section \<open>The choice of the provider\<close>

text \<open>The cards a conversation chooses from in the turn of input \<open>i\<close>.\<close>

definition candidates :: "ext \<Rightarrow> Input \<Rightarrow> RequesterState \<Rightarrow> CapabilityCard list" where
  "candidates X i req = rs_fetched_cards req @ (case i of
     InSwarm (BehaviourCard (CardResponseMessage r response)) \<Rightarrow> response_cards X response | _ \<Rightarrow> [])"

definition best_match ::
  "ext \<Rightarrow> CapabilityCard list \<Rightarrow> RequesterState \<Rightarrow> RequesterState \<Rightarrow> string \<Rightarrow> 'w State \<Rightarrow> 'w State \<Rightarrow> bool" where
  "best_match X cs req req' conv s s' \<longleftrightarrow> (\<exists>c provider rid. c \<in> set cs \<and> capability_verify X c = Ok () \<and>
    (\<exists>f. card_facets c = Some f \<and> facets_match (rs_required req) f) \<and>
    pid_parse X (card_agent_id c) = Some provider \<and> rs_provider_peer req' = Some provider \<and>
    rs_chosen_capability_id req' = Some (card_capability_id c) \<and>
    (\<forall>d f e. d \<in> set cs \<longrightarrow> card_facets d = Some f \<longrightarrow> facets_match (rs_required req) f \<longrightarrow>
       card_embedding d = Some e \<longrightarrow>
       partial_cmp (dot (rs_query_vector req) (emb_vector e)) (rs_chosen_score req') \<noteq> Some Greater) \<and>
    st_pending_acl_round1 s' = (st_pending_acl_round1 s)(rid \<mapsto> conv))"

lemma maybe_send_request_best:
  assumes "loop_inv X L s" "st_requesters s conv = Some req" "\<not> rs_request_sent req"
    and "maybe_send_request X N c s = (Ok (), s')" "st_requesters s' conv = Some req'" "rs_request_sent req'"
  shows "best_match X (rs_fetched_cards req) req req' conv s s'"
  using assms(4)
proof (cases rule: maybe_send_request_cases)
  case (sent req0 scored best provider t w1 u w2 now w3 msg rid w4)
  have c: "c = conv" using sent(14) assms(2,3,5,6) by (auto simp: upd_metrics_def split: if_splits)
  then have r0: "req0 = req" using sent(1) assms(2) by simp
  note ch = rerank_chosen [OF assms(1) sent(1,6,7)]
  show ?thesis using ch sent(8,14) assms(5) c unfolding r0 best_match_def
    by (intro exI [of _ "sc_card best"] exI [of _ provider] exI [of _ rid]) (auto simp: upd_metrics_def)
qed (use assms in \<open>auto simp: reply_intent_def split: if_splits\<close>)

text \<open>Handlers that never set the flag of a sent REQUEST.\<close>

definition sent_stable :: "'w State \<Rightarrow> 'w State \<Rightarrow> bool" where
  "sent_stable s s' \<longleftrightarrow> (\<forall>c req req'. st_requesters s c = Some req \<longrightarrow> st_requesters s' c = Some req' \<longrightarrow>
     rs_request_sent req' = rs_request_sent req)"

lemma sent_stable_same: "st_requesters s' = st_requesters s \<Longrightarrow> sent_stable s s'"
  by (simp add: sent_stable_def)

lemma on_directory_hit_stable:
  assumes "on_directory_hit X N rec conv s = (r, s')"
  shows "sent_stable s s'"
  using assms by (cases rule: on_directory_hit_cases) (auto simp: sent_stable_def)

lemma lookup_done_req:
  assumes "st_requesters s c = Some req"
  obtains req1 where "st_requesters (lookup_done qid conv s) c = Some req1"
    "rs_request_sent req1 = rs_request_sent req" "rs_fetched_cards req1 = rs_fetched_cards req"
    "rs_required req1 = rs_required req" "rs_query_vector req1 = rs_query_vector req"
proof (cases "c = conv")
  case True
  then show thesis using assms that by (simp add: lookup_done_def)
next
  case False
  then have "st_requesters (lookup_done qid conv s) c = Some req"
    using assms by (simp add: lookup_done_def split: option.splits)
  then show thesis using that by simp
qed

text \<open>The turn in which a conversation sends its REQUEST: the end of a lookup, or a card response.\<close>

lemma finish_lookup_sends:
  assumes "loop_inv X L s" "finish_lookup X N qid s = (Ok (), s')"
    and "st_requesters s conv = Some req" "\<not> rs_request_sent req"
    and "st_requesters s' conv = Some req'" "rs_request_sent req'"
  shows "best_match X (rs_fetched_cards req) req req' conv s s'"
proof (cases "st_pending_lookups s qid")
  case None
  then show ?thesis using assms by (simp add: finish_lookup_eq)
next
  case (Some c)
  obtain req1 where r1: "st_requesters (lookup_done qid c s) conv = Some req1" "rs_request_sent req1 = rs_request_sent req"
    "rs_fetched_cards req1 = rs_fetched_cards req" "rs_required req1 = rs_required req" "rs_query_vector req1 = rs_query_vector req"
    using lookup_done_req [OF assms(3)] .
  have "maybe_send_request X N c (lookup_done qid c s) = (Ok (), s')" using assms(2) Some by (simp add: finish_lookup_eq)
  from maybe_send_request_best [OF lookup_done_inv [OF assms(1) Some] r1(1) _ this assms(5,6)]
  have "best_match X (rs_fetched_cards req1) req1 req' conv (lookup_done qid c s) s'" using r1(2) assms(4) by simp
  then show ?thesis unfolding best_match_def r1(3-5) lookup_done_frame(2) .
qed

lemma handle_card_response_sends:
  assumes "loop_inv X L s" "handle_card_response X N i response s = (Ok (), s')"
    and "input_ok (InSwarm (BehaviourCard (CardResponseMessage i response)))"
    and "st_requesters s conv = Some req" "\<not> rs_request_sent req"
    and "st_requesters s' conv = Some req'" "rs_request_sent req'"
  shows "best_match X (rs_fetched_cards req @ response_cards X response) req req' conv s s'"
proof (cases "\<exists>c q. st_pending_card_fetches s i = Some c \<and> st_requesters s c = Some q")
  case False
  then show ?thesis using assms
    by (auto simp: handle_card_response_def Let_def split: option.splits)
next
  case True
  then obtain c q where pc: "st_pending_card_fetches s i = Some c" and q: "st_requesters s c = Some q" by blast
  let ?s1 = "card_done X i c q response s"
  have stable: "st_requesters ?s1 conv = Some r \<Longrightarrow> \<not> rs_request_sent r" for r
    using assms(4,5) q by (auto simp: card_done_def split: if_splits)
  have "\<not> (rs_outstanding_dht_queries q = {} \<and> rs_in_flight_card_fetches q - {i} = {}) \<Longrightarrow> s' = ?s1"
    using assms(2) unfolding handle_card_response_eq [OF pc q] by (simp only: if_False prod.inject)
  then have m: "maybe_send_request X N c ?s1 = (Ok (), s')"
    using assms(2,6,7) stable unfolding handle_card_response_eq [OF pc q] by (auto split: if_splits)
  have c: "c = conv"
  proof (rule ccontr)
    assume "c \<noteq> conv"
    with m have "st_requesters s' conv = st_requesters ?s1 conv"
      by (cases rule: maybe_send_request_cases) (auto simp: effect_defs)
    then show False using assms(6,7) stable by simp
  qed
  then have "q = req" using q assms(4) by simp
  let ?r = "req\<lparr>rs_in_flight_card_fetches := rs_in_flight_card_fetches req - {i},
          rs_fetched_cards := rs_fetched_cards req @ response_cards X response\<rparr>"
  have "st_requesters ?s1 conv = Some ?r" using c \<open>q = req\<close> by (simp add: card_done_def)
  from maybe_send_request_best [OF card_done_inv [OF assms(1) pc q assms(3)] this _ m assms(6,7)]
  show ?thesis using assms(5) card_done_frame(2) [OF q] by (simp add: best_match_def)
qed

lemma swarm_event_sends:
  assumes "loop_inv X L s" "handle_swarm_event X N ev s = (Ok (), s')" "input_ok (InSwarm ev)"
    and "st_requesters s conv = Some req" "\<not> rs_request_sent req"
    and "st_requesters s' conv = Some req'" "rs_request_sent req'"
  shows "best_match X (candidates X (InSwarm ev) req) req req' conv s s'"
proof -
  have unstable: "\<not> sent_stable s s'" using assms(4-7) by (auto simp: sent_stable_def)
  note same = sent_stable_same [of s' s]
  show ?thesis
  proof (cases ev)
    case (BehaviourKademlia e)
    show ?thesis
    proof (cases e)
      case (OutboundQueryProgressed qid result)
      then show ?thesis using assms BehaviourKademlia on_directory_hit_stable [of X N _ _ s _ s'] unstable same
          finish_lookup_sends [OF assms(1) _ assms(4-7)]
        by (cases result) (auto simp: candidates_def Let_def effect_defs split: if_splits option.splits)
    qed (use assms(2) BehaviourKademlia same unstable in \<open>auto simp: emit_def split: if_splits\<close>)
  next
    case (BehaviourCard e)
    then show ?thesis using assms(2,3) same unstable handle_card_response_sends [OF assms(1) _ _ assms(4-7)]
      by (cases e) (auto simp: candidates_def Let_def)
  next
    case (BehaviourAcl e)
    show ?thesis
    proof (cases e)
      case (AclRequestMessage p m ch)
      then show ?thesis using assms(2) BehaviourAcl on_acl_request_requesters [of X N p m ch s] same unstable by simp
    next
      case (AclResponseMessage p j m)
      then have "sent_stable s s'" using assms(2) BehaviourAcl on_acl_response_requesters [of X N p j m s]
        by (auto simp: sent_stable_def restrict_map_def split: if_splits)
      then show ?thesis using unstable by blast
    qed (use assms(2) BehaviourAcl same unstable in simp)
  next
    case (BehaviourMdns e)
    then show ?thesis using assms(2) same unstable by (cases e) auto
  next
    case (BehaviourIdentify e)
    then show ?thesis using assms(2) same unstable by (cases e) (auto split: if_splits)
  qed (use assms(2) same unstable in \<open>auto simp: emit_def\<close>)
qed

lemma turn_sends:
  assumes "net_fresh N L" "loop_inv X L s" "input_ok i" "loop_turn X N i s = (None, s')"
    and "st_requesters s conv = Some req" "\<not> rs_request_sent req"
    and "st_requesters s' conv = Some req'" "rs_request_sent req'"
  shows "best_match X (candidates X i req) req req' conv s s'"
proof -
  have unstable: "\<not> sent_stable s s'" using assms(5-8) by (auto simp: sent_stable_def)
  note same = sent_stable_same [of s' s]
  show ?thesis
  proof (cases i)
    case (InCommand c)
    then obtain c' where c: "c = Some c'" "c' \<noteq> Shutdown" "handle_command X N c' s = (Ok (), s')"
      using assms(4) by (cases c) (auto split: if_splits prod.splits exec.splits)
    show ?thesis
    proof (cases c')
      case (PublishCapability crd reply)
      then show ?thesis using c(3) publish_requesters [of X N crd reply s] same unstable by simp
    next
      case (SubmitIntent a b d e)
      then have "submit_intent X N a b d e s = (Ok (), s')" using c(3) by simp
      then have "sent_stable s s'"
      proof (cases rule: submit_intent_cases)
        case (opened keys cv w1 out pl w2 t w3 r)
        have "st_requesters s cv = None"
          using net_freshD(6) [OF assms(1) opened(3)] loop_invD(2) [OF assms(2)] by (auto simp: ids_ok_def)
        then show ?thesis using opened(6) by (auto simp: sent_stable_def)
      qed simp
      then show ?thesis using unstable by blast
    qed (use c(2) in simp)
  next
    case (InSwarm ev)
    then have h: "handle_swarm_event X N ev s = (Ok (), s')" using assms(4) by (auto split: prod.splits exec.splits)
    show ?thesis using swarm_event_sends [OF assms(2) h] assms(3,5-8) InSwarm by simp
  qed (use assms(4) same unstable in auto)
qed

end
