(* ===== verification/Kite_Daemon.thy ===== *)
theory Kite_Daemon
  imports Kite_Event_Loop Kite_Encoder
begin

text \<open>
  \<^verbatim>\<open>kited/src/config.rs\<close>, \<^verbatim>\<open>main.rs\<close> and \<^verbatim>\<open>daemon.rs\<close> with the composition of the network
  behaviour in \<^verbatim>\<open>kite-mesh-transport/src/behaviour.rs\<close> and \<^verbatim>\<open>swarm.rs\<close>: how a daemon is
  configured and booted, and the inbox its callers use. What the operating system, the TOML
  parser, the embedding model, the database and libp2p answer during the boot is the record
  \<open>boot\<close>, an argument of the operations.
\<close>

section \<open>Configuration\<close>

record IdentityConfig =
  keypair_path :: "string option"

record NetworkConfig =
  listen_addr :: string
  enable_mdns :: bool

record StorageConfig =
  data_dir :: string

record MetricsConfig =
  metrics_enabled :: bool
  metrics_addr :: string

record KitedConfig =
  cfg_identity :: IdentityConfig
  cfg_network :: NetworkConfig
  cfg_storage :: StorageConfig
  cfg_metrics :: MetricsConfig

definition default_identity :: IdentityConfig where
  "default_identity = \<lparr>keypair_path = None\<rparr>"

definition default_network :: NetworkConfig where
  "default_network = \<lparr>listen_addr = ''/ip4/0.0.0.0/tcp/0'', enable_mdns = True\<rparr>"

definition default_storage :: StorageConfig where
  "default_storage = \<lparr>data_dir = ''./kited-data''\<rparr>"

definition default_metrics :: MetricsConfig where
  "default_metrics = \<lparr>metrics_enabled = True, metrics_addr = ''127.0.0.1:0''\<rparr>"

text \<open>
  A parsed TOML document: the four sections, each possibly missing. \<^verbatim>\<open>#[serde(default)]\<close> fills
  a missing section with its default.
\<close>

record TomlDoc =
  td_identity :: "IdentityConfig option"
  td_network :: "NetworkConfig option"
  td_storage :: "StorageConfig option"
  td_metrics :: "MetricsConfig option"

definition unwrap_or :: "'a \<Rightarrow> 'a option \<Rightarrow> 'a" where
  "unwrap_or d x = (case x of Some a \<Rightarrow> a | None \<Rightarrow> d)"

definition config_of_toml :: "TomlDoc \<Rightarrow> KitedConfig" where
  "config_of_toml d =
     \<lparr>cfg_identity = unwrap_or default_identity (td_identity d),
      cfg_network = unwrap_or default_network (td_network d),
      cfg_storage = unwrap_or default_storage (td_storage d),
      cfg_metrics = unwrap_or default_metrics (td_metrics d)\<rparr>"

definition default_config :: KitedConfig where
  "default_config = \<lparr>cfg_identity = default_identity, cfg_network = default_network,
     cfg_storage = default_storage, cfg_metrics = default_metrics\<rparr>"

section \<open>The network behaviour\<close>

definition IDENTIFY_PROTOCOL :: string where
  "IDENTIFY_PROTOCOL = ''/kite-mesh/id/1.0.0''"

text \<open>The composed behaviour, by what the source configures of it. Times are in seconds.\<close>

record MeshBehaviour =
  mb_local_peer_id :: PeerId
  mb_kad_protocol :: string
  mb_kad_query_timeout :: nat
  mb_kad_server_mode :: bool
  mb_mdns_ttl :: nat
  mb_mdns_query_interval :: nat
  mb_identify_protocol :: string
  mb_identify_key :: PublicKey
  mb_agent_version :: string
  mb_acl_protocol :: string
  mb_acl_request_timeout :: nat
  mb_card_protocol :: string
  mb_card_request_timeout :: nat

text \<open>\<^verbatim>\<open>events.rs\<close>: the events as the transport crate names them; the loop matches on those of libp2p instead.\<close>

datatype MeshEvent =
    MeshPeerDiscovered PeerId
  | MeshCapabilityPublished string u32
  | MeshDirectoryHit DirectoryRecord
  | MeshCapabilityFetched CapabilityCard
  | MeshAclRequest PeerId AclMessage
  | MeshAclResponse PeerId AclMessage
  | MeshListening string

text \<open>\<open>mdns\<close> is the error of opening the multicast socket, if any; \<open>version\<close> the package version.\<close>

definition mesh_behaviour_new ::
  "'w net \<Rightarrow> string \<Rightarrow> string option \<Rightarrow> PeerId \<Rightarrow> PublicKey \<Rightarrow> (MeshBehaviour, string) exec" where
  "mesh_behaviour_new N version mdns local_peer public = (case mdns of
     Some e \<Rightarrow> Err e
   | None \<Rightarrow> Ok
      \<lparr>mb_local_peer_id = local_peer,
       mb_kad_protocol = kad_protocol_name N,
       mb_kad_query_timeout = 10,
       mb_kad_server_mode = True,
       mb_mdns_ttl = 60,
       mb_mdns_query_interval = 5,
       mb_identify_protocol = IDENTIFY_PROTOCOL,
       mb_identify_key = public,
       mb_agent_version = ''kited/'' @ version,
       mb_acl_protocol = ACL_PROTOCOL,
       mb_acl_request_timeout = 10,
       mb_card_protocol = CARD_PROTOCOL,
       mb_card_request_timeout = 5\<rparr>)"

text \<open>
  The answers of the environment during the boot. \<open>bt_swarm\<close> is the swarm builder of libp2p: it
  makes the initial world from the key pair, the behaviour and the idle timeout.
\<close>

record 'w boot =
  bt_exists :: "string \<Rightarrow> bool"
  bt_fs :: Fs
  bt_text :: "string \<Rightarrow> string + string"
  bt_toml :: "string \<Rightarrow> string + TomlDoc"
  bt_metrics :: "string option"
  bt_fresh :: Keypair
  bt_encoder_join :: "string option"
  bt_encoder_load :: "string + unit"
  bt_mkdir :: "string option"
  bt_connect :: "string option"
  bt_migrate :: "string option"
  bt_database :: "string \<Rightarrow> ReceiptStore option"
  bt_version :: string
  bt_tcp :: "string option"
  bt_mdns :: "string option"
  bt_swarm :: "Keypair \<Rightarrow> MeshBehaviour \<Rightarrow> nat \<Rightarrow> 'w"
  bt_multiaddr :: "string \<Rightarrow> string + string"
  bt_listen :: "'w \<Rightarrow> string \<Rightarrow> string option \<times> 'w"

definition build_swarm :: "ext \<Rightarrow> 'w net \<Rightarrow> 'w boot \<Rightarrow> Keypair \<Rightarrow> ('w, string) exec" where
  "build_swarm X N B kp =
     (let public = kp_public X kp; local_peer = pid_of_key X public in
      case bt_tcp B of Some e \<Rightarrow> Err e | None \<Rightarrow>
        bind_exec (mesh_behaviour_new N (bt_version B) (bt_mdns B) local_peer public) (\<lambda>mb.
        Ok (bt_swarm B kp mb 60)))"

section \<open>Booting\<close>

datatype BootError =
    BIdentity Error | BEncoder EncoderError | BReceipts Error | BSwarm string
  | BMultiaddr string | BListen string | BConfig string | BToml string | BMetrics string
  | BSignal string | BLoop anyhow

text \<open>\<^verbatim>\<open>Path::join\<close> with a relative path.\<close>

definition path_join :: "string \<Rightarrow> string \<Rightarrow> string" where
  "path_join dir file = (if dir = [] then file
     else if last dir = CHR ''/'' then dir @ file else dir @ ''/'' @ file)"

text \<open>\<^verbatim>\<open>EventLoop::spawn\<close>: the initial state, listening on the configured address.\<close>

definition spawn ::
  "'w boot \<Rightarrow> 'w \<Rightarrow> AgentIdentity \<Rightarrow> AngularLsh \<Rightarrow> ReceiptStore \<Rightarrow> KitedConfig \<Rightarrow> ('w State, BootError) exec" where
  "spawn B w i lsh receipts cfg =
     (let s = initial_state w i lsh receipts in
      bind_exec (of_sum BMultiaddr (bt_multiaddr B (listen_addr (cfg_network cfg)))) (\<lambda>addr.
      case bt_listen B (st_swarm s) addr of
        (Some e, _) \<Rightarrow> Err (BListen e)
      | (None, w') \<Rightarrow> Ok (s\<lparr>st_swarm := w'\<rparr>)))"

record KitedHandle =
  kh_peer_id :: PeerId
  kh_identity :: AgentIdentity
  kh_receipts :: ReceiptStore

text \<open>\<^verbatim>\<open>Kited::start\<close>: the handle and the state of the loop that runs behind it.\<close>

definition boot_identity :: "ext \<Rightarrow> 'w boot \<Rightarrow> KitedConfig \<Rightarrow> (AgentIdentity, BootError) exec" where
  "boot_identity X B cfg = (case keypair_path (cfg_identity cfg) of
     Some path \<Rightarrow> if bt_exists B path then map_err BIdentity (identity_load X (bt_fs B) path)
                  else Ok (identity_generate (bt_fresh B))
   | None \<Rightarrow> Ok (identity_generate (bt_fresh B)))"

definition kited_start ::
  "ext \<Rightarrow> 'w net \<Rightarrow> 'w boot \<Rightarrow> KitedConfig \<Rightarrow> (KitedHandle \<times> 'w State, BootError) exec" where
  "kited_start X N B cfg =
     bind_exec (boot_identity X B cfg) (\<lambda>i.
     bind_exec (map_err BEncoder (encoder_new (bt_encoder_join B) (bt_encoder_load B))) (\<lambda>encoder.
     (let lsh = lsh_new X default_for_skeleton (default_seed X) in
      bind_exec (map_err BReceipts (store_open (bt_mkdir B) (bt_connect B) (bt_migrate B)
          (bt_database B (path_join (data_dir (cfg_storage cfg)) ''receipts.sqlite'')))) (\<lambda>receipts.
      bind_exec (map_err BSwarm (build_swarm X N B (keypair i))) (\<lambda>w.
      bind_exec (spawn B w i lsh receipts cfg) (\<lambda>s.
      Ok (\<lparr>kh_peer_id = peer_id X i, kh_identity = i, kh_receipts = receipts\<rparr>, s)))))))"

text \<open>\<^verbatim>\<open>metrics.rs\<close>: the metrics that are registered with the recorder, with their descriptions.\<close>

datatype MetricKind = Counter | HistogramSeconds

definition DIRECTORY_RECORDS_TOTAL :: string where
  "DIRECTORY_RECORDS_TOTAL = ''kite_mesh_directory_records_total''"

definition DIRECTORY_LOOKUP_SECONDS :: string where
  "DIRECTORY_LOOKUP_SECONDS = ''kite_mesh_directory_lookup_seconds''"

definition MATCH_ACCEPT_TOTAL :: string where
  "MATCH_ACCEPT_TOTAL = ''kite_mesh_match_accept_total''"

definition RECEIPTS_TOTAL :: string where
  "RECEIPTS_TOTAL = ''kite_mesh_receipts_total''"

definition metrics_install :: "string option \<Rightarrow> ((string \<times> MetricKind \<times> string) list, BootError) exec" where
  "metrics_install recorder = (case recorder of
     Some e \<Rightarrow> Err (BMetrics e)
   | None \<Rightarrow> Ok
      [(DIRECTORY_RECORDS_TOTAL, Counter, ''Total DHT directory records published by this daemon.''),
       (DIRECTORY_LOOKUP_SECONDS, HistogramSeconds, ''Wall-clock time to complete a DHT directory lookup.''),
       (MATCH_ACCEPT_TOTAL, Counter, ''Total candidates that passed the facet filter and cosine rerank.''),
       (RECEIPTS_TOTAL, Counter, ''Total signed receipts persisted by this daemon.'')])"

text \<open>The first part of \<^verbatim>\<open>run\<close> of \<^verbatim>\<open>main.rs\<close>: the configuration, the metrics, the start.\<close>

definition load_config :: "'w boot \<Rightarrow> string \<Rightarrow> (KitedConfig, BootError) exec" where
  "load_config B path = (if bt_exists B path
     then bind_exec (of_sum BConfig (bt_text B path)) (\<lambda>txt.
          bind_exec (of_sum BToml (bt_toml B txt)) (\<lambda>d. Ok (config_of_toml d)))
     else Ok default_config)"

definition main_run ::
  "ext \<Rightarrow> 'w net \<Rightarrow> 'w boot \<Rightarrow> string \<Rightarrow> (KitedHandle \<times> 'w State, BootError) exec" where
  "main_run X N B path =
     bind_exec (load_config B path) (\<lambda>cfg.
     bind_exec (metrics_install (bt_metrics B)) (\<lambda>metrics_handle. kited_start X N B cfg))"

section \<open>The inbox\<close>

text \<open>
  A call of the inbox sends its command with a fresh one-shot channel and awaits the answer: it
  fails when the loop is gone, and an answer is what the loop sent over the channel, or the
  error of a dropped sender once the loop has returned.
\<close>

definition inbox_send :: "bool \<Rightarrow> Command \<Rightarrow> (Input, anyhow) exec" where
  "inbox_send running c = (if running then Ok (InCommand (Some c)) else Err (Msg ''channel closed''))"

definition inbox_publish_capability :: "bool \<Rightarrow> CapabilityCard \<Rightarrow> Oneshot \<Rightarrow> (Input, anyhow) exec" where
  "inbox_publish_capability running crd ack = inbox_send running (PublishCapability crd ack)"

definition inbox_submit_intent ::
  "bool \<Rightarrow> CapabilityFacets \<Rightarrow> f32 list \<Rightarrow> Intent \<Rightarrow> Oneshot \<Rightarrow> (Input, anyhow) exec" where
  "inbox_submit_intent running required query intent reply =
     inbox_send running (SubmitIntent required query intent reply)"

definition inbox_shutdown :: "bool \<Rightarrow> Input option" where
  "inbox_shutdown running = (if running then Some (InCommand (Some Shutdown)) else None)"

definition await_reply :: "bool \<Rightarrow> Oneshot \<Rightarrow> (Oneshot \<times> ('a, anyhow) exec) list \<Rightarrow> ('a, anyhow) exec option" where
  "await_reply returned ch replies = (case map_of replies ch of
     Some v \<Rightarrow> Some v
   | None \<Rightarrow> if returned then Some (Err (Msg ''channel closed'')) else None)"

text \<open>\<^verbatim>\<open>KitedHandle::join\<close>: the result of the loop's task; a panic is the error of the join.\<close>

definition kited_join :: "(unit, anyhow) exec \<Rightarrow> (unit, anyhow) exec" where
  "kited_join r = (case r of Panic p \<Rightarrow> Err (Msg p) | _ \<Rightarrow> r)"

text \<open>
  The whole of \<^verbatim>\<open>run\<close>: the boot, the wait for the interrupt (\<open>ctrl_c\<close> is its error, if any), the
  shutdown command and the join. \<open>served\<close> are the inputs the loop has taken when the interrupt
  comes, \<open>queued\<close> those it still takes ahead of the shutdown command. The result is \<open>None\<close> when
  the join does not return.
\<close>

definition main_exit ::
  "ext \<Rightarrow> 'w net \<Rightarrow> 'w boot \<Rightarrow> string \<Rightarrow> string option \<Rightarrow> Input list \<Rightarrow> Input list \<Rightarrow> (unit, BootError) exec option" where
  "main_exit X N B path ctrl_c served queued = (case main_run X N B path of
     Err e \<Rightarrow> Some (Err e)
   | Panic p \<Rightarrow> Some (Panic p)
   | Ok (h, s) \<Rightarrow> (case ctrl_c of
       Some e \<Rightarrow> Some (Err (BSignal e))
     | None \<Rightarrow>
         (let running = (fst (run X N served s) = None);
              shutdown = (case inbox_shutdown running of Some i \<Rightarrow> [i] | None \<Rightarrow> [])
          in map_option (\<lambda>r. map_err BLoop (kited_join r)) (fst (run X N (served @ queued @ shutdown) s)))))"

text \<open>
  The command line, as \<^verbatim>\<open>clap\<close> hands it over, and \<^verbatim>\<open>main\<close>: the only command is \<^verbatim>\<open>run\<close>; \<open>config\<close> is the
  argument of its option, if given.
\<close>

datatype Cmd = Run string

record Cli =
  cli_cmd :: Cmd

definition cli_of :: "string option \<Rightarrow> Cli" where
  "cli_of config = \<lparr>cli_cmd = Run (unwrap_or ''kited.toml'' config)\<rparr>"

definition kited_main ::
  "ext \<Rightarrow> 'w net \<Rightarrow> 'w boot \<Rightarrow> Cli \<Rightarrow> string option \<Rightarrow> Input list \<Rightarrow> Input list \<Rightarrow> (unit, BootError) exec option" where
  "kited_main X N B cli ctrl_c served queued =
     (case cli_cmd cli of Run config \<Rightarrow> main_exit X N B config ctrl_c served queued)"

section \<open>Lemmas\<close>

lemma run_append:
  "run X N (is @ js) s = (case run X N is s of (Some r, s') \<Rightarrow> (Some r, s') | (None, s') \<Rightarrow> run X N js s')"
  by (induction "is" arbitrary: s) (auto split: prod.splits option.splits)

lemma run_shutdown: "fst (run X N (is @ [InCommand (Some Shutdown)]) s) =
    Some (case fst (run X N is s) of Some r \<Rightarrow> r | None \<Rightarrow> Ok ())"
  by (auto simp: run_append split: prod.splits option.splits)

lemma spawn_Ok:
  assumes "spawn B w i lsh receipts cfg = Ok s"
  shows "\<exists>w'. s = (initial_state w i lsh receipts)\<lparr>st_swarm := w'\<rparr>"
proof -
  obtain addr where "bt_multiaddr B (listen_addr (cfg_network cfg)) = Inr addr"
    using assms by (cases "bt_multiaddr B (listen_addr (cfg_network cfg))") (simp_all add: spawn_def)
  moreover obtain e w' where "bt_listen B (st_swarm (initial_state w i lsh receipts)) addr = (e, w')" by force
  ultimately show ?thesis using assms by (cases e) (auto simp: spawn_def)
qed

lemma kited_start_Ok:
  assumes "kited_start X N B cfg = Ok (h, s)"
  obtains w w' mb where "boot_identity X B cfg = Ok (kh_identity h)"
    "mesh_behaviour_new N (bt_version B) (bt_mdns B) (peer_id X (kh_identity h)) (public_key X (kh_identity h)) = Ok mb"
    "w = bt_swarm B (keypair (kh_identity h)) mb 60"
    "kh_peer_id h = peer_id X (kh_identity h)"
    "s = (initial_state w (kh_identity h) (lsh_new X default_for_skeleton (default_seed X)) (kh_receipts h))\<lparr>st_swarm := w'\<rparr>"
proof -
  obtain i w receipts where i: "boot_identity X B cfg = Ok i" "build_swarm X N B (keypair i) = Ok w"
    "spawn B w i (lsh_new X default_for_skeleton (default_seed X)) receipts cfg = Ok s"
    "h = \<lparr>kh_peer_id = peer_id X i, kh_identity = i, kh_receipts = receipts\<rparr>"
    using assms by (auto simp: kited_start_def Let_def exec_simps)
  obtain mb where "mesh_behaviour_new N (bt_version B) (bt_mdns B) (peer_id X i) (public_key X i) = Ok mb"
    "w = bt_swarm B (keypair i) mb 60"
    using i(2) by (auto simp: build_swarm_def peer_id_def public_key_def Let_def exec_simps split: option.splits)
  then show thesis using i spawn_Ok [OF i(3)] that by auto
qed

text \<open>Once the interrupt has come, \<^verbatim>\<open>run\<close> returns.\<close>

lemma main_returns:
  "main_exit X N B path None served queued = Some (case main_run X N B path of
     Err e \<Rightarrow> Err e
   | Panic p \<Rightarrow> Panic p
   | Ok (h, s) \<Rightarrow> (case fst (run X N (served @ queued) s) of
       Some (Err e) \<Rightarrow> Err (BLoop e)
     | Some (Panic p) \<Rightarrow> Err (BLoop (Msg p))
     | _ \<Rightarrow> Ok ()))"
proof (cases "main_run X N B path")
  case (Ok a)
  obtain h s where a: "a = (h, s)" by (cases a)
  obtain r s' where r: "run X N served s = (r, s')" by (cases "run X N served s")
  show ?thesis
  proof (cases r)
    case None
    then show ?thesis using run_shutdown [of X N "served @ queued" s] Ok a r
      by (auto simp: main_exit_def inbox_shutdown_def kited_join_def split: option.splits exec.splits)
  next
    case (Some x)
    then show ?thesis using Ok a r
      by (auto simp: main_exit_def inbox_shutdown_def kited_join_def run_append split: option.splits exec.splits)
  qed
qed (simp_all add: main_exit_def)

section \<open>Properties\<close>

text \<open>
  A booted daemon is one identity throughout: the peer identifier of the handle, the key
  the event loop signs with, the local peer of the swarm's behaviour and the key that identify
  announces all belong to the same key pair; the loop starts with no conversation, and with
  the canonical hash tables.
\<close>

lemma boot_one_identity:
  assumes "kited_start X N B cfg = Ok (h, s)"
  shows "kh_peer_id h = peer_id X (st_identity s) \<and> kh_identity h = st_identity s \<and>
    kh_receipts h = st_receipts s \<and>
    (\<exists>mb. mb_local_peer_id mb = kh_peer_id h \<and> mb_identify_key mb = public_key X (st_identity s) \<and>
       mesh_behaviour_new N (bt_version B) (bt_mdns B) (kh_peer_id h) (public_key X (st_identity s)) = Ok mb) \<and>
    st_requesters s = Map.empty \<and> st_local_cards s = Map.empty \<and>
    st_lsh s = lsh_new X default_for_skeleton (default_seed X)"
  using assms
  by (elim kited_start_Ok)
    (auto simp: initial_state_def mesh_behaviour_new_def split: option.splits)

text \<open>
  C39: an identity that was saved to the configured key file is the identity of every later
  boot from that file; without a key file, or when the file does not exist, the boot uses the
  freshly drawn key pair.
\<close>

theorem boot_identity_from_file:
  assumes "keypair_law X" "identity_save X i path fs = (Ok (), bt_fs B)" "fs_read_error (bt_fs B) path = None"
    and "keypair_path (cfg_identity cfg) = Some path" "kited_start X N B cfg = Ok (h, s)"
  shows "kh_identity h = (if bt_exists B path then i else identity_generate (bt_fresh B)) \<and>
    kh_peer_id h = peer_id X (kh_identity h)"
proof -
  have "identity_load X (bt_fs B) path = Ok i" using saved_identity_loads [OF assms(1-3)] .
  then show ?thesis using assms(4,5)
    by (elim kited_start_Ok) (auto simp: boot_identity_def exec_simps split: if_splits)
qed


end
