(* ===== verification/Kite_Conversation.thy ===== *)
theory Kite_Conversation
  imports Kite_Progress Kite_Daemon
begin

text \<open>
  What a booted daemon promises: the invariant holds in every reachable state, no network event
  ends the loop, a conversation moves through the phases of the abstract protocol, a reply is
  sent exactly when a conversation closes, and the REQUEST goes to the best verified match.
\<close>

section \<open>Booted daemons\<close>

text \<open>The states of a daemon that \<^verbatim>\<open>Kited::start\<close> booted.\<close>

definition daemon_state :: "ext \<Rightarrow> 'w net \<Rightarrow> 'w State \<Rightarrow> bool" where
  "daemon_state X N s \<longleftrightarrow> (\<exists>B cfg h s0. kited_start X N B cfg = Ok (h, s0) \<and> reachable X N s0 s)"

lemma booted_inv:
  assumes "kited_start X N B cfg = Ok (h, s0)"
  shows "loop_inv X L s0 \<and> all_busy {} s0"
proof -
  obtain w where s0: "s0 = initial_state w (kh_identity h) (lsh_new X default_for_skeleton (default_seed X)) (kh_receipts h)"
    using assms by (elim kited_start_Ok) (simp add: initial_state_def)
  have "loop_inv X L s0" unfolding s0
    by (rule initial_state_inv, rule default_lsh_wf)
      (simp_all add: lsh_new_def default_for_skeleton_def DEFAULT_L_def)
  then show ?thesis by (simp add: s0 all_busy_def initial_state_def)
qed

lemma daemon_inv:
  assumes "net_fresh N L" "daemon_state X N s"
  shows "loop_inv X L s" and "all_busy {} s"
  using assms booted_inv reachable_inv reachable_busy unfolding daemon_state_def by metis+

lemma daemon_turn:
  "daemon_state X N s \<Longrightarrow> input_ok i \<Longrightarrow> loop_turn X N i s = (None, s') \<Longrightarrow> daemon_state X N s'"
  unfolding daemon_state_def using reachable.turn by metis

text \<open>A stalled conversation remains so, with its caller waiting.\<close>

lemma stalled_run:
  assumes "net_fresh N L"
  shows "daemon_state X N s \<Longrightarrow> phase_of L conv s = Stalled \<Longrightarrow> st_requesters s conv = Some req \<Longrightarrow> list_all input_ok is \<Longrightarrow>
    run X N is s = (None, s') \<Longrightarrow>
    phase_of L conv s' = Stalled \<and> (\<exists>req'. st_requesters s' conv = Some req' \<and> rs_reply req' = rs_reply req)"
proof (induction "is" arbitrary: s req)
  case (Cons i "is")
  obtain s1 where t: "loop_turn X N i s = (None, s1)" "run X N is s1 = (None, s')"
    using Cons.prems(5) by (auto split: prod.splits option.splits)
  have i: "input_ok i" "list_all input_ok is" using Cons.prems(4) by simp_all
  note f = loop_turn_follows [OF assms daemon_inv(1) [OF assms Cons.prems(1)] i(1) t(1)]
  have st: "phase_of L conv s1 = Stalled"
    using f Cons.prems(2) unfolding follows_def by (metis phase_step_final(2))
  then obtain req1 where req1: "st_requesters s1 conv = Some req1" by (auto simp: phase_of_def split: option.splits if_splits)
  then have "rs_reply req1 = rs_reply req" using f Cons.prems(3) unfolding reply_step_def by force
  then show ?case using Cons.IH [OF daemon_turn [OF Cons.prems(1) i(1) t(1)] st req1 i(2) t(2)] by simp
qed auto

section \<open>Properties\<close>

text \<open>
  C3: every state that a booted daemon reaches satisfies the loop invariant: each
  conversation's sets of outstanding queries and card fetches are exactly the entries of the
  pending maps that name it, only verified cards are kept, at most one ACL request of a
  conversation is awaited, a sent REQUEST comes with a provider and a chosen capability, every
  local card verifies, and the event queue stays within its capacity.
\<close>

theorem daemon_invariant:
  assumes "net_fresh N L" "daemon_state X N s"
  shows "loop_inv X L s"
  using daemon_inv(1) [OF assms] .

text \<open>
  C7: no network event ends the daemon: whatever a peer sends (malformed records, unsigned or
  replayed messages, cards that do not verify, answers nobody asked for), a turn of the loop on
  a swarm event neither panics nor returns an error, as long as the daemon can encode and sign,
  the database works, and the embeddings on the wire have components in \<open>[-1, 1]\<close>.
\<close>

theorem network_event_keeps_running:
  assumes "net_fresh N L" "daemon_state X N s" "can_seal X (st_identity s)" "sql_works N" "input_ok (InSwarm ev)"
  shows "\<exists>s'. loop_turn X N (InSwarm ev) s = (None, s') \<and> daemon_state X N s'"
proof -
  obtain s' where "handle_swarm_event X N ev s = (Ok (), s')"
    using handle_swarm_event_Ok [OF daemon_inv(1) [OF assms(1,2)] assms(3-5)] by (metis prod.collapse)
  then have "loop_turn X N (InSwarm ev) s = (None, s')" by simp
  then show ?thesis using daemon_turn [OF assms(2,5)] by blast
qed

text \<open>
  C4: the loop implements the abstract protocol: a turn moves every conversation by one step of
  the phases (unused, searching, awaiting a PROPOSE, awaiting an INFORM, stalled, closed), never
  backwards in this order. In particular a REQUEST and an AGREE are sent at most once per
  conversation, and a closed or stalled conversation remains so.
\<close>

theorem turn_refines_protocol:
  assumes "net_fresh N L" "daemon_state X N s" "input_ok i" "loop_turn X N i s = (None, s')"
  shows "phase_step (phase_of L conv s) (phase_of L conv s') \<and> phase_of L conv s \<le> phase_of L conv s' \<and>
    (phase_of L conv s \<in> {Closed, Stalled} \<longrightarrow> phase_of L conv s' = phase_of L conv s)"
proof -
  have "phase_step (phase_of L conv s) (phase_of L conv s')"
    using loop_turn_follows [OF assms(1) daemon_inv(1) [OF assms(1,2)] assms(3,4)] by (simp add: follows_def)
  then show ?thesis using phase_step_le by (auto simp: phase_step_final)
qed

text \<open>
  C10: the caller of \<^verbatim>\<open>submit_intent\<close> is answered exactly when its conversation closes: in a turn
  that does not end the loop, a conversation that disappears is answered on its own channel,
  every other open conversation keeps its channel, at most one answer is sent, and no answer is
  sent when no conversation closes.
\<close>

theorem reply_iff_closed:
  assumes "net_fresh N L" "daemon_state X N s" "input_ok i" "loop_turn X N i s = (None, s')"
  shows "\<exists>rs. st_intent_replies s' = st_intent_replies s @ rs \<and> length rs \<le> 1 \<and>
    (\<forall>conv req. st_requesters s conv = Some req \<longrightarrow>
       (\<exists>ch. rs_reply req = Some ch \<and>
          (case st_requesters s' conv of Some req' \<Rightarrow> rs_reply req' = Some ch | None \<Rightarrow> \<exists>v. rs = [(ch, v)]))) \<and>
    (rs \<noteq> [] \<longrightarrow> (\<exists>conv. st_requesters s conv \<noteq> None \<and> st_requesters s' conv = None))"
proof -
  have inv: "loop_inv X L s" using daemon_inv(1) [OF assms(1,2)] .
  obtain rs where rs: "st_intent_replies s' = st_intent_replies s @ rs"
    "\<And>c req. st_requesters s c = Some req \<Longrightarrow> (case st_requesters s' c of
        Some req' \<Rightarrow> rs_reply req' = rs_reply req | None \<Rightarrow> \<exists>ch v. rs_reply req = Some ch \<and> rs = [(ch, v)])"
    "rs = [] \<or> (\<exists>c req. st_requesters s c = Some req \<and> st_requesters s' c = None)"
    using loop_turn_follows [OF assms(1) inv assms(3,4)] unfolding reply_step_def by blast
  have "\<exists>ch. rs_reply req = Some ch \<and>
      (case st_requesters s' conv of Some req' \<Rightarrow> rs_reply req' = Some ch | None \<Rightarrow> \<exists>v. rs = [(ch, v)])"
    if "st_requesters s conv = Some req" for conv req
    using rs(2) [OF that] inv_reply [OF inv that] by (cases "st_requesters s' conv") auto
  moreover have "length rs \<le> 1"
  proof (cases "rs = []")
    case False
    then obtain c req where "st_requesters s c = Some req" "st_requesters s' c = None" using rs(3) by blast
    then show ?thesis using rs(2) [of c req] by auto
  qed simp
  moreover have "rs \<noteq> [] \<longrightarrow> (\<exists>conv. st_requesters s conv \<noteq> None \<and> st_requesters s' conv = None)"
    using rs(3) by auto
  ultimately show ?thesis using rs(1) by blast
qed

text \<open>
  A search never gets stuck by itself: in every reachable state a conversation that has
  not sent its REQUEST still has an outstanding directory query or card fetch, registered in
  the pending maps, whose answer the loop will attribute to it.
\<close>

lemma search_in_progress:
  assumes "net_fresh N L" "daemon_state X N s" "st_requesters s conv = Some req" "\<not> rs_request_sent req"
  shows "(\<exists>q\<in>rs_outstanding_dht_queries req. st_pending_lookups s q = Some conv) \<or>
    (\<exists>r\<in>rs_in_flight_card_fetches req. st_pending_card_fetches s r = Some conv)"
proof -
  have "busy req" using daemon_inv(2) [OF assms(1,2)] assms(3) by (simp add: all_busy_def)
  then show ?thesis using assms(4) loop_invD(1) [OF daemon_inv(1) [OF assms(1,2)] assms(3)]
    by (auto simp: busy_def req_ok_def)
qed

text \<open>
  C17: an answer of the wrong kind stalls its conversation for good: when a verified response to the
  REQUEST is not a PROPOSE, or one to the AGREE is not an INFORM, then whatever happens afterwards the
  conversation stays open with its caller's channel, awaits nothing any more, and its caller is
  never answered.
\<close>

theorem wrong_answer_stalls:
  assumes "net_fresh N L" "daemon_state X N s" "st_requesters s conv = Some req" "is_ok (acl_verify X msg)"
    and "st_pending_acl_round1 s i = Some conv \<and> performative_of msg \<noteq> Propose \<or>
      st_pending_acl_round1 s i = None \<and> st_pending_acl_round2 s i = Some conv \<and> performative_of msg \<noteq> Inform"
    and "list_all input_ok is" "run X N (InSwarm (BehaviourAcl (AclResponseMessage peer i msg)) # is) s = (None, s')"
  shows "phase_of L conv s' = Stalled \<and> (\<exists>req'. st_requesters s' conv = Some req' \<and> rs_reply req' = rs_reply req)"
proof -
  let ?ev = "InSwarm (BehaviourAcl (AclResponseMessage peer i msg))"
  note inv = daemon_inv(1) [OF assms(1,2)]
  obtain s1 where t: "loop_turn X N ?ev s = (None, s1)" "run X N is s1 = (None, s')"
    using assms(7) by (auto simp del: loop_turn.simps split: prod.splits option.splits)
  have "conv \<in> ran (st_pending_acl_round1 s) \<or> conv \<in> ran (st_pending_acl_round2 s)" using assms(5) by (auto intro: ranI)
  then have sent: "rs_request_sent req" using loop_invD(1) [OF inv assms(3)] by (auto simp: req_ok_def split: if_splits)
  have "phase_of L conv s1 = Stalled \<and> st_requesters s1 conv = Some req"
    using assms(5)
  proof
    assume r: "st_pending_acl_round1 s i = Some conv \<and> performative_of msg \<noteq> Propose"
    then have "s1 = s\<lparr>st_pending_acl_round1 := (st_pending_acl_round1 s)(i := None)\<rparr>"
      using t(1) assms(4) by (simp add: on_acl_response_def)
    then show ?thesis using one_acl_remove(3) [OF loop_invD(3) [OF inv], of i conv] r assms(3) sent by (simp add: phase_of_def)
  next
    assume r: "st_pending_acl_round1 s i = None \<and> st_pending_acl_round2 s i = Some conv \<and> performative_of msg \<noteq> Inform"
    then have "s1 = s\<lparr>st_pending_acl_round2 := (st_pending_acl_round2 s)(i := None)\<rparr>"
      using t(1) assms(4) by (simp add: on_acl_response_def)
    then show ?thesis using one_acl_remove(4) [OF loop_invD(3) [OF inv], of i conv] r assms(3) sent by (simp add: phase_of_def)
  qed
  then show ?thesis using stalled_run [OF assms(1) daemon_turn [OF assms(2) _ t(1)] _ _ assms(6) t(2)] by simp
qed


end
