(* ===== verification/Kite_Exchange.thy ===== *)
theory Kite_Exchange
  imports Kite_Conversation
begin

text \<open>
  The effects of the exchange between two daemons: what a daemon does on a message, that only
  authentic messages have an effect, that an AGREE is consumed once, and a conversation from its
  REQUEST to the receipts on both sides.
\<close>

section \<open>Effects, step by step\<close>

text \<open>Laws of the third-party operations that the exchange relies on.\<close>

definition mesh_laws :: "ext \<Rightarrow> bool" where
  "mesh_laws X \<longleftrightarrow> sign_law X \<and> key_law X \<and> pid_law X"

lemma mesh_lawsD: "mesh_laws X \<Longrightarrow> sign_law X" "mesh_laws X \<Longrightarrow> key_law X" "mesh_laws X \<Longrightarrow> pid_law X"
  by (simp_all add: mesh_laws_def)

text \<open>The receipt that a daemon has stored for a conversation, and that it verifies.\<close>

definition has_receipt :: "ext \<Rightarrow> 'w State \<Rightarrow> string \<Rightarrow> string \<Rightarrow> string \<Rightarrow> string \<Rightarrow> bytes option \<Rightarrow> bool" where
  "has_receipt X s conv cap requester provider counter \<longleftrightarrow>
     (\<exists>r. store_get None conv (st_receipts s) = Ok (Some r) \<and> receipt_verify X (sr_receipt r) = Ok () \<and>
        rec_capability_id (sr_receipt r) = cap \<and> rec_requester_peer_id (sr_receipt r) = requester \<and>
        rec_provider_peer_id (sr_receipt r) = provider \<and> rec_status (sr_receipt r) = result_status_as_i32 ROk \<and>
        rec_issuer_public_key (sr_receipt r) = pk_encode X (public_key X (st_identity s)) \<and>
        sr_counterparty_signature r = counter)"

lemma has_receipt_stored:
  assumes "mesh_laws X" "receipt_build X t (st_identity s) conv cap requester provider ROk = Ok rec"
    and "st_receipts s = db(conv \<mapsto> row_of rec counter)"
  shows "has_receipt X s conv cap requester provider counter"
  using receipt_build_verifies [OF mesh_lawsD(1,2) [OF assms(1)] assms(2)] receipt_build_fields [OF assms(2)] assms(3)
  by (auto simp: has_receipt_def store_get_def stored_of_row_of)

text \<open>The fields of a message that a builder has made.\<close>

lemma built_fields:
  assumes "acl_build X t u (acl_new i conv) perf ont irt pl = Ok m"
  shows "performative_of m = perf" "acl_payload m = pl" "acl_conversation_id m = conv" "acl_in_reply_to m = irt"
  using acl_build_fields [OF assms] by (simp_all add: performative_of_def acl_new_def)

lemma is_ok_unit: "is_ok m \<longleftrightarrow> m = Ok ()"
  by (simp add: is_ok_iff)

text \<open>A REQUEST with an intent, at a daemon with a local card.\<close>

lemma request_effect:
  assumes "can_seal X (st_identity s)" "acl_verify X msg = Ok ()" "performative_of msg = Request"
    and "acl_payload msg = Some (PIntent intent)" "hash_first N (st_swarm s) (st_local_cards s) = Some cap"
  obtains m w s' where "on_acl_request X N peer msg ch s = (Ok (), s')"
    "acl_verify X m = Ok () \<or> \<not> mesh_laws X" "performative_of m = Propose"
    "acl_in_reply_to m = acl_message_id msg" "acl_conversation_id m = acl_conversation_id msg"
    "st_swarm s' = acl_send_response N w ch m" "st_identity s' = st_identity s"
    "st_receipts s' = st_receipts s"
    "st_providers s' = (st_providers s)(acl_conversation_id msg \<mapsto>
       \<lparr>ps_requester_peer = peer, ps_capability_id = cap,
        ps_intent_payload = (if int_payload intent = [] then empty_payload else int_payload intent)\<rparr>)"
proof -
  obtain r s' where eq: "handle_request_round1 X N peer msg ch s = (r, s')" by force
  then show thesis
  proof (cases rule: handle_request_round1_cases)
    case (proposed i c t w1 u w2 m)
    have m: "acl_build X t u (acl_new (st_identity s) (acl_conversation_id msg)) Propose (acl_ontology msg) (acl_message_id msg)
      (Some (PProposal \<lparr>pro_capability_id = c, pro_provider_agent_id = pid_to_string X (peer_id X (st_identity s)),
          pro_quote = ''echo'', pro_expires_at_ns = 0\<rparr>)) = Ok m" using proposed(6) by (simp add: acl_propose_def)
    have "on_acl_request X N peer msg ch s = (Ok (), s')"
      using eq assms(2,3) proposed(1) by (simp add: on_acl_request_def is_ok_unit)
    moreover have "acl_verify X m = Ok () \<or> \<not> mesh_laws X"
      using acl_build_verifies [OF mesh_lawsD m] by blast
    ultimately show thesis
      using that [of s' m w2] acl_build_fields [OF m] proposed assms(4,5) by (simp add: performative_of_def acl_new_def)
  qed (use assms in auto)
qed

text \<open>An awaited PROPOSE.\<close>

lemma propose_effect:
  assumes "can_seal X (st_identity s)" "acl_verify X msg = Ok ()" "performative_of msg = Propose"
    and "st_pending_acl_round1 s i = Some conv" "st_requesters s conv = Some req" "rs_provider_peer req = Some provider"
  obtains m j w s' where "on_acl_response X N peer i msg s = (Ok (), s')"
    "acl_verify X m = Ok () \<or> \<not> mesh_laws X" "performative_of m = Agree"
    "acl_in_reply_to m = acl_message_id msg" "acl_conversation_id m = conv"
    "acl_send_request N w provider m = (j, st_swarm s')" "st_identity s' = st_identity s"
    "st_pending_acl_round1 s' = (st_pending_acl_round1 s)(i := None)"
    "st_pending_acl_round2 s' = (st_pending_acl_round2 s)(j \<mapsto> conv)"
    "st_requesters s' = st_requesters s" "st_receipts s' = st_receipts s" "st_intent_replies s' = st_intent_replies s"
    "\<And>L. net_fresh N L \<Longrightarrow> grows L (st_swarm s) w"
proof -
  let ?s1 = "s\<lparr>st_pending_acl_round1 := (st_pending_acl_round1 s)(i := None)\<rparr>"
  obtain r s' where eq: "send_agree X N conv msg ?s1 = (r, s')" by force
  then show thesis
  proof (cases rule: send_agree_cases)
    case (sent req' provider' t w1 u w2 m j w3)
    have m: "acl_build X t u (acl_new (st_identity s) conv) Agree ECHO_ONTOLOGY (acl_message_id msg)
      (Some (PAgreement \<lparr>agr_conversation_id = conv,
          agr_capability_id = (case rs_chosen_capability_id req' of Some c \<Rightarrow> c | None \<Rightarrow> '''')\<rparr>)) = Ok m"
      using sent(6) by (simp add: acl_agree_def)
    have "on_acl_response X N peer i msg s = (Ok (), s')"
      using eq assms(2-4) sent(1) by (simp add: on_acl_response_def is_ok_unit)
    moreover have "acl_verify X m = Ok () \<or> \<not> mesh_laws X"
      using acl_build_verifies [OF mesh_lawsD m] by blast
    moreover have "grows L (st_swarm s) w2" if "net_fresh N L" for L
      using grows_clock_uuid [OF that] sent(4,5) by simp
    ultimately show thesis
      using that [of s' m w2 j] acl_build_fields [OF m] sent assms(5,6) by (simp add: performative_of_def acl_new_def)
  qed (use assms in auto)
qed

text \<open>An AGREE of a conversation the daemon has proposed in.\<close>

lemma agree_effect:
  assumes "can_seal X (st_identity s)" "sql_works N" "acl_verify X msg = Ok ()" "performative_of msg = Agree"
    and "st_providers s (acl_conversation_id msg) = Some prov"
  obtains m w s' where "on_acl_request X N peer msg ch s = (Ok (), s')"
    "acl_verify X m = Ok () \<or> \<not> mesh_laws X" "performative_of m = Inform"
    "acl_in_reply_to m = acl_message_id msg" "acl_conversation_id m = acl_conversation_id msg"
    "acl_payload m = Some (PResult \<lparr>res_conversation_id = acl_conversation_id msg, res_payload = ps_intent_payload prov,
          res_status = result_status_as_i32 ROk, res_error_message = ''''\<rparr>)"
    "\<exists>t' w4. sys_clock N (acl_send_response N w ch m) = (t', w4) \<and> sql_outcome N w4 = (None, st_swarm s')"
    "st_identity s' = st_identity s" "st_providers s' = (st_providers s)(acl_conversation_id msg := None)"
    "has_receipt X s' (acl_conversation_id msg) (ps_capability_id prov) (pid_to_string X (ps_requester_peer prov))
       (pid_to_string X (peer_id X (st_identity s))) None \<or> \<not> mesh_laws X"
    "receipts_total (st_metrics s') = receipts_total (st_metrics s) + 1"
proof -
  obtain r s' where eq: "handle_agree_round2 X N peer msg ch s = (r, s')" by force
  then show thesis
  proof (cases rule: handle_agree_round2_cases)
    case (unstored w w' x)
    then show thesis using sql_worksD [OF assms(2)] by blast
  next
    case (completed prov' t w1 u w2 m t' w4 w5 rec)
    have p: "prov' = prov" using completed(2) assms(5) by simp
    have m: "acl_build X t u (acl_new (st_identity s) (acl_conversation_id msg)) Inform ECHO_ONTOLOGY (acl_message_id msg)
      (Some (PResult \<lparr>res_conversation_id = acl_conversation_id msg, res_payload = ps_intent_payload prov,
          res_status = result_status_as_i32 ROk, res_error_message = ''''\<rparr>)) = Ok m"
      using completed(5) p by (simp add: acl_inform_def)
    have "on_acl_request X N peer msg ch s = (Ok (), s')"
      using eq assms(3,4) completed(1) by (simp add: on_acl_request_def is_ok_unit)
    moreover have "acl_verify X m = Ok () \<or> \<not> mesh_laws X"
      using acl_build_verifies [OF mesh_lawsD m] by blast
    moreover have "has_receipt X s' (acl_conversation_id msg) (ps_capability_id prov) (pid_to_string X (ps_requester_peer prov))
       (pid_to_string X (peer_id X (st_identity s))) None \<or> \<not> mesh_laws X"
      using has_receipt_stored [of X t' s'] completed(7,9) p by (auto simp: upd_metrics_def)
    ultimately show thesis
      using that [of s' m w2] acl_build_fields [OF m] completed
      by (simp add: performative_of_def acl_new_def upd_metrics_def)
  qed (use assms in auto)
qed

text \<open>An awaited INFORM.\<close>

lemma inform_effect:
  assumes "can_seal X (st_identity s)" "sql_works N" "acl_verify X msg = Ok ()" "performative_of msg = Inform"
    and "st_pending_acl_round1 s i = None" "st_pending_acl_round2 s i = Some conv" "st_requesters s conv = Some req"
    and "rs_chosen_capability_id req = Some cap" "rs_reply req = Some ch"
  obtains s' where "on_acl_response X N peer i msg s = (Ok (), s')"
    "has_receipt X s' conv cap (pid_to_string X (peer_id X (st_identity s))) (pid_to_string X peer)
       (Some (acl_signature msg)) \<or> \<not> mesh_laws X"
    "st_intent_replies s' = st_intent_replies s @
       [(ch, Ok \<lparr>out_conversation_id = conv, out_matched_capability_id = cap, out_cosine_score = rs_chosen_score req\<rparr>)]"
    "st_requesters s' = (st_requesters s)(conv := None)"
    "st_pending_acl_round2 s' = (st_pending_acl_round2 s)(i := None)"
    "receipts_total (st_metrics s') = receipts_total (st_metrics s) + 1"
proof -
  let ?s1 = "s\<lparr>st_pending_acl_round2 := (st_pending_acl_round2 s)(i := None)\<rparr>"
  obtain r s' where eq: "complete_intent X N peer conv msg ?s1 = (r, s')" by force
  then show thesis
  proof (cases rule: complete_intent_cases)
    case (unstored t w1 w2 x)
    then show thesis using sql_worksD [OF assms(2)] by blast
  next
    case (completed req' t w1 w2 rec cap')
    have p: "req' = req" "cap' = cap" using completed(2,3) assms(7,8) by simp_all
    have "on_acl_response X N peer i msg s = (Ok (), s')"
      using eq assms(3-6) completed(1) by (simp add: on_acl_response_def is_ok_unit)
    moreover have "has_receipt X s' conv cap (pid_to_string X (peer_id X (st_identity s))) (pid_to_string X peer)
       (Some (acl_signature msg)) \<or> \<not> mesh_laws X"
      using has_receipt_stored [of X t s'] completed(5,7) p by (auto simp: effect_defs)
    ultimately show thesis
      using that [of s'] completed assms(9) p by (simp add: effect_defs)
  qed (use assms in auto)
qed

text \<open>A conversation that awaits a PROPOSE has its provider, its choice and its caller.\<close>

lemma awaiting_requester:
  assumes "loop_inv X L s" "st_pending_acl_round1 s i = Some conv" "st_requesters s conv = Some req"
  obtains provider chosen reply where "rs_provider_peer req = Some provider" "rs_chosen_capability_id req = Some chosen"
    "rs_reply req = Some reply"
proof -
  have "rs_request_sent req"
    using loop_invD(1) [OF assms(1,3)] assms(2) by (auto simp: req_ok_def ran_def split: if_splits)
  then show thesis using loop_invD(1) [OF assms(1,3)] inv_reply [OF assms(1,3)] that by (auto simp: req_ok_def)
qed

lemma fresh_acl_not_pending:
  assumes "net_fresh N L" "loop_inv X L s" "grows L (st_swarm s) w" "acl_send_request N w peer m = (j, w')"
  shows "st_pending_acl_round1 s j = None"
  using net_freshD(5) [OF assms(1,4)] assms(3) loop_invD(2) [OF assms(2)] by (auto simp: grows_def ids_ok_def dom_def)

text \<open>The whole exchange, from an awaited PROPOSE to the receipts.\<close>

lemma exchange_steps:
  assumes laws: "mesh_laws X" and A: "daemon_state X NA A" "net_fresh NA LA" "can_seal X (st_identity A)" "sql_works NA"
    and B: "can_seal X (st_identity B)" "sql_works NB" "hash_first NB (st_swarm B) (st_local_cards B) = Some cap"
    and req: "st_pending_acl_round1 A i = Some conv" "st_requesters A conv = Some req"
    and m1: "acl_verify X m1 = Ok ()" "performative_of m1 = Request" "acl_conversation_id m1 = conv"
      "acl_payload m1 = Some (PIntent (rs_intent req))"
  shows "\<exists>B1 m2 w2 A1 m3 w3 j provider chosen B2 m4 w4 A2 reply.
    on_acl_request X NB (peer_id X (st_identity A)) m1 ch B = (Ok (), B1) \<and>
    st_swarm B1 = acl_send_response NB w2 ch m2 \<and>
    on_acl_response X NA (peer_id X (st_identity B)) i m2 A = (Ok (), A1) \<and>
    rs_provider_peer req = Some provider \<and> acl_send_request NA w3 provider m3 = (j, st_swarm A1) \<and>
    on_acl_request X NB (peer_id X (st_identity A)) m3 ch' B1 = (Ok (), B2) \<and>
    (\<exists>t w5. sys_clock NB (acl_send_response NB w4 ch' m4) = (t, w5) \<and> sql_outcome NB w5 = (None, st_swarm B2)) \<and>
    acl_payload m4 = Some (PResult \<lparr>res_conversation_id = conv,
      res_payload = (if int_payload (rs_intent req) = [] then empty_payload else int_payload (rs_intent req)),
      res_status = result_status_as_i32 ROk, res_error_message = ''''\<rparr>) \<and>
    on_acl_response X NA (peer_id X (st_identity B)) j m4 A1 = (Ok (), A2) \<and>
    rs_chosen_capability_id req = Some chosen \<and> rs_reply req = Some reply \<and>
    st_intent_replies A2 = st_intent_replies A @
      [(reply, Ok \<lparr>out_conversation_id = conv, out_matched_capability_id = chosen, out_cosine_score = rs_chosen_score req\<rparr>)] \<and>
    st_requesters A2 conv = None \<and>
    has_receipt X A2 conv chosen (pid_to_string X (peer_id X (st_identity A)))
      (pid_to_string X (peer_id X (st_identity B))) (Some (acl_signature m4)) \<and>
    has_receipt X B2 conv cap (pid_to_string X (peer_id X (st_identity A)))
      (pid_to_string X (peer_id X (st_identity B))) None"
proof -
  have inv: "loop_inv X LA A" using daemon_inv(1) [OF A(2,1)] .
  obtain provider chosen reply where pc: "rs_provider_peer req = Some provider" "rs_chosen_capability_id req = Some chosen"
    and reply: "rs_reply req = Some reply" using awaiting_requester [OF inv req] .
  define pay where "pay = (if int_payload (rs_intent req) = [] then empty_payload else int_payload (rs_intent req))"
  define prov where "prov = \<lparr>ps_requester_peer = peer_id X (st_identity A), ps_capability_id = cap, ps_intent_payload = pay\<rparr>"
  obtain m2 w2 B1 where b1: "on_acl_request X NB (peer_id X (st_identity A)) m1 ch B = (Ok (), B1)"
    "acl_verify X m2 = Ok () \<or> \<not> mesh_laws X" "performative_of m2 = Propose"
    "st_swarm B1 = acl_send_response NB w2 ch m2" "st_identity B1 = st_identity B"
    "st_providers B1 = (st_providers B)(conv \<mapsto> prov)"
    using request_effect [OF B(1) m1(1,2,4) B(3), of "peer_id X (st_identity A)" ch] m1(3)
    unfolding prov_def pay_def by metis
  obtain m3 j w3 A1 where a1: "on_acl_response X NA (peer_id X (st_identity B)) i m2 A = (Ok (), A1)"
    "acl_verify X m3 = Ok () \<or> \<not> mesh_laws X" "performative_of m3 = Agree" "acl_conversation_id m3 = conv"
    "acl_send_request NA w3 provider m3 = (j, st_swarm A1)" "st_identity A1 = st_identity A"
    "st_pending_acl_round1 A1 = (st_pending_acl_round1 A)(i := None)"
    "st_pending_acl_round2 A1 = (st_pending_acl_round2 A)(j \<mapsto> conv)"
    "st_requesters A1 = st_requesters A" "st_intent_replies A1 = st_intent_replies A"
    "\<And>L. net_fresh NA L \<Longrightarrow> grows L (st_swarm A) w3"
    using propose_effect [OF A(3) _ b1(3) req pc(1), of NA "peer_id X (st_identity B)"] b1(2) laws by metis
  have j: "st_pending_acl_round1 A1 j = None"
    using fresh_acl_not_pending [OF A(2) inv a1(11) [OF A(2)] a1(5)] a1(7) by simp
  have pv: "st_providers B1 (acl_conversation_id m3) = Some prov" using b1(6) a1(4) by simp
  have v3: "acl_verify X m3 = Ok ()" and cB: "can_seal X (st_identity B1)" using a1(2) laws B(1) b1(5) by simp_all
  obtain m4 w4 B2 where b2: "on_acl_request X NB (peer_id X (st_identity A)) m3 ch' B1 = (Ok (), B2)"
    "acl_verify X m4 = Ok () \<or> \<not> mesh_laws X" "performative_of m4 = Inform"
    "acl_payload m4 = Some (PResult \<lparr>res_conversation_id = acl_conversation_id m3, res_payload = ps_intent_payload prov,
      res_status = result_status_as_i32 ROk, res_error_message = ''''\<rparr>)"
    "\<exists>t w5. sys_clock NB (acl_send_response NB w4 ch' m4) = (t, w5) \<and> sql_outcome NB w5 = (None, st_swarm B2)"
    "has_receipt X B2 (acl_conversation_id m3) (ps_capability_id prov) (pid_to_string X (ps_requester_peer prov))
       (pid_to_string X (peer_id X (st_identity B1))) None \<or> \<not> mesh_laws X"
    using agree_effect [OF cB B(2) v3 a1(3) pv, of "peer_id X (st_identity A)" ch'] by metis
  have r1: "st_requesters A1 conv = Some req" "st_pending_acl_round2 A1 j = Some conv"
    using a1(8,9) req(2) by simp_all
  obtain A2 where a2: "on_acl_response X NA (peer_id X (st_identity B)) j m4 A1 = (Ok (), A2)"
    "has_receipt X A2 conv chosen (pid_to_string X (peer_id X (st_identity A1))) (pid_to_string X (peer_id X (st_identity B)))
       (Some (acl_signature m4)) \<or> \<not> mesh_laws X"
    "st_intent_replies A2 = st_intent_replies A1 @
       [(reply, Ok \<lparr>out_conversation_id = conv, out_matched_capability_id = chosen, out_cosine_score = rs_chosen_score req\<rparr>)]"
    "st_requesters A2 = (st_requesters A1)(conv := None)"
    using inform_effect [OF _ A(4) _ b2(3) j r1(2,1) pc(2) reply, of X "peer_id X (st_identity B)"] A(3) a1(6) b2(2) laws
    by metis
  show ?thesis
    using b1(1,4,5) a1(1,4,5,6,10) b2(1,4,5,6) a2 pc reply laws
    by (intro exI [of _ B1] exI [of _ m2] exI [of _ w2] exI [of _ A1] exI [of _ m3] exI [of _ w3] exI [of _ j]
        exI [of _ provider] exI [of _ chosen] exI [of _ B2] exI [of _ m4] exI [of _ w4] exI [of _ A2] exI [of _ reply])
      (auto simp: prov_def pay_def)
qed

section \<open>Properties\<close>



text \<open>
  C8: a conversation completes. A requester's daemon \<open>A\<close> has sent a
  REQUEST with an intent and awaits the PROPOSE; the provider's daemon \<open>B\<close> has a published
  card. Then \<open>B\<close> answers with a PROPOSE, \<open>A\<close> accepts it and sends an AGREE, \<open>B\<close> executes and answers with an
  INFORM that echoes the intent's payload, and \<open>A\<close> closes the conversation: its caller is
  answered with the chosen capability and score, and both daemons have stored a receipt for the
  conversation, each signed by its issuer and verifying, that names the same requester and
  provider, the requester's one together with the signature of the INFORM.
\<close>

theorem exchange_completes:
  assumes laws: "mesh_laws X" and A: "daemon_state X NA A" "net_fresh NA LA" "can_seal X (st_identity A)" "sql_works NA"
    and B: "can_seal X (st_identity B)" "sql_works NB" "hash_first NB (st_swarm B) (st_local_cards B) = Some cap"
    and req: "st_pending_acl_round1 A i = Some conv" "st_requesters A conv = Some req"
    and m1: "acl_verify X m1 = Ok ()" "performative_of m1 = Request" "acl_conversation_id m1 = conv"
      "acl_payload m1 = Some (PIntent (rs_intent req))"
  shows "\<exists>B1 m2 w2 A1 m3 w3 j provider chosen B2 m4 w4 A2 reply.
    on_acl_request X NB (peer_id X (st_identity A)) m1 ch B = (Ok (), B1) \<and>
    st_swarm B1 = acl_send_response NB w2 ch m2 \<and>
    on_acl_response X NA (peer_id X (st_identity B)) i m2 A = (Ok (), A1) \<and>
    rs_provider_peer req = Some provider \<and> acl_send_request NA w3 provider m3 = (j, st_swarm A1) \<and>
    on_acl_request X NB (peer_id X (st_identity A)) m3 ch' B1 = (Ok (), B2) \<and>
    (\<exists>t w5. sys_clock NB (acl_send_response NB w4 ch' m4) = (t, w5) \<and> sql_outcome NB w5 = (None, st_swarm B2)) \<and>
    acl_payload m4 = Some (PResult \<lparr>res_conversation_id = conv,
      res_payload = (if int_payload (rs_intent req) = [] then empty_payload else int_payload (rs_intent req)),
      res_status = result_status_as_i32 ROk, res_error_message = ''''\<rparr>) \<and>
    on_acl_response X NA (peer_id X (st_identity B)) j m4 A1 = (Ok (), A2) \<and>
    rs_chosen_capability_id req = Some chosen \<and> rs_reply req = Some reply \<and>
    st_intent_replies A2 = st_intent_replies A @
      [(reply, Ok \<lparr>out_conversation_id = conv, out_matched_capability_id = chosen, out_cosine_score = rs_chosen_score req\<rparr>)] \<and>
    st_requesters A2 conv = None \<and>
    has_receipt X A2 conv chosen (pid_to_string X (peer_id X (st_identity A)))
      (pid_to_string X (peer_id X (st_identity B))) (Some (acl_signature m4)) \<and>
    has_receipt X B2 conv cap (pid_to_string X (peer_id X (st_identity A)))
      (pid_to_string X (peer_id X (st_identity B))) None"
  by (rule exchange_steps [OF assms])

text \<open>
  C14: an AGREE is not bound to the agent the proposal was made to: any agent that can sign,
  over any connection, has a pending proposal of another requester executed by naming its
  conversation; the proposal is consumed, the result is sent to the stranger, and the stored
  receipt names the original requester.
\<close>

theorem agree_from_stranger:
  assumes "mesh_laws X" "can_seal X (st_identity s)" "sql_works N" "st_providers s conv = Some prov"
    and "acl_agree X t u (acl_new stranger conv) ont irt agreement = Ok msg"
  shows "\<exists>s' m w. on_acl_request X N peer msg ch s = (Ok (), s') \<and> st_providers s' = (st_providers s)(conv := None) \<and>
    (\<exists>t' w'. sys_clock N (acl_send_response N w ch m) = (t', w') \<and> sql_outcome N w' = (None, st_swarm s')) \<and>
    acl_payload m = Some (PResult \<lparr>res_conversation_id = conv, res_payload = ps_intent_payload prov,
          res_status = result_status_as_i32 ROk, res_error_message = ''''\<rparr>) \<and>
    has_receipt X s' conv (ps_capability_id prov) (pid_to_string X (ps_requester_peer prov))
      (pid_to_string X (peer_id X (st_identity s))) None"
proof -
  note b = assms(5) [unfolded acl_agree_def]
  have "acl_verify X msg = Ok ()" by (rule acl_build_verifies [OF mesh_lawsD [OF assms(1)] b])
  then show ?thesis
    using agree_effect [OF assms(2,3), of msg prov peer ch] built_fields [OF b] assms(1,4) by metis
qed

text \<open>
  C15: a proposal is not bound to the agent it was made to: a REQUEST of any agent that can sign,
  over any connection, that names the conversation of a pending proposal replaces the proposal.
  When the original requester then sends its AGREE, it is answered with the intent of the
  stranger, and the stored receipt names the stranger as the requester.
\<close>

theorem proposal_hijacked:
  assumes "mesh_laws X" "can_seal X (st_identity s)" "sql_works N" "st_providers s conv = Some prov"
    and "hash_first N (st_swarm s) (st_local_cards s) = Some cap"
    and "acl_request X t u (acl_new stranger conv) ont intent = Ok m1"
    and "acl_agree X t' u' (acl_new requester conv) ont' irt agreement = Ok m3"
  shows "\<exists>s1 s2 m4 w. on_acl_request X N peer m1 ch s = (Ok (), s1) \<and>
    on_acl_request X N (ps_requester_peer prov) m3 ch' s1 = (Ok (), s2) \<and>
    (\<exists>t w'. sys_clock N (acl_send_response N w ch' m4) = (t, w') \<and> sql_outcome N w' = (None, st_swarm s2)) \<and>
    acl_payload m4 = Some (PResult \<lparr>res_conversation_id = conv,
      res_payload = (if int_payload intent = [] then empty_payload else int_payload intent),
      res_status = result_status_as_i32 ROk, res_error_message = ''''\<rparr>) \<and>
    has_receipt X s2 conv cap (pid_to_string X peer) (pid_to_string X (peer_id X (st_identity s))) None"
proof -
  note b1 = assms(6) [unfolded acl_request_def] and b3 = assms(7) [unfolded acl_agree_def]
  have v: "acl_verify X m1 = Ok ()" "acl_verify X m3 = Ok ()"
    using acl_build_verifies [OF mesh_lawsD [OF assms(1)]] b1 b3 by blast+
  note m1 = built_fields [OF b1] and m3 = built_fields [OF b3]
  let ?prov = "\<lparr>ps_requester_peer = peer, ps_capability_id = cap,
    ps_intent_payload = (if int_payload intent = [] then empty_payload else int_payload intent)\<rparr>"
  obtain s1 where s1: "on_acl_request X N peer m1 ch s = (Ok (), s1)" "st_identity s1 = st_identity s"
    "st_providers s1 conv = Some ?prov"
    using request_effect [OF assms(2) v(1) m1(1,2) assms(5), of peer ch] m1(3) by (metis fun_upd_same)
  have "can_seal X (st_identity s1)" "st_providers s1 (acl_conversation_id m3) = Some ?prov" using assms(2) s1(2,3) m3(3) by simp_all
  from agree_effect [OF this(1) assms(3) v(2) m3(1) this(2), of "ps_requester_peer prov" ch'] s1(1,2) m3(3) assms(1)
  show ?thesis by (metis ProviderState.select_convs(1-3))
qed

text \<open>
  C16: an INFORM is not bound to its conversation: the answer that a requester awaits may be
  an INFORM of any agent that can sign, about any other conversation and with any result, also
  one that reports a failure; the conversation completes all the same, the caller is answered
  with success, and the stored receipt has status Ok and the signature of that message.
\<close>

theorem any_inform_completes:
  assumes "mesh_laws X" "can_seal X (st_identity s)" "sql_works N"
    and "st_pending_acl_round1 s i = None" "st_pending_acl_round2 s i = Some conv" "st_requesters s conv = Some req"
    and "rs_chosen_capability_id req = Some cap" "rs_reply req = Some ch"
    and "acl_inform X t u (acl_new stranger other) ont irt result = Ok msg"
  shows "\<exists>s'. loop_turn X N (InSwarm (BehaviourAcl (AclResponseMessage peer i msg))) s = (None, s') \<and>
    st_intent_replies s' = st_intent_replies s @
      [(ch, Ok \<lparr>out_conversation_id = conv, out_matched_capability_id = cap, out_cosine_score = rs_chosen_score req\<rparr>)] \<and>
    has_receipt X s' conv cap (pid_to_string X (peer_id X (st_identity s))) (pid_to_string X peer) (Some (acl_signature msg))"
proof -
  note b = assms(9) [unfolded acl_inform_def]
  have "acl_verify X msg = Ok ()" by (rule acl_build_verifies [OF mesh_lawsD [OF assms(1)] b])
  then obtain s' where "on_acl_response X N peer i msg s = (Ok (), s')"
    "has_receipt X s' conv cap (pid_to_string X (peer_id X (st_identity s))) (pid_to_string X peer)
       (Some (acl_signature msg)) \<or> \<not> mesh_laws X"
    "st_intent_replies s' = st_intent_replies s @
       [(ch, Ok \<lparr>out_conversation_id = conv, out_matched_capability_id = cap, out_cosine_score = rs_chosen_score req\<rparr>)]"
    using inform_effect [OF assms(2,3) _ built_fields(1) [OF b] assms(4-8), of peer] by metis
  then show ?thesis using assms(1) by (intro exI [of _ s']) simp
qed

end
