(* ===== verification/Kite_Publish.thy ===== *)
theory Kite_Publish
  imports Kite_Conversation
begin

text \<open>
  Commands and the serving of cards: what publishing a card does and how its acknowledgement
  depends on the DHT queries, the commands that end the loop, the cards that a daemon hands out,
  and what happens to a conversation whose card fetch is never answered.
\<close>

section \<open>Publishing\<close>

text \<open>Every \<^verbatim>\<open>put_record\<close> is accepted by the local store.\<close>

definition puts_accepted :: "'w net \<Rightarrow> bool" where
  "puts_accepted N \<longleftrightarrow> (\<forall>w r. \<exists>q w'. kad_put_record N w r = (Inr q, w'))"

lemma put_all_distinct:
  assumes "net_fresh N L" "puts_accepted N"
  shows "\<exists>qids w'. put_all N ps w = (Inr qids, w') \<and> length qids = length ps \<and> distinct qids \<and>
    set qids \<inter> lg_queries L w = {}"
proof (induction ps arbitrary: w)
  case (Cons p ps)
  obtain q w1 where q: "kad_put_record N w \<lparr>kr_key = pub_key p, kr_value = pub_record_bytes p,
      kr_publisher = Some (local_peer_id N w)\<rparr> = (Inr q, w1)"
    using assms(2) unfolding puts_accepted_def by blast
  obtain qids w' where "put_all N ps w1 = (Inr qids, w')" "length qids = length ps" "distinct qids"
    "set qids \<inter> lg_queries L w1 = {}" using Cons.IH by blast
  then show ?case using q net_freshD(2,3) [OF assms(1) q] by (auto simp: grows_def)
qed simp

lemma foldl_acks:
  "foldl (\<lambda>m q. m(q \<mapsto> v)) m qs k = (if k \<in> set qs then Some v else m k)"
  by (induction qs arbitrary: m) auto

lemma build_records_length:
  assumes "lsh_wf lsh" "build_records X crd lsh i ttl = Ok pubs" "card_embedding crd = Some e"
  shows "length pubs = unat (lp_l (lsh_params lsh))"
proof -
  obtain sigs where s: "signatures lsh (emb_vector e) = (Ok sigs :: (bytes list, Error) exec)"
    and len: "length pubs = length sigs" using build_records_nth [OF assms(2,3)] by blast
  have "(of_nat (length (emb_vector e)) :: u32) = lp_dim (lsh_params lsh)"
    using s by (auto simp: signatures_def split: if_splits)
  then show ?thesis using signatures_Ok [OF assms(1), of "emb_vector e", where 'e = Error] s len by auto
qed

lemma publishable:
  assumes "loop_inv X L s" "can_seal X (st_identity s)" "capability_verify X c = Ok ()"
  obtains e pubs where "card_embedding c = Some e"
    "build_records X c (st_lsh s) (st_identity s) RECORD_TTL_NS = Ok pubs"
    "length pubs = unat (lp_l (lsh_params (st_lsh s)))" "pubs \<noteq> []"
proof -
  obtain e where e: "card_embedding c = Some e" "(of_nat (length (emb_vector e)) :: u32) = CANONICAL_EMBEDDING_DIM"
    using assms(3) by (auto simp: capability_verify_Ok_iff)
  note wf = loop_invD(4-6) [OF assms(1)]
  obtain pubs where pubs: "build_records X c (st_lsh s) (st_identity s) RECORD_TTL_NS = Ok pubs"
    using build_records_Ok [OF wf(1) e(1), of X "st_identity s" RECORD_TTL_NS] e(2) wf(2) assms(2) by (auto simp: can_seal_def)
  have len: "length pubs = unat (lp_l (lsh_params (st_lsh s)))" using build_records_length [OF wf(1) pubs e(1)] .
  then have "pubs \<noteq> []" using wf(3) by (auto simp: unat_eq_0)
  then show thesis using that e(1) pubs len by blast
qed

lemma publish_effect:
  assumes "net_fresh N L" "loop_inv X L s" "can_seal X (st_identity s)" "puts_accepted N" "capability_verify X c = Ok ()"
  obtains qids w s' where "publish X N c reply s = (Ok (), s')"
    "length qids = unat (lp_l (lsh_params (st_lsh s)))" "distinct qids" "qids \<noteq> []"
    "s' = s\<lparr>st_local_cards := (st_local_cards s)(card_capability_id c \<mapsto> c), st_swarm := w,
       st_pending_publish_acks := st_pending_publish_acks s'\<rparr>"
    "\<And>q. q \<in> set qids \<Longrightarrow> st_pending_publish_acks s' q = Some (if q = last qids
       then \<lparr>pa_cap_id = card_capability_id c, pa_reply = Some reply, pa_remaining = of_nat (length qids)\<rparr>
       else count_only_ack)"
proof -
  obtain pubs where pubs: "build_records X c (st_lsh s) (st_identity s) RECORD_TTL_NS = Ok pubs"
    and len: "length pubs = unat (lp_l (lsh_params (st_lsh s)))" and ne: "pubs \<noteq> []"
    using publishable [OF assms(2,3,5)] by metis
  obtain qids w where q: "put_all N pubs (st_swarm s) = (Inr qids, w)" "length qids = length pubs" "distinct qids"
    using put_all_distinct [OF assms(1,4), of pubs "st_swarm s"] by blast
  have nq: "qids \<noteq> []" using q(2) ne by auto
  have last: "last qids \<notin> set (butlast qids)" "set qids = insert (last qids) (set (butlast qids))"
    using q(3) nq append_butlast_last_id [OF nq] distinct_append [of "butlast qids" "[last qids]"]
      set_append [of "butlast qids" "[last qids]"] by auto
  let ?acks = "foldl (\<lambda>m q. m(q \<mapsto> count_only_ack)) ((st_pending_publish_acks s)(last qids \<mapsto>
      \<lparr>pa_cap_id = card_capability_id c, pa_reply = Some reply, pa_remaining = of_nat (length pubs)\<rparr>)) (butlast qids)"
  let ?s' = "s\<lparr>st_local_cards := (st_local_cards s)(card_capability_id c \<mapsto> c), st_swarm := w,
       st_pending_publish_acks := ?acks\<rparr>"
  have acks: "?acks q = Some (if q = last qids
       then \<lparr>pa_cap_id = card_capability_id c, pa_reply = Some reply, pa_remaining = of_nat (length qids)\<rparr>
       else count_only_ack)" if "q \<in> set qids" for q
    using that last q(2) by (auto simp: foldl_acks)
  have "publish X N c reply s = (Ok (), ?s')" using assms(5) pubs ne q by (simp add: publish_def Let_def)
  then show thesis using acks len q nq by (intro that [of ?s' qids w]) simp_all
qed

text \<open>A published card is offered from then on, whether or not the records are stored.\<close>

lemma publish_offers:
  assumes "net_fresh N L" "loop_inv X L s" "can_seal X (st_identity s)" "puts_accepted N" "capability_verify X c = Ok ()"
  obtains s' where "publish X N c reply s = (Ok (), s')"
    "st_local_cards s' = (st_local_cards s)(card_capability_id c \<mapsto> c)" "st_identity s' = st_identity s"
proof (rule publish_effect [OF assms, of reply])
  fix w s'
  assume s': "publish X N c reply s = (Ok (), s')" "s' = s\<lparr>st_local_cards := (st_local_cards s)(card_capability_id c \<mapsto> c),
    st_swarm := w, st_pending_publish_acks := st_pending_publish_acks s'\<rparr>"
  show thesis using that [OF s'(1)] arg_cong [OF s'(2), of st_local_cards] arg_cong [OF s'(2), of st_identity] by simp
qed

section \<open>Lost answers\<close>

text \<open>A conversation that waits for the card fetch \<open>r\<close>.\<close>

definition waits_for :: "string \<Rightarrow> OutboundRequestId \<Rightarrow> Oneshot option \<Rightarrow> 'w State \<Rightarrow> bool" where
  "waits_for conv r ch s \<longleftrightarrow> st_pending_card_fetches s r = Some conv \<and>
     (\<exists>req. st_requesters s conv = Some req \<and> r \<in> rs_in_flight_card_fetches req \<and>
        \<not> rs_request_sent req \<and> rs_reply req = ch)"

text \<open>The turns that do not answer the fetch \<open>r\<close>.\<close>

fun answers :: "OutboundRequestId \<Rightarrow> Input \<Rightarrow> bool" where
  "answers r (InSwarm (BehaviourCard (CardResponseMessage i response))) = (i = r)"
| "answers r i = False"

lemma waits_frame:
  "waits_for conv r ch s \<Longrightarrow> st_pending_card_fetches s' r = st_pending_card_fetches s r \<Longrightarrow>
     st_requesters s' conv = st_requesters s conv \<Longrightarrow> waits_for conv r ch s'"
  by (simp add: waits_for_def)

lemma maybe_send_request_waits:
  assumes "waits_for conv r ch s" "maybe_send_request X N c s = (Ok (), s')"
  shows "waits_for conv r ch s'"
proof (cases "c = conv")
  case True
  obtain req where "st_requesters s conv = Some req" "rs_in_flight_card_fetches req \<noteq> {}"
    using assms(1) by (auto simp: waits_for_def)
  then have "maybe_send_request X N c s = (Ok (), s)" using True by (simp add: maybe_send_request_def)
  then show ?thesis using assms by simp
next
  case False
  from assms(2) have "st_requesters s' conv = st_requesters s conv \<and> st_pending_card_fetches s' = st_pending_card_fetches s"
    by (cases rule: maybe_send_request_cases) (use False in \<open>auto simp: effect_defs\<close>)
  then show ?thesis by (intro waits_frame [OF assms(1)]) simp_all
qed

lemma finish_lookup_waits:
  assumes "waits_for conv r ch s" "finish_lookup X N qid s = (Ok (), s')"
  shows "waits_for conv r ch s'"
proof (cases "st_pending_lookups s qid")
  case None
  then show ?thesis using assms by (simp add: finish_lookup_eq)
next
  case (Some c)
  have "waits_for conv r ch (lookup_done qid c s)"
    using assms(1) by (cases "c = conv") (auto simp: waits_for_def lookup_done_def split: option.splits)
  then show ?thesis using maybe_send_request_waits assms(2) Some by (simp add: finish_lookup_eq)
qed

lemma on_directory_hit_waits:
  assumes "net_fresh N L" "loop_inv X L s" "waits_for conv r ch s" "on_directory_hit X N rec c s = (res, s')"
  shows "waits_for conv r ch s'"
  using assms(4)
proof (cases rule: on_directory_hit_cases)
  case (fetch req dir peer i w)
  have "i \<noteq> r" using net_freshD(4) [OF assms(1) fetch(8)] loop_invD(2) [OF assms(2)] assms(3)
    by (auto simp: ids_ok_def waits_for_def)
  then show ?thesis using assms(3) fetch(2,9) by (auto simp: waits_for_def)
qed (use assms(3) in simp)

lemma handle_card_response_waits:
  assumes "waits_for conv r ch s" "i \<noteq> r" "handle_card_response X N i response s = (Ok (), s')"
  shows "waits_for conv r ch s'"
proof (cases "\<exists>c q. st_pending_card_fetches s i = Some c \<and> st_requesters s c = Some q")
  case False
  then show ?thesis using assms
    by (auto simp: handle_card_response_def Let_def waits_for_def split: option.splits)
next
  case True
  then obtain c q where pc: "st_pending_card_fetches s i = Some c" and q: "st_requesters s c = Some q" by blast
  have "waits_for conv r ch (card_done X i c q response s)"
    using assms(1,2) q by (auto simp: waits_for_def card_done_def)
  then show ?thesis using assms(3) maybe_send_request_waits unfolding handle_card_response_eq [OF pc q]
    by (auto split: if_splits)
qed

lemma on_acl_request_fetches:
  "st_pending_card_fetches (snd (on_acl_request X N peer msg ch s)) = st_pending_card_fetches s"
proof -
  obtain r1 s1 where r1: "handle_request_round1 X N peer msg ch s = (r1, s1)" by force
  from r1 have "st_pending_card_fetches s1 = st_pending_card_fetches s"
    by (cases rule: handle_request_round1_cases) simp_all
  moreover obtain r2 s2 where r2: "handle_agree_round2 X N peer msg ch s = (r2, s2)" by force
  from r2 have "st_pending_card_fetches s2 = st_pending_card_fetches s"
    by (cases rule: handle_agree_round2_cases) (simp_all add: upd_metrics_def)
  ultimately show ?thesis using r1 r2 by (simp add: on_acl_request_def split: Performative.splits)
qed

lemma on_acl_response_waits:
  assumes "loop_inv X L s" "waits_for conv r ch s" "on_acl_response X N peer i msg s = (res, s')"
  shows "waits_for conv r ch s'"
proof -
  have nr: "c \<noteq> conv" if "st_pending_acl_round2 s i = Some c" for c
    using loop_invD(1) [OF assms(1)] assms(2) ranI [of "st_pending_acl_round2 s", OF that] by (auto simp: waits_for_def req_ok_def split: if_splits)
  have a: "st_requesters (snd (send_agree X N c msg s1)) = st_requesters s1 \<and>
      st_pending_card_fetches (snd (send_agree X N c msg s1)) = st_pending_card_fetches s1" for c s1
  proof -
    obtain r' s2 where eq: "send_agree X N c msg s1 = (r', s2)" by force
    then show ?thesis by (cases rule: send_agree_cases) (simp_all add: eq)
  qed
  have b: "(c \<noteq> conv \<longrightarrow> st_requesters (snd (complete_intent X N peer c msg s1)) conv = st_requesters s1 conv) \<and>
      st_pending_card_fetches (snd (complete_intent X N peer c msg s1)) = st_pending_card_fetches s1" for c s1
  proof -
    obtain r' s2 where eq: "complete_intent X N peer c msg s1 = (r', s2)" by force
    then show ?thesis by (cases rule: complete_intent_cases) (simp_all add: eq effect_defs)
  qed
  have s': "s' = snd (on_acl_response X N peer i msg s)" using assms(3) by simp
  have "st_requesters s' conv = st_requesters s conv \<and> st_pending_card_fetches s' = st_pending_card_fetches s"
    unfolding s' using a b nr by (auto simp: on_acl_response_def Let_def split: option.splits)
  then show ?thesis by (intro waits_frame [OF assms(2)]) simp_all
qed

lemma swarm_event_waits:
  assumes "net_fresh N L" "loop_inv X L s" "waits_for conv r ch s" "\<not> answers r (InSwarm ev)"
    and "handle_swarm_event X N ev s = (Ok (), s')"
  shows "waits_for conv r ch s'"
proof (cases ev)
  case (BehaviourKademlia e)
  show ?thesis
  proof (cases e)
    case (OutboundQueryProgressed qid result)
    then show ?thesis using assms(3,5) BehaviourKademlia finish_lookup_waits [OF assms(3)]
        on_directory_hit_waits [OF assms(1-3)]
      by (cases result) (auto simp: Let_def effect_defs intro: waits_frame split: if_splits option.splits)
  qed (use assms BehaviourKademlia in \<open>auto simp: emit_def intro: waits_frame split: if_splits\<close>)
next
  case (BehaviourCard e)
  then show ?thesis using assms(3-5) handle_card_response_waits [OF assms(3)]
    by (cases e) (auto simp: Let_def intro: waits_frame)
next
  case (BehaviourAcl e)
  show ?thesis
  proof (cases e)
    case (AclRequestMessage p m c)
    then show ?thesis using assms(5) BehaviourAcl on_acl_request_requesters [of X N p m c s]
        on_acl_request_fetches [of X N p m c s] by (intro waits_frame [OF assms(3)]) simp_all
  next
    case (AclResponseMessage p j m)
    then show ?thesis using assms(5) BehaviourAcl on_acl_response_waits [OF assms(2,3)] by simp
  qed (use assms BehaviourAcl in simp)
next
  case (BehaviourMdns e)
  then show ?thesis using assms(3,5) by (cases e) (auto intro: waits_frame)
next
  case (BehaviourIdentify e)
  then show ?thesis using assms(3,5) by (cases e) (auto intro: waits_frame split: if_splits)
qed (use assms in \<open>auto simp: emit_def intro: waits_frame\<close>)

lemma command_waits:
  assumes "net_fresh N L" "loop_inv X L s" "waits_for conv r ch s" "handle_command X N c s = (Ok (), s')"
  shows "waits_for conv r ch s'"
proof (cases c)
  case (PublishCapability crd reply)
  then have "st_requesters s' = st_requesters s \<and> st_pending_card_fetches s' = st_pending_card_fetches s"
    using assms(4)
    by (auto simp: publish_def Let_def reply_publish_def split: exec.splits if_splits sum.splits prod.splits)
  then show ?thesis by (intro waits_frame [OF assms(3)]) simp_all
next
  case (SubmitIntent a b d e)
  then have "submit_intent X N a b d e s = (Ok (), s')" using assms(4) by simp
  then show ?thesis
  proof (cases rule: submit_intent_cases)
    case (opened keys cv w1 out pl w2 t w3 req)
    have "st_requesters s cv = None"
      using net_freshD(6) [OF assms(1) opened(3)] loop_invD(2) [OF assms(2)] by (auto simp: ids_ok_def)
    then show ?thesis using opened(6) assms(3) by (auto simp: waits_for_def)
  qed simp
qed (use assms(4) in simp)

lemma turn_waits:
  assumes "net_fresh N L" "loop_inv X L s" "waits_for conv r ch s" "\<not> answers r i" "loop_turn X N i s = (None, s')"
  shows "waits_for conv r ch s'"
proof (cases i)
  case (InCommand c)
  then obtain c' where "handle_command X N c' s = (Ok (), s')"
    using assms(5) by (cases c) (auto split: if_splits prod.splits exec.splits)
  then show ?thesis using command_waits [OF assms(1-3)] by simp
next
  case (InSwarm ev)
  then have "handle_swarm_event X N ev s = (Ok (), s')" using assms(5) by (auto split: prod.splits exec.splits)
  then show ?thesis using swarm_event_waits [OF assms(1-3)] assms(4) InSwarm by simp
qed (use assms in \<open>auto intro: waits_frame\<close>)

lemma run_waits:
  assumes "net_fresh N L"
  shows "loop_inv X L s \<Longrightarrow> waits_for conv r ch s \<Longrightarrow> list_all input_ok is \<Longrightarrow> list_all (\<lambda>i. \<not> answers r i) is \<Longrightarrow>
    run X N is s = (None, s') \<Longrightarrow> waits_for conv r ch s'"
proof (induction "is" arbitrary: s)
  case (Cons i "is")
  then obtain s1 where t: "loop_turn X N i s = (None, s1)" "run X N is s1 = (None, s')"
    by (auto split: prod.splits option.splits)
  have "loop_inv X L s1" using loop_turn_inv [OF assms, of X s i] Cons.prems(1,3) t(1) by simp
  moreover have "waits_for conv r ch s1" using turn_waits [OF assms Cons.prems(1,2) _ t(1)] Cons.prems(4) by simp
  ultimately show ?case using Cons t(2) by simp
qed simp

section \<open>Properties\<close>



text \<open>
  C20: a query vector of the wrong dimension panics the loop: submitting an intent opens a
  conversation, under an identifier never used before and with one directory query per hash
  table, exactly when the vector's length is the canonical dimension (as \<^verbatim>\<open>u32\<close>); otherwise
  the assertion of the hashing ends the daemon's task.
\<close>

theorem submit_opens_iff_dimension:
  assumes "net_fresh N L" "daemon_state X N s"
  shows "if (of_nat (length query) :: u32) = CANONICAL_EMBEDDING_DIM
    then \<exists>s' conv req. loop_turn X N (InCommand (Some (SubmitIntent required query intent reply))) s = (None, s') \<and>
      phase_of L conv s = Unused \<and> phase_of L conv s' = Searching \<and>
      st_requesters s' = (st_requesters s)(conv \<mapsto> req) \<and> rs_reply req = Some reply \<and>
      rs_outstanding_dht_queries req \<noteq> {}
    else \<exists>p. loop_turn X N (InCommand (Some (SubmitIntent required query intent reply))) s = (Some (Panic p), s)"
proof -
  note inv = daemon_inv(1) [OF assms(1,2)]
  obtain r s' where eq: "submit_intent X N required query intent reply s = (r, s')" by force
  have dm: "lp_dim (lsh_params (st_lsh s)) = CANONICAL_EMBEDDING_DIM" using loop_invD(5) [OF inv] .
  show ?thesis
  proof (cases "(of_nat (length query) :: u32) = CANONICAL_EMBEDDING_DIM")
    case True
    then obtain sigs where "signatures (st_lsh s) query = (Ok sigs :: (bytes list, anyhow) exec)"
      using signatures_Ok [OF loop_invD(4) [OF inv], of query, where 'e = anyhow] dm by metis
    then have "r = Ok ()" using eq by (auto simp: submit_intent_def lookup_keys_def split: prod.splits)
    note eq' = eq [unfolded this]
    from eq' show ?thesis
    proof (cases rule: submit_intent_cases)
      case (opened keys conv w1 out pl w2 t w3 req)
      have fresh: "conv \<notin> lg_uuids L (st_swarm s)" using net_freshD(6) [OF assms(1) opened(3)] by simp
      then have none: "st_requesters s conv = None" using loop_invD(2) [OF inv] by (auto simp: ids_ok_def)
      have "all_busy {} s'" using submit_intent_busy [OF assms(1) inv daemon_inv(2) [OF assms(1,2)] eq'] .
      moreover have "st_requesters s' conv = Some req" using opened(6) by simp
      ultimately have "busy req" unfolding all_busy_def by blast
      then have "rs_outstanding_dht_queries req \<noteq> {}"
        using opened(7,15) by (simp add: busy_def)
      then show ?thesis using True eq' opened(6,7,8) fresh none
        by (auto simp: phase_of_def intro!: exI [of _ s'] exI [of _ conv])
    qed simp
  next
    case False
    then have "is_panic (signatures (st_lsh s) query :: (bytes list, anyhow) exec)"
      using signatures_panics dm by metis
    then obtain p where "signatures (st_lsh s) query = (Panic p :: (bytes list, anyhow) exec)"
      by (cases "signatures (st_lsh s) query :: (bytes list, anyhow) exec") simp_all
    then have "submit_intent X N required query intent reply s = (Panic p, s)"
      by (simp add: submit_intent_def lookup_keys_def)
    then show ?thesis using False by simp
  qed
qed

text \<open>
  C21: a daemon hands out only verified cards: the answer to a card request is the published
  card with that identifier, and it verifies; when no such card was published the answer is
  \<^verbatim>\<open>NotFound\<close>. Nothing else of the state changes.
\<close>

theorem served_card_verifies:
  assumes "net_fresh N L" "daemon_state X N s"
  shows "\<exists>resp. loop_turn X N (InSwarm (BehaviourCard (CardRequestMessage q ch))) s =
      (None, s\<lparr>st_swarm := card_send_response N (st_swarm s) ch resp\<rparr>) \<and>
    (case resp of
       Found c \<Rightarrow> capability_verify X c = Ok () \<and> card_capability_id c = cr_capability_id q \<and>
         st_local_cards s (cr_capability_id q) = Some c
     | NotFound \<Rightarrow> st_local_cards s (cr_capability_id q) = None)"
  using daemon_inv(1) [OF assms]
  by (intro exI [of _ "case st_local_cards s (cr_capability_id q) of Some c \<Rightarrow> Found c | None \<Rightarrow> NotFound"])
    (auto simp: loop_inv_def Let_def split: option.splits)

text \<open>
  C22: a lost card fetch blocks its conversation for good: as long as no answer to the fetch
  arrives, whatever else happens (the failure event of the fetch included, and every other card
  being delivered), the conversation sends no REQUEST, stays open and its caller is not
  answered.
\<close>

theorem lost_fetch_blocks:
  assumes "net_fresh N L" "daemon_state X N s" "waits_for conv r ch s"
    and "list_all input_ok is" "list_all (\<lambda>i. \<not> answers r i) is" "run X N is s = (None, s')"
  shows "waits_for conv r ch s' \<and> phase_of L conv s' = Searching"
  using run_waits [OF assms(1) daemon_inv(1) [OF assms(1,2)] assms(3-6)]
  by (auto simp: waits_for_def phase_of_def)

end
