(* ===== verification/Kite_Instance.thy ===== *)
theory Kite_Instance
  imports Kite_Exchange Kite_Publish
begin

text \<open>
  A concrete instance of the parameters, on which the hypotheses of the properties hold: a
  signature scheme whose signature is the key, the identity as hash, constant encoders, and a
  swarm whose world is a counter that numbers queries, requests and identifiers. On it a
  requester's daemon is booted and driven through a search until its REQUEST is out.
\<close>

section \<open>Third-party operations\<close>

definition key_text :: "bytes \<Rightarrow> string" where
  "key_text b = map (\<lambda>w. char_of (unat w)) b"

definition wX :: ext where
  "wX = \<lparr>kp_public = (\<lambda>kp. case kp of Keypair b \<Rightarrow> PublicKey b),
     kp_sign = (\<lambda>kp m. case kp of Keypair b \<Rightarrow> Inr b),
     kp_to_protobuf = (\<lambda>kp. case kp of Keypair b \<Rightarrow> Inr b),
     kp_from_protobuf = (\<lambda>b. Inr (Keypair b)),
     pk_encode = (\<lambda>pk. case pk of PublicKey b \<Rightarrow> b),
     pk_decode = (\<lambda>b. Inr (PublicKey b)),
     pk_verify = (\<lambda>pk m s. case pk of PublicKey b \<Rightarrow> s = b),
     pid_of_key = (\<lambda>pk. case pk of PublicKey b \<Rightarrow> PeerId b),
     pid_to_string = (\<lambda>p. case p of PeerId b \<Rightarrow> key_text b),
     pid_parse = (\<lambda>s. Some (PeerId (as_bytes s))),
     blake3 = (\<lambda>b. b),
     blake3_xof = (\<lambda>b n. 0),
     json_facets = (\<lambda>c. []),
     enc_acl = (\<lambda>m. Inr []),
     enc_card = (\<lambda>m. Inr []),
     enc_receipt = (\<lambda>m. Inr []),
     enc_dir = (\<lambda>m. Inr []),
     dec_dir = (\<lambda>b. Inr \<lparr>dir_capability_id = ''cap'', dir_agent_id = [], dir_peer_id = [],
       dir_facet_fingerprint = [], dir_model_id = CANONICAL_MODEL_ID, dir_table_id = 0, dir_hash_code = [],
       dir_status = [], dir_ttl_ns = 0, dir_signature = [], dir_protocol_version = 1,
       dir_publisher_public_key = []\<rparr>),
     uni_lower = (\<lambda>s. s),
     f64_ln = (\<lambda>x. x),
     f64_cos = (\<lambda>x. x)\<rparr>"

section \<open>The swarm\<close>

definition wN :: "nat net" where
  "wN = \<lparr>kad_protocol_name = ''/ipfs/kad/1.0.0'',
     local_peer_id = (\<lambda>w. PeerId []),
     kad_put_record = (\<lambda>w r. (Inr (QueryId w), Suc w)),
     kad_get_record = (\<lambda>w k. (QueryId w, Suc w)),
     kad_add_address = (\<lambda>w p a. w),
     swarm_dial = (\<lambda>w a. w),
     card_send_request = (\<lambda>w p m. (OutboundRequestId w, Suc w)),
     card_send_response = (\<lambda>w ch m. w),
     acl_send_request = (\<lambda>w p m. (OutboundRequestId w, Suc w)),
     acl_send_response = (\<lambda>w ch m. w),
     sys_clock = (\<lambda>w. (Some 0, w)),
     sys_instant = (\<lambda>w. (0, w)),
     sys_uuid = (\<lambda>w. (replicate w CHR ''u'', Suc w)),
     sql_outcome = (\<lambda>w. (None, w)),
     hash_first = (\<lambda>w m. if m ''cap'' = None then None else Some ''cap''),
     sort_unspecified = (\<lambda>xs. Inr xs)\<rparr>"

definition wL :: "nat ledger" where
  "wL = \<lparr>lg_queries = (\<lambda>w. QueryId ` {..<w}), lg_cards = (\<lambda>w. OutboundRequestId ` {..<w}),
     lg_acls = (\<lambda>w. OutboundRequestId ` {..<w}), lg_uuids = (\<lambda>w. (\<lambda>n. replicate n CHR ''u'') ` {..<w})\<rparr>"

section \<open>Booting\<close>

definition wFs :: Fs where
  "wFs = \<lparr>fs_files = Map.empty, fs_read_error = (\<lambda>p. None), fs_mkdir_error = (\<lambda>p. None), fs_write_error = (\<lambda>p. None)\<rparr>"

definition wB :: "nat boot" where
  "wB = \<lparr>bt_exists = (\<lambda>p. False), bt_fs = wFs, bt_text = (\<lambda>p. Inl []), bt_toml = (\<lambda>t. Inl []),
     bt_metrics = None, bt_fresh = Keypair [], bt_encoder_join = None, bt_encoder_load = Inr (),
     bt_mkdir = None, bt_connect = None, bt_migrate = None, bt_database = (\<lambda>p. None),
     bt_version = ''0.1.0'', bt_tcp = None, bt_mdns = None, bt_swarm = (\<lambda>kp mb t. 0),
     bt_multiaddr = (\<lambda>a. Inr a), bt_listen = (\<lambda>w a. (None, w))\<rparr>"

definition wI :: AgentIdentity where
  "wI = \<lparr>keypair = Keypair []\<rparr>"

definition wlsh :: AngularLsh where
  "wlsh = lsh_new wX default_for_skeleton (default_seed wX)"

definition wS0 :: "nat State" where
  "wS0 = initial_state 0 wI wlsh Map.empty"

section \<open>A requirement, a card and an intent\<close>

definition wFacets :: CapabilityFacets where
  "wFacets = \<lparr>fa_tools = [], fa_ontologies = [], fa_sandbox_level = [], fa_network_access = [],
     fa_gpu_class = [], fa_privacy_tier = [], fa_region = [], fa_pricing_band = [], fa_trust_tier = [],
     fa_status = 0\<rparr>"

definition wVec :: "f32 list" where
  "wVec = replicate 384 (f_zero binary32)"

definition wCard :: CapabilityCard where
  "wCard = \<lparr>card_capability_id = ''cap'', card_agent_id = [], card_agent_name = [], card_agent_version = [],
     card_ontologies = [], card_tools = [], card_facets = Some wFacets, card_description = [],
     card_embedding = Some \<lparr>emb_model_id = CANONICAL_MODEL_ID, emb_dimension = CANONICAL_EMBEDDING_DIM,
       emb_vector = wVec, emb_normalized = True\<rparr>,
     card_pricing = None, card_status = 1, card_last_seen_ns = 0, card_expires_at_ns = 0,
     card_facet_fingerprint = [], card_endorsements = [], card_signature = [], card_mcp_servers = [],
     card_a2a_agent_card_url = [], card_public_key = []\<rparr>"

definition wIntent :: Intent where
  "wIntent = \<lparr>int_intent_id = [], int_requester_agent_id = [], int_description = [], int_payload = [7],
     int_deadline_ns = 0\<rparr>"

definition wSubmit :: Input where
  "wSubmit = InCommand (Some (SubmitIntent wFacets wVec wIntent (Oneshot 1)))"

definition wFound :: Input where
  "wFound = InSwarm (BehaviourKademlia (OutboundQueryProgressed (QueryId 1)
     (FoundRecord \<lparr>kr_key = [], kr_value = [], kr_publisher = None\<rparr>)))"

definition wFinish :: "nat \<Rightarrow> Input" where
  "wFinish n = InSwarm (BehaviourKademlia (OutboundQueryProgressed (QueryId n) FinishedWithNoAdditionalRecord))"

definition wGot :: Input where
  "wGot = InSwarm (BehaviourCard (CardResponseMessage (OutboundRequestId 5) (Found wCard)))"

text \<open>The conversation has identifier \<open>[]\<close>; its queries are 1 to 4 and its card fetch is 5.\<close>

definition wReq :: RequesterState where
  "wReq = \<lparr>rs_conversation_id = [], rs_required = wFacets, rs_query_vector = wVec, rs_intent = wIntent,
     rs_outstanding_dht_queries = {QueryId 1, QueryId 2, QueryId 3, QueryId 4}, rs_fetched_cards = [],
     rs_seen_capability_ids = {}, rs_in_flight_card_fetches = {}, rs_request_sent = False,
     rs_provider_peer = None, rs_chosen_capability_id = None, rs_chosen_score = f_zero binary32,
     rs_started_at = 0, rs_reply = Some (Oneshot 1)\<rparr>"

definition wS1 :: "nat State" where
  "wS1 = wS0\<lparr>st_swarm := 5,
     st_pending_lookups := [QueryId 1 \<mapsto> [], QueryId 2 \<mapsto> [], QueryId 3 \<mapsto> [], QueryId 4 \<mapsto> []],
     st_requesters := [[] \<mapsto> wReq]\<rparr>"

definition wS2 :: "nat State" where
  "wS2 = wS1\<lparr>st_swarm := 6, st_requesters := [[] \<mapsto> wReq\<lparr>rs_seen_capability_ids := {''cap''},
     rs_in_flight_card_fetches := {OutboundRequestId 5}\<rparr>],
     st_pending_card_fetches := [OutboundRequestId 5 \<mapsto> []]\<rparr>"

definition wS3 :: "nat State" where
  "wS3 = wS2\<lparr>st_pending_lookups := Map.empty, st_requesters := [[] \<mapsto> wReq\<lparr>rs_outstanding_dht_queries := {},
     rs_seen_capability_ids := {''cap''}, rs_in_flight_card_fetches := {OutboundRequestId 5}\<rparr>]\<rparr>"

definition wReq4 :: RequesterState where
  "wReq4 = wReq\<lparr>rs_outstanding_dht_queries := {}, rs_seen_capability_ids := {''cap''}, rs_in_flight_card_fetches := {},
     rs_fetched_cards := [], rs_request_sent := True, rs_provider_peer := Some (PeerId []),
     rs_chosen_capability_id := Some ''cap'', rs_chosen_score := dot wVec wVec\<rparr>"

text \<open>The state after the card response: the REQUEST is out.\<close>

definition wS4 :: "nat State" where
  "wS4 = snd (loop_turn wX wN wGot wS3)"

section \<open>The laws hold\<close>

lemma as_bytes_key_text [simp]: "as_bytes (key_text b) = b"
proof -
  have "of_nat (of_char (char_of (unat w) :: char)) = w" for w :: u8
  proof -
    have "unat w < 2 ^ LENGTH(8)" by (rule unsigned_less)
    then show ?thesis by simp
  qed
  then show ?thesis by (simp add: as_bytes_def key_text_def o_def map_idI)
qed

lemma wX_laws: "sign_law wX" "key_law wX" "pid_law wX" "pid_inj wX" "keypair_law wX" "mesh_laws wX" "can_seal wX i"
  by (auto simp: wX_def sign_law_def key_law_def pid_law_def pid_inj_def keypair_law_def mesh_laws_def can_seal_def
      split: PublicKey.splits PeerId.splits Keypair.splits)

lemma wN_fresh: "net_fresh wN wL"
  by (auto simp: net_fresh_def grows_def wN_def wL_def)

lemma wN_works: "sql_works wN" "puts_accepted wN"
  by (simp_all add: wN_def sql_works_def puts_accepted_def)

lemma wS0_booted: "kited_start wX wN wB default_config = Ok (\<lparr>kh_peer_id = PeerId [], kh_identity = wI, kh_receipts = Map.empty\<rparr>, wS0)"
  by (simp add: kited_start_def boot_identity_def default_config_def default_identity_def identity_generate_def
      wB_def wI_def encoder_new_def store_open_def build_swarm_def mesh_behaviour_new_def spawn_def Let_def wS0_def
      initial_state_def wlsh_def peer_id_def wX_def)

lemma wS0_daemon: "daemon_state wX wN wS0"
  unfolding daemon_state_def using wS0_booted reachable.start by metis

section \<open>The search, turn by turn\<close>

lemma dim384: "(of_nat (length wVec) :: u32) = CANONICAL_EMBEDDING_DIM"
  by (simp add: wVec_def CANONICAL_EMBEDDING_DIM_def)

lemma wVec_unit: "unit_vec wVec" "vec_ok wVec"
  by (simp_all add: unit_vec_def vec_ok_def wVec_def f_zero_def list_all_iff)

lemma wFingerprint: "fingerprint wX f = []"
  by (simp add: fingerprint_def wX_def)

lemma wCard_verifies: "capability_verify wX wCard = Ok ()"
  unfolding capability_verify_Ok_iff
  by (simp add: wCard_def wFingerprint dim384) (simp add: wX_def as_bytes_def card_signing_bytes_def Let_def)

lemma wlsh_params: "lsh_params wlsh = default_for_skeleton"
  by (simp add: wlsh_def lsh_new_def)

lemma wlsh_wf: "lsh_wf wlsh"
  unfolding wlsh_def by (rule default_lsh_wf)

lemma wLookup: "\<exists>k1 k2 k3 k4. lookup_keys wX fp wVec wlsh = (Ok [k1, k2, k3, k4] :: ((u32 \<times> bytes) list, 'e) exec)"
proof -
  have d: "(of_nat (length wVec) :: u32) = lp_dim (lsh_params wlsh)"
    by (simp add: dim384 wlsh_params default_for_skeleton_def)
  obtain sigs where s: "signatures wlsh wVec = (Ok sigs :: (bytes list, 'e) exec)" "length sigs = 4"
    using signatures_Ok [OF wlsh_wf d, where 'e = 'e] by (auto simp: wlsh_params default_for_skeleton_def DEFAULT_L_def)
  then obtain a b c d where "sigs = [a, b, c, d]"
    by (auto simp: length_Suc_conv eval_nat_numeral)
  then show ?thesis using s(1) by (simp add: lookup_keys_def)
qed

lemma wTurn1: "loop_turn wX wN wSubmit wS0 = (None, wS1)"
proof -
  obtain k1 k2 k3 k4 where k: "lookup_keys wX [] wVec wlsh = (Ok [k1, k2, k3, k4] :: ((u32 \<times> bytes) list, anyhow) exec)"
    using wLookup [where 'e = anyhow] by blast
  show ?thesis
    by (cases k1; cases k2; cases k3; cases k4)
      (simp add: wSubmit_def submit_intent_def wFingerprint wS0_def wS1_def wReq_def k initial_state_def wN_def
        insert_commute eval_nat_numeral)
qed

lemma wTurn2: "loop_turn wX wN wFound wS1 = (None, wS2)"
  by (simp add: wFound_def wS1_def wS2_def wS0_def initial_state_def on_directory_hit_def wX_def wN_def
      verify_record_def dir_signing_bytes_def identity_verify_def as_bytes_def wReq_def Let_def)

lemma wTurn3: "run wX wN [wFinish 1, wFinish 2, wFinish 3, wFinish 4] wS2 = (None, wS3)"
  by (simp add: wFinish_def wS1_def wS2_def wS3_def wS0_def initial_state_def finish_lookup_def maybe_send_request_def
      wReq_def Let_def fun_upd_def fun_eq_iff)

lemma wS3_daemon: "daemon_state wX wN wS3"
proof -
  have ok: "input_ok wSubmit" "input_ok wFound" "list_all input_ok [wFinish 1, wFinish 2, wFinish 3, wFinish 4]"
    by (simp_all add: wSubmit_def wFound_def wFinish_def wVec_unit)
  have "reachable wX wN wS0 wS2"
    using reachable.turn [OF reachable.turn [OF reachable.start ok(1) wTurn1] ok(2) wTurn2] .
  then have "reachable wX wN wS0 wS3" using run_reachable [OF _ ok(3) wTurn3] by blast
  then show ?thesis unfolding daemon_state_def using wS0_booted by blast
qed

lemma wCard_ok: "card_ok wX wCard"
  using wCard_verifies wVec_unit(2) by (simp add: card_ok_def) (simp add: wCard_def)

lemma wGot_ok: "input_ok wGot"
  by (simp add: wGot_def wCard_def wVec_unit)

lemma wRerank:
  "rerank fb wFacets wVec [wCard] = (Ok [\<lparr>sc_card = wCard, sc_score = dot wVec wVec, sc_passed_filter = True,
     sc_filter_trace = []\<rparr>] :: (ScoredCandidate list, 'e) exec)"
proof -
  have "rankable wVec [wCard]" using rankable_ok [OF wVec_unit(2), of "[wCard]" wX] wCard_ok by simp
  then obtain ss where ss: "try_map (score_card wFacets wVec) [wCard] = (Ok ss :: (ScoredCandidate list, 'e) exec)"
    "rerank fb wFacets wVec [wCard] = (Ok (isort_cmp scored_cmp ss) :: (ScoredCandidate list, 'e) exec)"
    using rerank_Ok [of wVec "[wCard]", where 'e = 'e] by metis
  have "score_card wFacets wVec wCard = (Ok \<lparr>sc_card = wCard, sc_score = dot wVec wVec, sc_passed_filter = True,
     sc_filter_trace = []\<rparr> :: (ScoredCandidate, 'e) exec)"
    by (simp add: score_card_def wCard_def facet_filter_def wFacets_def missing_trace_def field_trace_def cosine_def Let_def)
  then have "ss = [\<lparr>sc_card = wCard, sc_score = dot wVec wVec, sc_passed_filter = True, sc_filter_trace = []\<rparr>]"
    using ss(1) by simp
  then show ?thesis using ss(2) by simp
qed

lemma wTurn4:
  "loop_turn wX wN wGot wS3 = (None, wS4)" "st_requesters wS4 = [[] \<mapsto> wReq4]"
  "st_pending_acl_round1 wS4 = [OutboundRequestId 7 \<mapsto> []]" "st_identity wS4 = wI" "st_local_cards wS4 = Map.empty"
proof -
  let ?q = "wReq\<lparr>rs_outstanding_dht_queries := {}, rs_seen_capability_ids := {''cap''},
    rs_in_flight_card_fetches := {OutboundRequestId 5}\<rparr>"
  let ?s = "card_done wX (OutboundRequestId 5) [] ?q (Found wCard) wS3"
  have pc: "st_pending_card_fetches wS3 (OutboundRequestId 5) = Some []" "st_requesters wS3 [] = Some ?q"
    by (simp_all add: wS3_def wS2_def)
  have cards: "response_cards wX (Found wCard) = [wCard]" by (simp add: response_cards_def wCard_verifies)
  have eq: "loop_turn wX wN wGot wS3 = (case maybe_send_request wX wN [] ?s of (Ok _, s') \<Rightarrow> (None, s') | (r, s') \<Rightarrow> (Some r, s'))"
    by (simp add: wGot_def handle_card_response_eq [OF pc] wReq_def)
  have q: "rs_required wReq = wFacets" "rs_query_vector wReq = wVec" "\<not> rs_request_sent wReq" "rs_fetched_cards wReq = []"
    by (simp_all add: wReq_def)
  have cid: "card_agent_id wCard = []" "card_capability_id wCard = ''cap''" by (simp_all add: wCard_def)
  have net: "sys_clock wN w = (Some 0, w)" "sys_uuid wN w = (replicate w CHR ''u'', Suc w)" "sys_instant wN w = (0, w)"
    "acl_send_request wN w p m = (OutboundRequestId w, Suc w)" for w p m
    by (simp_all add: wN_def)
  have pid: "pid_parse wX [] = Some (PeerId [])" by (simp add: wX_def as_bytes_def)
  obtain m where m: "acl_request wX (Some 0) (replicate 6 CHR ''u'') (acl_new wI []) ECHO_ONTOLOGY (rs_intent wReq) = Ok m"
    using can_sealD(1) [OF wX_laws(7)]
    by (cases "acl_request wX (Some 0) (replicate 6 CHR ''u'') (acl_new wI []) ECHO_ONTOLOGY (rs_intent wReq)")
      (auto simp: acl_request_def)
  have sw: "st_swarm wS3 = 6" "st_identity wS3 = wI" "st_pending_acl_round1 wS3 = Map.empty"
    "st_requesters wS3 = [[] \<mapsto> ?q]" "st_local_cards wS3 = Map.empty"
    by (simp_all add: wS3_def wS2_def wS1_def wS0_def initial_state_def)
  obtain s' where s': "maybe_send_request wX wN [] ?s = (Ok (), s')" "st_requesters s' = [[] \<mapsto> wReq4]"
    "st_pending_acl_round1 s' = [OutboundRequestId 7 \<mapsto> []]" "st_identity s' = wI" "st_local_cards s' = Map.empty"
    by (simp add: maybe_send_request_def card_done_def cards q wRerank cid pid net m sw Let_def upd_metrics_def wReq4_def)
  then show "loop_turn wX wN wGot wS3 = (None, wS4)" "st_requesters wS4 = [[] \<mapsto> wReq4]"
    "st_pending_acl_round1 wS4 = [OutboundRequestId 7 \<mapsto> []]" "st_identity wS4 = wI" "st_local_cards wS4 = Map.empty"
    using eq by (simp_all add: wS4_def)
qed

lemma wS4_daemon: "daemon_state wX wN wS4"
  using daemon_turn [OF wS3_daemon wGot_ok wTurn4(1)] .

end
