(* ===== verification/Kite_Loop_Witness.thy ===== *)
theory Kite_Loop_Witness
  imports Kite_Instance
begin

text \<open>
  The properties of the daemon applied at the concrete instance: each hypothesis holds there,
  so none of these properties is vacuous.
\<close>

section \<open>A provider and its messages\<close>

definition wBob :: "nat State" where
  "wBob = (initial_state 0 \<lparr>keypair = Keypair [9]\<rparr> wlsh Map.empty)\<lparr>st_local_cards := [''cap'' \<mapsto> wCard]\<rparr>"

definition wM1 :: AclMessage where
  "wM1 = \<lparr>acl_sender_id = [], acl_signature = [], acl_timestamp_ns = 0, acl_message_id = [],
     acl_performative = performative_as_i32 Request, acl_ontology = ECHO_ONTOLOGY, acl_conversation_id = [],
     acl_in_reply_to = [], acl_payload = Some (PIntent wIntent), acl_trust = None, acl_sender_public_key = []\<rparr>"

definition wM3 :: AclMessage where
  "wM3 = wM1\<lparr>acl_performative := performative_as_i32 Agree\<rparr>"

text \<open>The provider after its PROPOSE.\<close>

definition wBob1 :: "nat State" where
  "wBob1 = wBob\<lparr>st_providers := [[] \<mapsto> \<lparr>ps_requester_peer = PeerId [], ps_capability_id = ''cap'', ps_intent_payload = [7]\<rparr>]\<rparr>"

text \<open>The instance in which the agent with the empty key has signed the message \<open>wM1\<close> only.\<close>

definition wX1 :: ext where
  "wX1 = wX\<lparr>enc_acl := (\<lambda>m. if m = wM1 then Inr [] else Inl ''not signed''), pk_verify := (\<lambda>pk b s. b = [])\<rparr>"

text \<open>A boot from a saved key.\<close>

definition wB2 :: "nat boot" where
  "wB2 = wB\<lparr>bt_exists := (\<lambda>p. True), bt_fs := wFs\<lparr>fs_files := [''key'' \<mapsto> [4]]\<rparr>\<rparr>"

definition wCfg2 :: KitedConfig where
  "wCfg2 = default_config\<lparr>cfg_identity := \<lparr>keypair_path = Some ''key''\<rparr>\<rparr>"

lemma wX_verifies:
  assumes "acl_sender_id m = []" "acl_sender_public_key m = []" "acl_signature m = []"
  shows "acl_verify wX m = Ok ()"
  using assms unfolding acl_verify_Ok_iff by (simp add: wX_def as_bytes_def acl_signing_bytes_def Let_def)

lemma wM1_ok: "acl_verify wX wM1 = Ok ()" "performative_of wM1 = Request" "acl_conversation_id wM1 = []"
  "acl_payload wM1 = Some (PIntent (rs_intent wReq4))"
  by (auto intro: wX_verifies simp: wM1_def performative_of_def wReq4_def wReq_def)

lemma wM3_ok: "acl_verify wX wM3 = Ok ()" "performative_of wM3 = Agree" "acl_conversation_id wM3 = []"
  by (auto intro: wX_verifies simp: wM3_def wM1_def performative_of_def)

lemma wBob_offers: "hash_first wN (st_swarm wBob) (st_local_cards wBob) = Some ''cap''"
  by (simp add: wBob_def wN_def)

lemma wS2_daemon: "daemon_state wX wN wS2"
proof -
  have "input_ok wSubmit" "input_ok wFound" by (simp_all add: wSubmit_def wFound_def wVec_unit)
  then show ?thesis using daemon_turn [OF daemon_turn [OF wS0_daemon _ wTurn1] _ wTurn2] by blast
qed

lemma wSearching: "st_requesters wS3 [] = Some (wReq\<lparr>rs_outstanding_dht_queries := {},
     rs_seen_capability_ids := {''cap''}, rs_in_flight_card_fetches := {OutboundRequestId 5}\<rparr>)"
  by (simp add: wS3_def)

section \<open>Witnesses\<close>

theorem exchange_completes_witness:
  "\<exists>(A2 :: nat State) (B2 :: nat State) sig. has_receipt wX A2 [] ''cap'' (pid_to_string wX (peer_id wX wI)) (pid_to_string wX (peer_id wX (st_identity wBob))) (Some sig) \<and>
     has_receipt wX B2 [] ''cap'' (pid_to_string wX (peer_id wX wI)) (pid_to_string wX (peer_id wX (st_identity wBob))) None"
proof -
  have a: "st_pending_acl_round1 wS4 (OutboundRequestId 7) = Some []" "st_requesters wS4 [] = Some wReq4"
    using wTurn4 by simp_all
  have "rs_chosen_capability_id wReq4 = Some ''cap''" by (simp add: wReq4_def)
  then show ?thesis
    using exchange_completes [OF wX_laws(6) wS4_daemon wN_fresh wX_laws(7) wN_works(1) wX_laws(7) wN_works(1) wBob_offers a wM1_ok,
      of "ResponseChannel 0" "ResponseChannel 1"] unfolding wTurn4(4) by (elim exE conjE) auto
qed

theorem daemon_invariant_witness: "loop_inv wX wL wS4"
  using daemon_invariant [OF wN_fresh wS4_daemon] .

theorem network_event_keeps_running_witness: "\<exists>s'. loop_turn wX wN wGot wS3 = (None, s') \<and> daemon_state wX wN s'"
  using network_event_keeps_running [OF wN_fresh wS3_daemon wX_laws(7) wN_works(1)] wGot_ok
  unfolding wGot_def by blast

theorem turn_refines_protocol_witness:
  "phase_step (phase_of wL [] wS3) (phase_of wL [] wS4) \<and> phase_of wL [] wS3 = Searching \<and> phase_of wL [] wS4 = AwaitPropose"
  using turn_refines_protocol [OF wN_fresh wS3_daemon wGot_ok wTurn4(1), of "[]"] wSearching wTurn4(2,3)
  by (simp add: phase_of_def wReq_def wReq4_def)

theorem reply_iff_closed_witness: "\<exists>rs. st_intent_replies wS4 = st_intent_replies wS3 @ rs \<and> length rs \<le> 1"
  using reply_iff_closed [OF wN_fresh wS3_daemon wGot_ok wTurn4(1)] by blast


theorem wrong_answer_stalls_witness:
  "\<exists>s'. run wX wN [InSwarm (BehaviourAcl (AclResponseMessage (PeerId []) (OutboundRequestId 7) wM1))] wS4 = (None, s') \<and>
     phase_of wL [] s' = Stalled"
proof -
  have p: "st_pending_acl_round1 wS4 (OutboundRequestId 7) = Some []" "st_requesters wS4 [] = Some wReq4" using wTurn4(2,3) by simp_all
  have m: "is_ok (acl_verify wX wM1)" "performative_of wM1 \<noteq> Propose" using wM1_ok(1,2) by simp_all
  obtain s' where s': "run wX wN [InSwarm (BehaviourAcl (AclResponseMessage (PeerId []) (OutboundRequestId 7) wM1))] wS4 = (None, s')"
    using p(1) m by (simp add: on_acl_response_def)
  then show ?thesis using wrong_answer_stalls [OF wN_fresh wS4_daemon p(2) m(1) _ _ s'] p(1) m(2) by simp
qed





theorem submit_opens_iff_dimension_witness:
  "(\<exists>p. loop_turn wX wN (InCommand (Some (SubmitIntent wFacets [] wIntent (Oneshot 1)))) wS0 = (Some (Panic p), wS0)) \<and>
   (\<exists>s'. loop_turn wX wN (InCommand (Some (SubmitIntent wFacets wVec wIntent (Oneshot 1)))) wS0 = (None, s'))"
  using submit_opens_iff_dimension [OF wN_fresh wS0_daemon, of "[]" wFacets wIntent "Oneshot 1"]
    submit_opens_iff_dimension [OF wN_fresh wS0_daemon, of wVec wFacets wIntent "Oneshot 1"] dim384
  by (auto simp: CANONICAL_EMBEDDING_DIM_def)

theorem served_card_verifies_witness:
  "\<exists>resp. loop_turn wX wN (InSwarm (BehaviourCard (CardRequestMessage \<lparr>cr_capability_id = ''cap''\<rparr> (ResponseChannel 0)))) wS4 =
      (None, wS4\<lparr>st_swarm := card_send_response wN (st_swarm wS4) (ResponseChannel 0) resp\<rparr>)"
  using served_card_verifies [OF wN_fresh wS4_daemon] by blast

theorem lost_fetch_blocks_witness:
  "waits_for [] (OutboundRequestId 5) (Some (Oneshot 1)) wS3 \<and> phase_of wL [] wS3 = Searching"
proof -
  have "waits_for [] (OutboundRequestId 5) (Some (Oneshot 1)) wS2" by (simp add: waits_for_def wS2_def wReq_def)
  moreover have "list_all input_ok [wFinish 1, wFinish 2, wFinish 3, wFinish 4]"
    "list_all (\<lambda>i. \<not> answers (OutboundRequestId 5) i) [wFinish 1, wFinish 2, wFinish 3, wFinish 4]"
    by (simp_all add: wFinish_def)
  ultimately show ?thesis using lost_fetch_blocks [OF wN_fresh wS2_daemon _ _ _ wTurn3] by blast
qed

theorem boot_identity_from_file_witness:
  "\<exists>h s. kited_start wX wN wB2 wCfg2 = Ok (h, s) \<and> kh_identity h = \<lparr>keypair = Keypair [4]\<rparr>"
proof -
  have save: "identity_save wX \<lparr>keypair = Keypair [4]\<rparr> ''key'' wFs = (Ok (), bt_fs wB2)"
    by (simp add: identity_save_def wX_def wFs_def wB2_def)
  have start: "\<exists>h s. kited_start wX wN wB2 wCfg2 = Ok (h, s)"
    by (simp add: kited_start_def boot_identity_def wCfg2_def default_config_def wB2_def identity_load_def fs_read_def
      wFs_def wB_def encoder_new_def store_open_def build_swarm_def mesh_behaviour_new_def spawn_def Let_def wX_def)
  have "fs_read_error (bt_fs wB2) ''key'' = None" "keypair_path (cfg_identity wCfg2) = Some ''key''" "bt_exists wB2 ''key''"
    by (simp_all add: wB2_def wFs_def wCfg2_def)
  then show ?thesis using boot_identity_from_file [OF wX_laws(5) save] start by fastforce
qed

lemma wSealed: "\<exists>m. acl_build wX t u (acl_new i conv) perf ont irt pl = Ok m"
  using acl_build_Ok [of wX "acl_new i conv"] wX_laws(7) [of i] unfolding can_seal_def by (simp add: acl_new_def)

theorem agree_from_stranger_witness:
  "\<exists>msg s'. acl_agree wX (Some 1) ''u'' (acl_new \<lparr>keypair = Keypair [66]\<rparr> []) ECHO_ONTOLOGY []
       \<lparr>agr_conversation_id = [], agr_capability_id = []\<rparr> = Ok msg \<and>
     on_acl_request wX wN (PeerId [66]) msg (ResponseChannel 0) wBob1 = (Ok (), s') \<and> st_providers s' [] = None"
proof -
  have prov: "st_providers wBob1 [] = Some \<lparr>ps_requester_peer = PeerId [], ps_capability_id = ''cap'', ps_intent_payload = [7]\<rparr>"
    by (simp add: wBob1_def)
  obtain msg where "acl_agree wX (Some 1) ''u'' (acl_new \<lparr>keypair = Keypair [66]\<rparr> []) ECHO_ONTOLOGY []
       \<lparr>agr_conversation_id = [], agr_capability_id = []\<rparr> = Ok msg"
    using wSealed unfolding acl_agree_def by blast
  then show ?thesis
    using agree_from_stranger [OF wX_laws(6,7) wN_works(1) prov, of "Some 1" "''u''" "\<lparr>keypair = Keypair [66]\<rparr>" ECHO_ONTOLOGY "[]"
      "\<lparr>agr_conversation_id = [], agr_capability_id = []\<rparr>" msg "PeerId [66]" "ResponseChannel 0"] by (metis fun_upd_same)
qed

text \<open>A stranger's REQUEST with the payload 8, before the AGREE of the requester whose intent has the payload 7.\<close>

theorem proposal_hijacked_witness:
  "\<exists>m1 m3 s1 s2 m4. acl_request wX (Some 1) ''u'' (acl_new \<lparr>keypair = Keypair [66]\<rparr> []) ECHO_ONTOLOGY (wIntent\<lparr>int_payload := [8]\<rparr>) = Ok m1 \<and>
     on_acl_request wX wN (PeerId [66]) m1 (ResponseChannel 0) wBob1 = (Ok (), s1) \<and>
     on_acl_request wX wN (PeerId []) m3 (ResponseChannel 1) s1 = (Ok (), s2) \<and>
     (\<exists>w t w'. sys_clock wN (acl_send_response wN w (ResponseChannel 1) m4) = (t, w') \<and> sql_outcome wN w' = (None, st_swarm s2)) \<and>
     acl_payload m4 = Some (PResult \<lparr>res_conversation_id = [], res_payload = [8], res_status = result_status_as_i32 ROk, res_error_message = []\<rparr>) \<and>
     has_receipt wX s2 [] ''cap'' (pid_to_string wX (PeerId [66])) (pid_to_string wX (peer_id wX (st_identity wBob1))) None"
proof -
  let ?intent = "wIntent\<lparr>int_payload := [8]\<rparr>"
  have prov: "st_providers wBob1 [] = Some \<lparr>ps_requester_peer = PeerId [], ps_capability_id = ''cap'', ps_intent_payload = [7]\<rparr>"
    and offers: "hash_first wN (st_swarm wBob1) (st_local_cards wBob1) = Some ''cap''"
    using wBob_offers by (simp_all add: wBob1_def)
  obtain m1 where m1: "acl_request wX (Some 1) ''u'' (acl_new \<lparr>keypair = Keypair [66]\<rparr> []) ECHO_ONTOLOGY ?intent = Ok m1"
    using wSealed unfolding acl_request_def by blast
  obtain m3 where m3: "acl_agree wX (Some 2) ''v'' (acl_new wI []) ECHO_ONTOLOGY [] \<lparr>agr_conversation_id = [], agr_capability_id = []\<rparr> = Ok m3"
    using wSealed unfolding acl_agree_def by blast
  have p: "(if int_payload ?intent = [] then empty_payload else int_payload ?intent) = [8]"
    "ps_requester_peer \<lparr>ps_requester_peer = PeerId [], ps_capability_id = ''cap'', ps_intent_payload = [7]\<rparr> = PeerId []" by simp_all
  from proposal_hijacked [OF wX_laws(6,7) wN_works(1) prov offers m1 m3, of "PeerId [66]" "ResponseChannel 0" "ResponseChannel 1",
      unfolded p]
  show ?thesis using m1 by blast
qed

text \<open>The requester once its AGREE is out, and a failure reported by a stranger.\<close>

definition wS5 :: "nat State" where
  "wS5 = wS4\<lparr>st_pending_acl_round1 := Map.empty, st_pending_acl_round2 := [OutboundRequestId 9 \<mapsto> []]\<rparr>"

theorem any_inform_completes_witness:
  "\<exists>msg s'. acl_inform wX (Some 1) ''u'' (acl_new \<lparr>keypair = Keypair [66]\<rparr> ''other'') ECHO_ONTOLOGY []
       \<lparr>res_conversation_id = ''other'', res_payload = [], res_status = result_status_as_i32 RFailure, res_error_message = ''failed''\<rparr> = Ok msg \<and>
     loop_turn wX wN (InSwarm (BehaviourAcl (AclResponseMessage (PeerId [66]) (OutboundRequestId 9) msg))) wS5 = (None, s') \<and>
     has_receipt wX s' [] ''cap'' (pid_to_string wX (peer_id wX wI)) (pid_to_string wX (PeerId [66])) (Some (acl_signature msg))"
proof -
  have s: "st_pending_acl_round1 wS5 (OutboundRequestId 9) = None" "st_pending_acl_round2 wS5 (OutboundRequestId 9) = Some []"
    "st_requesters wS5 [] = Some wReq4" "st_identity wS5 = wI" using wTurn4(2,4) by (simp_all add: wS5_def)
  have r: "rs_chosen_capability_id wReq4 = Some ''cap''" "rs_reply wReq4 = Some (Oneshot 1)" by (simp_all add: wReq4_def wReq_def)
  let ?res = "\<lparr>res_conversation_id = ''other'', res_payload = [], res_status = result_status_as_i32 RFailure, res_error_message = ''failed''\<rparr>"
  obtain msg where msg: "acl_inform wX (Some 1) ''u'' (acl_new \<lparr>keypair = Keypair [66]\<rparr> ''other'') ECHO_ONTOLOGY [] ?res = Ok msg"
    using wSealed unfolding acl_inform_def by blast
  then show ?thesis
    using any_inform_completes [OF wX_laws(6,7) wN_works(1) s(1-3) r msg, of "PeerId [66]", unfolded s(4)] by blast
qed

end
