(* ===== verification/Kite_Core_Witness.thy ===== *)
theory Kite_Core_Witness
  imports Kite_Instance
begin

text \<open>
  The properties of the data, codec, directory and ranking components applied at concrete
  inputs. The JSON of the facets is instantiated by an injective, prefix-free token encoding.
\<close>

section \<open>An injective encoding of canonical facets\<close>

fun tok :: "string \<Rightarrow> bytes" where
  "tok [] = [0]"
| "tok (c # cs) = 1 # of_nat (of_char c) # tok cs"

fun toks :: "string list \<Rightarrow> bytes" where
  "toks [] = [0]"
| "toks (s # ss) = 1 # tok s @ toks ss"

definition tok_facets :: "CanonicalFacets \<Rightarrow> bytes" where
  "tok_facets c = toks (cf_ontologies c) @ toks (cf_tools c) @ tok (cf_sandbox_level c) @ tok (cf_network_access c) @
     tok (cf_gpu_class c) @ tok (cf_privacy_tier c) @ tok (cf_region c) @ tok (cf_pricing_band c) @
     tok (cf_trust_tier c) @ to_le_bytes (cf_status c)"

definition wXj :: ext where
  "wXj = wX\<lparr>json_facets := tok_facets\<rparr>"

lemma of_char_u8_inject: "(of_nat (of_char (c :: char)) :: u8) = of_nat (of_char d) \<longleftrightarrow> c = d"
  using as_bytes_inject [of "[c]" "[d]"] by (simp add: as_bytes_def)

lemma tok_inject: "tok a @ r = tok b @ s \<longleftrightarrow> a = b \<and> r = s"
proof (induction a arbitrary: b)
  case Nil then show ?case by (cases b) auto
next
  case (Cons c a) then show ?case by (cases b) (auto simp: of_char_u8_inject)
qed

lemma toks_inject: "toks a @ r = toks b @ s \<longleftrightarrow> a = b \<and> r = s"
proof (induction a arbitrary: b)
  case Nil then show ?case by (cases b) auto
next
  case (Cons c a) then show ?case by (cases b) (auto simp: tok_inject)
qed

lemma tok_facets_inject: "tok_facets c = tok_facets d \<Longrightarrow> c = d"
  by (simp add: tok_facets_def tok_inject toks_inject)

lemma wXj_json: "json_inj wXj" "no_collision wXj a b"
  by (auto simp: json_inj_def no_collision_def wXj_def wX_def intro: tok_facets_inject)

lemma wX_total: "\<exists>b. enc_acl wX m = Inr b" "\<exists>b. enc_receipt wX r = Inr b" "\<exists>b. enc_dir wX d = Inr b"
  "\<exists>s. kp_sign wX k x = Inr s"
  by (auto simp: wX_def split: Keypair.splits)

section \<open>Facets\<close>


section \<open>Envelopes, cards and receipts\<close>

text \<open>Signatures that are the signed bytes, over the description of a card.\<close>

definition wXt :: ext where
  "wXt = wXj\<lparr>enc_card := (\<lambda>m. Inr (as_bytes (card_description m))), pk_verify := (\<lambda>pk m s. m = s)\<rparr>"

definition wCardT :: CapabilityCard where
  "wCardT = wCard\<lparr>card_facet_fingerprint := fingerprint wXt wFacets\<rparr>"

lemma wCardT_verifies: "capability_verify wXt wCardT = Ok ()" "card_facets wCardT = Some wFacets"
  unfolding capability_verify_Ok_iff
  by (simp_all add: wCardT_def wCard_def dim384)
    (simp_all add: wXt_def wXj_def wX_def as_bytes_def card_signing_bytes_def Let_def)


definition wReceipt :: Receipt where
  "wReceipt = \<lparr>rec_conversation_id = ''c'', rec_capability_id = ''cap'', rec_requester_peer_id = ''r'', rec_provider_peer_id = ''p'',
     rec_status = 1, rec_completed_at_ns = - 1, rec_signature = [], rec_issuer_public_key = []\<rparr>"


section \<open>Hashing and encoding\<close>

lemma wlsh_dim: "(of_nat (length wVec) :: u32) = lp_dim default_for_skeleton"
  by (simp add: dim384 default_for_skeleton_def)

theorem signatures_bits_witness:
  "\<exists>sigs. signatures (lsh_new wX default_for_skeleton (default_seed wX)) wVec = (Ok sigs :: (bytes list, Error) exec) \<and>
     length sigs = 4"
  using signatures_bits [OF _ wlsh_dim, of wX "default_seed wX"]
  by (auto simp: default_for_skeleton_def DEFAULT_L_def DEFAULT_K_def)


theorem cosine_finite_witness:
  "\<exists>s. cosine wVec wVec = (Ok s :: (f32, Error) exec) \<and> \<not> is_nan s"
proof -
  have "length wVec < 2 ^ 24" "list_all (f_within 1) wVec"
    by (simp_all add: wVec_def f_zero_def list_all_iff)
  then show ?thesis using cosine_finite [of wVec wVec] by blast
qed

section \<open>The directory\<close>

lemma wCard_emb: "card_embedding wCard = Some \<lparr>emb_model_id = CANONICAL_MODEL_ID, emb_dimension = CANONICAL_EMBEDDING_DIM,
       emb_vector = wVec, emb_normalized = True\<rparr>"
  by (simp add: wCard_def)

lemma wPubs: "\<exists>pubs. build_records wX wCard wlsh wI 60 = Ok pubs"
  by (rule build_records_Ok [OF wlsh_wf wCard_emb _ wX_total(3,4)]) (simp add: wlsh_params wlsh_dim)

theorem build_records_sound_witness: "\<exists>pubs. build_records wX wCard wlsh wI 60 = Ok pubs \<and> length pubs = 4"
proof -
  obtain pubs where p: "build_records wX wCard wlsh wI 60 = Ok pubs" using wPubs by blast
  then show ?thesis using build_records_sound [OF wX_laws(1-3) wlsh_wf p wCard_emb]
    by (simp add: wlsh_params default_for_skeleton_def DEFAULT_L_def)
qed

theorem lookup_meets_publication_witness:
  "\<exists>pubs keys. build_records wX wCard wlsh wI 60 = Ok pubs \<and>
     lookup_keys wX [] wVec wlsh = (Ok keys :: ((u32 \<times> bytes) list, Error) exec) \<and> snd (keys ! 2) = pub_key (pubs ! 2)"
proof -
  obtain pubs where p: "build_records wX wCard wlsh wI 60 = Ok pubs" using wPubs by blast
  obtain sigs where s: "signatures wlsh wVec = (Ok sigs :: (bytes list, Error) exec)" "length sigs = 4"
    using signatures_Ok [OF wlsh_wf, of wVec, where 'e = Error] wlsh_dim
    by (auto simp: wlsh_params default_for_skeleton_def DEFAULT_L_def)
  obtain keys where k: "lookup_keys wX [] wVec wlsh = (Ok keys :: ((u32 \<times> bytes) list, Error) exec)"
    using wLookup [where 'e = Error] by blast
  have "length pubs = 4" using build_records_nth [OF p wCard_emb] s by (metis exec.inject(1) EmbeddingDescriptor.select_convs(3))
  moreover have "no_collision wX a b" for a b by (simp add: no_collision_def wX_def)
  moreover have "card_facet_fingerprint wCard = []" by (simp add: wCard_def)
  ultimately show ?thesis
    using lookup_meets_publication [OF p wCard_emb _ s(1) refl k, of 2] s(1) p k by auto
qed

section \<open>Ranking\<close>


definition wScored :: "f32 \<Rightarrow> ScoredCandidate" where
  "wScored x = \<lparr>sc_card = wCard, sc_score = x, sc_passed_filter = True, sc_filter_trace = []\<rparr>"

theorem nan_score_inconsistent_witness:
  "sort_by (\<lambda>xs. Inl ''user-provided comparison function does not correctly implement a total order'') scored_cmp
     [wScored (FFin False 1 0), wScored FNaN, wScored (f_zero binary32)] =
   (Panic ''user-provided comparison function does not correctly implement a total order'' :: (ScoredCandidate list, Error) exec)"
proof -
  have "partial_cmp (FFin False 1 0) (f_zero binary32) = Some Greater" by (simp add: f_zero_def) code_simp
  then show ?thesis
    by (subst nan_score_inconsistent [of "wScored FNaN" "wScored (f_zero binary32)" "wScored (FFin False 1 0)"])
      (simp_all add: wScored_def)
qed

section \<open>Codecs\<close>

definition wWire :: "'m \<Rightarrow> 'm wire" where
  "wWire m = \<lparr>w_len = (\<lambda>_. 2), w_enc = (\<lambda>x. if x = m then Inr [1, 2] else Inl ''other''), w_dec = (\<lambda>b. Inr m)\<rparr>"

definition wSink :: Sink where
  "wSink = \<lparr>sink_written = [9], sink_write_error = None, sink_flush_error = None\<rparr>"

lemma wWire_law: "wire_law (wWire m) m"
  by (simp add: wire_law_def wWire_def)

lemma wWire_write: "write_framed (wWire m) m \<lparr>sink_written = b, sink_write_error = None, sink_flush_error = None\<rparr> =
   (Ok (), \<lparr>sink_written = b @ to_be_bytes 2 @ [1, 2], sink_write_error = None, sink_flush_error = None\<rparr>)"
  by (simp add: write_framed_def wWire_def MAX_MESSAGE_BYTES_def)

definition wAcl :: AclMessage where
  "wAcl = \<lparr>acl_sender_id = ''a'', acl_signature = [], acl_timestamp_ns = 0, acl_message_id = ''m'',
     acl_performative = performative_as_i32 Request, acl_ontology = ECHO_ONTOLOGY, acl_conversation_id = ''c'',
     acl_in_reply_to = [], acl_payload = Some (PIntent wIntent), acl_trust = None, acl_sender_public_key = []\<rparr>"

definition wSource :: Source where
  "wSource = \<lparr>src_bytes = [7], src_end = None\<rparr>"

theorem acl_codec_round_trip_witness:
  "\<exists>frame. 4 \<le> length frame \<and> acl_read_request (wWire wAcl) (ahead frame wSource) = Ok (wAcl, wSource)"
proof -
  obtain io' where "acl_write_request (wWire wAcl) wAcl wSink = (Ok (), io')"
    using wWire_write [of wAcl "[9]"] by (simp add: acl_write_request_def wSink_def)
  then show ?thesis using acl_codec_round_trip [OF wWire_law, of wAcl wSink io'] by blast
qed

text \<open>A response whose writer failed after three bytes of the frame.\<close>

theorem cut_frame_rejected_witness:
  "\<exists>part io'. card_write_response (wWire \<lparr>crp_card = Some wCard\<rparr>) (Found wCard) (wSink\<lparr>sink_write_error := Some (3, ''reset'')\<rparr>) =
      (Err (Other ''reset''), io') \<and> sink_written io' = 9 # part \<and> length part = 3 \<and>
    (\<forall>v. card_read_response (wWire \<lparr>crp_card = Some wCard\<rparr>) \<lparr>src_bytes = part, src_end = None\<rparr> = v \<longrightarrow>
       v = Ok (Found wCard, \<lparr>src_bytes = [], src_end = None\<rparr>) \<or> v = Err UnexpectedEof)"
proof -
  let ?w = "wWire \<lparr>crp_card = Some wCard\<rparr>" and ?io = "wSink\<lparr>sink_write_error := Some (3, ''reset'')\<rparr>"
  let ?io' = "?io\<lparr>sink_written := [9] @ take 3 (to_be_bytes 2)\<rparr>"
  have w: "card_write_response ?w (Found wCard) ?io = (Err (Other ''reset''), ?io')"
    by (simp add: card_write_response_def write_framed_def wWire_def wSink_def MAX_MESSAGE_BYTES_def)
  obtain part where p: "sink_written ?io' = sink_written ?io @ part"
    "\<And>e. card_read_response ?w \<lparr>src_bytes = part, src_end = e\<rparr> = Ok (Found wCard, \<lparr>src_bytes = [], src_end = e\<rparr>) \<or>
      card_read_response ?w \<lparr>src_bytes = part, src_end = e\<rparr> = Err (case e of Some x \<Rightarrow> Other x | None \<Rightarrow> UnexpectedEof)"
    using cut_frame_rejected [OF _ w] wWire_law [of "\<lparr>crp_card = Some wCard\<rparr>"] by auto
  have "part = take 3 (to_be_bytes 2)" using p(1) by (simp add: wSink_def)
  then show ?thesis using w p(2) [of None] by (intro exI [of _ part] exI [of _ ?io']) auto
qed

theorem framing_cap_witness:
  "read_framed (wWire ()) (ahead (to_be_bytes (2 ^ 20 + 1)) wSource) = Err (InvalidData ''message too large'') \<and>
   write_framed ((wWire ())\<lparr>w_len := (\<lambda>_. 2 ^ 20 + 1)\<rparr>) () wSink = (Err (InvalidData ''message too large''), wSink)"
  using framing_cap [of "wWire ()" _ _ "2 ^ 20 + 1" wSource] framing_cap [of "(wWire ())\<lparr>w_len := (\<lambda>_. 2 ^ 20 + 1)\<rparr>" "()" wSink]
  by (simp add: MAX_MESSAGE_BYTES_def)

end
