(* ===== verification/Kite_Trace.thy ===== *)
theory Kite_Trace
  imports Kite_Conversation
begin

text \<open>
  What a daemon sends. The swarm is a parameter of the event loop, so its calls can be recorded:
  \<open>tap N\<close> is the swarm \<open>N\<close> whose world also keeps the list of all records, queries, requests and responses
  that were handed to it. Recording changes nothing (\<open>run_tap\<close>), and the record is the trace
  over which the typing of messages and their order are stated.
\<close>

section \<open>Recording a swarm\<close>

datatype Output =
    OPut KadRecord
  | OGet bytes
  | OCardRequest PeerId CardRequest
  | OCardResponse ResponseChannel CardResponse
  | OAclRequest PeerId AclMessage OutboundRequestId
  | OAclResponse ResponseChannel AclMessage

text \<open>\<open>quiet\<close> runs an operation on the world under the record; \<open>loud\<close> adds an output, made from its result.\<close>

definition quiet :: "('w \<Rightarrow> 'a \<times> 'w) \<Rightarrow> 'w \<times> 'l \<Rightarrow> 'a \<times> ('w \<times> 'l)" where
  "quiet f w = (case f (fst w) of (a, w') \<Rightarrow> (a, (w', snd w)))"

definition loud :: "('a \<Rightarrow> 'o) \<Rightarrow> ('w \<Rightarrow> 'a \<times> 'w) \<Rightarrow> 'w \<times> 'o list \<Rightarrow> 'a \<times> ('w \<times> 'o list)" where
  "loud out f w = (case f (fst w) of (a, w') \<Rightarrow> (a, (w', snd w @ [out a])))"

definition tap :: "'w net \<Rightarrow> ('w \<times> Output list) net" where
  "tap N =
     \<lparr>kad_protocol_name = kad_protocol_name N,
      local_peer_id = (\<lambda>w. local_peer_id N (fst w)),
      kad_put_record = (\<lambda>w r. loud (\<lambda>_. OPut r) (\<lambda>w. kad_put_record N w r) w),
      kad_get_record = (\<lambda>w k. loud (\<lambda>_. OGet k) (\<lambda>w. kad_get_record N w k) w),
      kad_add_address = (\<lambda>w p a. (kad_add_address N (fst w) p a, snd w)),
      swarm_dial = (\<lambda>w a. (swarm_dial N (fst w) a, snd w)),
      card_send_request = (\<lambda>w p r. loud (\<lambda>_. OCardRequest p r) (\<lambda>w. card_send_request N w p r) w),
      card_send_response = (\<lambda>w c r. (card_send_response N (fst w) c r, snd w @ [OCardResponse c r])),
      acl_send_request = (\<lambda>w p m. loud (OAclRequest p m) (\<lambda>w. acl_send_request N w p m) w),
      acl_send_response = (\<lambda>w c m. (acl_send_response N (fst w) c m, snd w @ [OAclResponse c m])),
      sys_clock = quiet (sys_clock N),
      sys_instant = quiet (sys_instant N),
      sys_uuid = quiet (sys_uuid N),
      sql_outcome = quiet (sql_outcome N),
      hash_first = (\<lambda>w. hash_first N (fst w)),
      sort_unspecified = sort_unspecified N\<rparr>"

text \<open>A state with another world, in particular with and without a record.\<close>

definition with_world :: "'v \<Rightarrow> 'w State \<Rightarrow> 'v State" where
  "with_world v s = \<lparr>st_swarm = v, st_identity = st_identity s, st_lsh = st_lsh s, st_receipts = st_receipts s,
     st_local_cards = st_local_cards s, st_pending_lookups = st_pending_lookups s,
     st_pending_card_fetches = st_pending_card_fetches s, st_requesters = st_requesters s,
     st_providers = st_providers s, st_pending_publish_acks = st_pending_publish_acks s,
     st_pending_acl_round1 = st_pending_acl_round1 s, st_pending_acl_round2 = st_pending_acl_round2 s,
     st_known_peers = st_known_peers s, st_events = st_events s, st_event_receiver_open = st_event_receiver_open s,
     st_publish_replies = st_publish_replies s, st_intent_replies = st_intent_replies s, st_metrics = st_metrics s\<rparr>"

definition tapped :: "'w State \<Rightarrow> ('w \<times> Output list) State" where
  "tapped s = with_world (st_swarm s, []) s"

definition untap :: "('w \<times> Output list) State \<Rightarrow> 'w State" where
  "untap s = with_world (fst (st_swarm s)) s"

definition recorded :: "('w \<times> Output list) State \<Rightarrow> Output list" where
  "recorded s = snd (st_swarm s)"

text \<open>Everything a daemon hands to its swarm during a run.\<close>

definition outbox :: "ext \<Rightarrow> 'w net \<Rightarrow> Input list \<Rightarrow> 'w State \<Rightarrow> Output list" where
  "outbox X N is s = recorded (snd (run X (tap N) is (tapped s)))"

section \<open>Recording changes nothing\<close>

lemma untap_sel [simp]:
  "st_swarm (untap s) = fst (st_swarm s)" "st_identity (untap s) = st_identity s" "st_lsh (untap s) = st_lsh s"
  "st_receipts (untap s) = st_receipts s" "st_local_cards (untap s) = st_local_cards s"
  "st_pending_lookups (untap s) = st_pending_lookups s" "st_pending_card_fetches (untap s) = st_pending_card_fetches s"
  "st_requesters (untap s) = st_requesters s" "st_providers (untap s) = st_providers s"
  "st_pending_publish_acks (untap s) = st_pending_publish_acks s"
  "st_pending_acl_round1 (untap s) = st_pending_acl_round1 s" "st_pending_acl_round2 (untap s) = st_pending_acl_round2 s"
  "st_known_peers (untap s) = st_known_peers s" "st_events (untap s) = st_events s"
  "st_event_receiver_open (untap s) = st_event_receiver_open s" "st_publish_replies (untap s) = st_publish_replies s"
  "st_intent_replies (untap s) = st_intent_replies s" "st_metrics (untap s) = st_metrics s"
  by (simp_all add: untap_def with_world_def)

lemma untap_upd [simp]:
  "untap (s\<lparr>st_swarm := w\<rparr>) = (untap s)\<lparr>st_swarm := fst w\<rparr>"
  "untap (s\<lparr>st_receipts := a1\<rparr>) = (untap s)\<lparr>st_receipts := a1\<rparr>"
  "untap (s\<lparr>st_local_cards := a2\<rparr>) = (untap s)\<lparr>st_local_cards := a2\<rparr>"
  "untap (s\<lparr>st_pending_lookups := a3\<rparr>) = (untap s)\<lparr>st_pending_lookups := a3\<rparr>"
  "untap (s\<lparr>st_pending_card_fetches := a4\<rparr>) = (untap s)\<lparr>st_pending_card_fetches := a4\<rparr>"
  "untap (s\<lparr>st_requesters := a5\<rparr>) = (untap s)\<lparr>st_requesters := a5\<rparr>"
  "untap (s\<lparr>st_providers := a6\<rparr>) = (untap s)\<lparr>st_providers := a6\<rparr>"
  "untap (s\<lparr>st_pending_publish_acks := a7\<rparr>) = (untap s)\<lparr>st_pending_publish_acks := a7\<rparr>"
  "untap (s\<lparr>st_pending_acl_round1 := a8\<rparr>) = (untap s)\<lparr>st_pending_acl_round1 := a8\<rparr>"
  "untap (s\<lparr>st_pending_acl_round2 := a8\<rparr>) = (untap s)\<lparr>st_pending_acl_round2 := a8\<rparr>"
  "untap (s\<lparr>st_known_peers := a9\<rparr>) = (untap s)\<lparr>st_known_peers := a9\<rparr>"
  "untap (s\<lparr>st_events := a10\<rparr>) = (untap s)\<lparr>st_events := a10\<rparr>"
  "untap (s\<lparr>st_event_receiver_open := a11\<rparr>) = (untap s)\<lparr>st_event_receiver_open := a11\<rparr>"
  "untap (s\<lparr>st_publish_replies := a12\<rparr>) = (untap s)\<lparr>st_publish_replies := a12\<rparr>"
  "untap (s\<lparr>st_intent_replies := a13\<rparr>) = (untap s)\<lparr>st_intent_replies := a13\<rparr>"
  "untap (s\<lparr>st_metrics := a14\<rparr>) = (untap s)\<lparr>st_metrics := a14\<rparr>"
  by (simp_all add: untap_def with_world_def)

lemma untap_effects [simp]:
  "untap (emit ev s) = emit ev (untap s)" "untap (reply_publish ch v s) = reply_publish ch v (untap s)"
  "untap (reply_intent ch v' s) = reply_intent ch v' (untap s)" "untap (upd_metrics f s) = upd_metrics f (untap s)"
  by (simp_all add: effect_defs)

lemma untap_tapped [simp]: "untap (tapped s) = s"
  by (simp add: untap_def tapped_def with_world_def)

lemma tap_sel [simp]:
  "kad_protocol_name (tap N) = kad_protocol_name N" "local_peer_id (tap N) w = local_peer_id N (fst w)"
  "kad_put_record (tap N) w r = loud (\<lambda>_. OPut r) (\<lambda>w. kad_put_record N w r) w"
  "kad_get_record (tap N) w k = loud (\<lambda>_. OGet k) (\<lambda>w. kad_get_record N w k) w"
  "kad_add_address (tap N) w p a = (kad_add_address N (fst w) p a, snd w)"
  "swarm_dial (tap N) w a = (swarm_dial N (fst w) a, snd w)"
  "card_send_request (tap N) w p c = loud (\<lambda>_. OCardRequest p c) (\<lambda>w. card_send_request N w p c) w"
  "card_send_response (tap N) w ch cr = (card_send_response N (fst w) ch cr, snd w @ [OCardResponse ch cr])"
  "acl_send_request (tap N) w p m = loud (OAclRequest p m) (\<lambda>w. acl_send_request N w p m) w"
  "acl_send_response (tap N) w ch m = (acl_send_response N (fst w) ch m, snd w @ [OAclResponse ch m])"
  "sys_clock (tap N) w = quiet (sys_clock N) w" "sys_instant (tap N) w = quiet (sys_instant N) w"
  "sys_uuid (tap N) w = quiet (sys_uuid N) w" "sql_outcome (tap N) w = quiet (sql_outcome N) w"
  "hash_first (tap N) w = hash_first N (fst w)" "sort_unspecified (tap N) = sort_unspecified N"
  by (simp_all add: tap_def)

lemmas tap_defs = quiet_def loud_def

lemma put_all_tap: "put_all N ps (fst w) = map_prod id fst (put_all (tap N) ps w)"
proof (induction ps arbitrary: w)
  case (Cons p ps)
  let ?r = "\<lparr>kr_key = pub_key p, kr_value = pub_record_bytes p, kr_publisher = Some (local_peer_id N (fst w))\<rparr>"
  obtain x w1 where x: "kad_put_record N (fst w) ?r = (x, w1)" by force
  show ?case using x Cons.IH [of "(w1, snd w @ [OPut ?r])"]
    by (auto simp: tap_defs split: sum.splits prod.splits)
qed simp

lemma get_all_tap:
  "get_all N conv ks (fst w) out pl = map_prod id (map_prod id fst) (get_all (tap N) conv ks w out pl)"
proof (induction ks arbitrary: w out pl)
  case (Cons k ks)
  obtain q w1 where q: "kad_get_record N (fst w) (snd k) = (q, w1)" by force
  show ?case
    using q Cons.IH [of "(w1, snd w @ [OGet (snd k)])" "insert q out" "pl(q \<mapsto> conv)", unfolded fst_conv]
    by (cases k) (simp only: get_all.simps tap_sel loud_def snd_conv split)
qed simp

text \<open>One lemma per handler: it commutes with forgetting the record.\<close>

lemma publish_tap: "publish X N c reply (untap s) = map_prod id untap (publish X (tap N) c reply s)"
  by (auto simp: publish_def Let_def put_all_tap split: exec.splits prod.splits sum.splits)

lemma submit_intent_tap:
  "submit_intent X N required query intent reply (untap s) =
     map_prod id untap (submit_intent X (tap N) required query intent reply s)"
proof -
  obtain conv w1 where u: "sys_uuid N (fst (st_swarm s)) = (conv, w1)" by force
  show ?thesis using u get_all_tap [of N conv _ "(w1, snd (st_swarm s))"]
    by (auto simp: submit_intent_def Let_def tap_defs split: exec.splits prod.splits)
qed

lemma maybe_send_request_tap:
  "maybe_send_request X N conv (untap s) = map_prod id untap (maybe_send_request X (tap N) conv s)"
  by (auto simp: maybe_send_request_def Let_def tap_defs split: exec.splits prod.splits option.splits)

lemma on_directory_hit_tap:
  "on_directory_hit X N rec conv (untap s) = map_prod id untap (on_directory_hit X (tap N) rec conv s)"
  by (auto simp: on_directory_hit_def Let_def tap_defs split: exec.splits prod.splits option.splits sum.splits)

lemma finish_lookup_tap: "finish_lookup X N q (untap s) = map_prod id untap (finish_lookup X (tap N) q s)"
  by (auto simp: finish_lookup_def Let_def maybe_send_request_tap [symmetric] split: option.splits)

lemma handle_query_result_tap:
  "handle_query_result X N q res (untap s) = map_prod id untap (handle_query_result X (tap N) q res s)"
  by (cases res) (auto simp: Let_def finish_lookup_tap on_directory_hit_tap upd_metrics_def split: option.splits)

lemma handle_kad_tap: "handle_kad X N ev (untap s) = map_prod id untap (handle_kad X (tap N) ev s)"
  by (cases ev) (simp_all add: handle_query_result_tap)

lemma foldl_fst: "(\<And>w x. fst (g w x) = f (fst w) x) \<Longrightarrow> fst (foldl g w xs) = foldl f (fst w) xs"
  by (induction xs arbitrary: w) simp_all

lemma handle_identify_tap: "handle_identify N ev (untap s) = untap (handle_identify (tap N) ev s)"
  by (cases ev) (simp_all add: foldl_fst [where f = "\<lambda>w a. kad_add_address N w p a" for p])

lemma handle_mdns_tap: "handle_mdns N ev (untap s) = untap (handle_mdns (tap N) ev s)"
  by (cases ev) (simp_all add: foldl_fst [where f = "\<lambda>w (peer, addr). swarm_dial N w addr"] split: prod.splits)

lemma handle_card_response_tap:
  "handle_card_response X N i resp (untap s) = map_prod id untap (handle_card_response X (tap N) i resp s)"
  by (auto simp: handle_card_response_def Let_def maybe_send_request_tap [symmetric] split: option.splits)

lemma handle_card_tap: "handle_card X N ev (untap s) = map_prod id untap (handle_card X (tap N) ev s)"
  by (cases ev) (simp_all add: Let_def handle_card_response_tap)

lemma handle_request_round1_tap:
  "handle_request_round1 X N peer msg ch (untap s) = map_prod id untap (handle_request_round1 X (tap N) peer msg ch s)"
  by (auto simp: handle_request_round1_def Let_def tap_defs split: exec.splits prod.splits option.splits Payload.splits)

lemma handle_agree_round2_tap:
  "handle_agree_round2 X N peer msg ch (untap s) = map_prod id untap (handle_agree_round2 X (tap N) peer msg ch s)"
  by (auto simp: handle_agree_round2_def Let_def tap_defs split: exec.splits prod.splits option.splits)

lemma complete_intent_tap:
  "complete_intent X N peer conv inform (untap s) = map_prod id untap (complete_intent X (tap N) peer conv inform s)"
  by (auto simp: complete_intent_def Let_def tap_defs split: exec.splits prod.splits option.splits)

lemma send_agree_tap: "send_agree X N conv msg (untap s) = map_prod id untap (send_agree X (tap N) conv msg s)"
  by (auto simp: send_agree_def Let_def tap_defs split: exec.splits prod.splits option.splits)

lemma handle_acl_tap: "handle_acl X N ev (untap s) = map_prod id untap (handle_acl X (tap N) ev s)"
  by (cases ev) (auto simp: on_acl_request_def on_acl_response_def Let_def handle_request_round1_tap handle_agree_round2_tap
      complete_intent_tap [symmetric] send_agree_tap [symmetric] split: option.splits Performative.splits)

lemma handle_swarm_event_tap:
  "handle_swarm_event X N ev (untap s) = map_prod id untap (handle_swarm_event X (tap N) ev s)"
  by (cases ev) (simp_all add: handle_mdns_tap handle_kad_tap handle_identify_tap handle_card_tap handle_acl_tap)

lemma handle_command_tap: "handle_command X N c (untap s) = map_prod id untap (handle_command X (tap N) c s)"
  by (cases c) (simp_all add: publish_tap submit_intent_tap)

lemma loop_turn_tap: "loop_turn X N i (untap s) = map_prod id untap (loop_turn X (tap N) i s)"
proof (cases i)
  case (InCommand c)
  then show ?thesis by (cases c) (auto simp: handle_command_tap split: prod.splits exec.splits)
qed (auto simp: handle_swarm_event_tap split: prod.splits exec.splits)

lemma run_untap: "run X N is (untap s) = map_prod id untap (run X (tap N) is s)"
  by (induction "is" arbitrary: s) (auto simp: loop_turn_tap split: prod.splits option.splits)

lemma run_tap: "run X N is s = map_prod id untap (run X (tap N) is (tapped s))"
  using run_untap [of X N "is" "tapped s"] by simp

section \<open>Added outputs\<close>

text \<open>One world follows another by adding outputs that satisfy a predicate.\<close>

definition adds :: "(Output \<Rightarrow> bool) \<Rightarrow> 'w \<times> Output list \<Rightarrow> 'w \<times> Output list \<Rightarrow> bool" where
  "adds P w w' \<longleftrightarrow> (\<exists>l. snd w' = snd w @ l \<and> list_all P l)"

lemma adds_refl [simp]: "adds P w w"
  by (simp add: adds_def)

lemma adds_trans: "adds P a b \<Longrightarrow> adds P b c \<Longrightarrow> adds P a c"
  by (auto simp: adds_def)

lemma adds_same: "snd w' = snd w \<Longrightarrow> adds P w w'"
  by (simp add: adds_def)

lemma adds_one: "snd w' = snd w @ [out] \<Longrightarrow> P out \<Longrightarrow> adds P w w'"
  by (simp add: adds_def)

lemma adds_mono: "adds P w w' \<Longrightarrow> (\<And>out. P out \<Longrightarrow> Q out) \<Longrightarrow> adds Q w w'"
  by (auto simp: adds_def list_all_iff)

lemma loud_snd: "loud out f w = (a, w') \<Longrightarrow> snd w' = snd w @ [out a]"
  by (auto simp: loud_def split: prod.splits)

lemma quiet_snd: "quiet f w = (a, w') \<Longrightarrow> snd w' = snd w"
  by (auto simp: quiet_def split: prod.splits)

lemma adds_loud: "loud out f w = (a, w') \<Longrightarrow> P (out a) \<Longrightarrow> adds P w w'"
  by (rule adds_one [OF loud_snd])

lemma adds_quiet: "quiet f w = (a, w') \<Longrightarrow> adds P w w'"
  by (rule adds_same [OF quiet_snd])

lemma foldl_snd: "(\<And>w x. snd (g w x) = snd w) \<Longrightarrow> snd (foldl g w xs) = snd w"
  by (induction xs arbitrary: w) simp_all

end
