(* ===== verification/Kite_Sent.thy ===== *)
theory Kite_Sent
  imports Kite_Trace Kite_Exchange
begin

text \<open>
  What a daemon sends is well typed: the typing of outputs, what each handler adds to the
  record, and that every output of a run is well typed and sealed by the daemon.
\<close>

section \<open>The typing of what is sent\<close>

text \<open>An envelope that an agent made: it names the agent and verifies.\<close>

definition sealed_by :: "ext \<Rightarrow> AgentIdentity \<Rightarrow> AclMessage \<Rightarrow> bool" where
  "sealed_by X i m \<longleftrightarrow> acl_sender_id m = pid_to_string X (peer_id X i) \<and> acl_verify X m = Ok ()"

text \<open>
  The type of an output of the agent \<open>i\<close>: the performative of an envelope and the variant of its
  payload agree, requests are REQUEST or AGREE and responses PROPOSE or INFORM, a record is
  signed and filed under the key of its own contents, a served card verifies.
\<close>

definition request_typed :: "AclMessage \<Rightarrow> bool" where
  "request_typed m \<longleftrightarrow> (case acl_payload m of
     Some (PIntent intent) \<Rightarrow> performative_of m = Request \<and> acl_in_reply_to m = ''''
   | Some (PAgreement a) \<Rightarrow> performative_of m = Agree \<and> agr_conversation_id a = acl_conversation_id m
   | _ \<Rightarrow> False)"

definition response_typed :: "ext \<Rightarrow> AgentIdentity \<Rightarrow> AclMessage \<Rightarrow> bool" where
  "response_typed X i m \<longleftrightarrow> (case acl_payload m of
     Some (PProposal p) \<Rightarrow> performative_of m = Propose \<and> pro_provider_agent_id p = pid_to_string X (peer_id X i)
   | Some (PResult r) \<Rightarrow> performative_of m = Inform \<and> res_conversation_id r = acl_conversation_id m \<and>
       res_status r = result_status_as_i32 ROk
   | _ \<Rightarrow> False)"

definition record_typed :: "ext \<Rightarrow> AgentIdentity \<Rightarrow> KadRecord \<Rightarrow> bool" where
  "record_typed X i k \<longleftrightarrow> (\<exists>r. enc_dir X r = Inr (kr_value k) \<and> verify_record X r = Ok () \<and>
     dir_peer_id r = pid_to_string X (peer_id X i) \<and>
     kr_key k = dht_key X (dir_facet_fingerprint r) (dir_model_id r) (dir_table_id r) (dir_hash_code r))"

fun well_typed :: "ext \<Rightarrow> AgentIdentity \<Rightarrow> Output \<Rightarrow> bool" where
  "well_typed X i (OPut k) = record_typed X i k"
| "well_typed X i (OGet key) = True"
| "well_typed X i (OCardRequest peer r) = True"
| "well_typed X i (OCardResponse ch (Found c)) = (capability_verify X c = Ok ())"
| "well_typed X i (OCardResponse ch NotFound) = True"
| "well_typed X i (OAclRequest peer m j) = (sealed_by X i m \<and> request_typed m)"
| "well_typed X i (OAclResponse ch m) = (sealed_by X i m \<and> response_typed X i m)"

text \<open>What the builder makes is sealed by its identity.\<close>

lemma built_sealed:
  assumes "mesh_laws X" "acl_build X t u (acl_new i conv) perf ont irt pl = Ok m"
  shows "sealed_by X i m"
  using acl_build_verifies [OF mesh_lawsD [OF assms(1)] assms(2)] acl_build_fields [OF assms(2)]
  by (simp add: sealed_by_def acl_new_def)

lemmas acl_acts = acl_request_def acl_agree_def acl_propose_def acl_inform_def

lemma built_typed:
  assumes "mesh_laws X"
  shows "acl_request X t u (acl_new i conv) ont intent = Ok m \<Longrightarrow> well_typed X i (OAclRequest peer m j)"
    and "acl_agree X t u (acl_new i conv) ont irt \<lparr>agr_conversation_id = conv, agr_capability_id = cap\<rparr> = Ok m \<Longrightarrow>
      well_typed X i (OAclRequest peer m j)"
    and "acl_propose X t u (acl_new i conv) ont irt \<lparr>pro_capability_id = cap,
        pro_provider_agent_id = pid_to_string X (peer_id X i), pro_quote = q, pro_expires_at_ns = e\<rparr> = Ok m \<Longrightarrow>
      well_typed X i (OAclResponse ch m)"
    and "acl_inform X t u (acl_new i conv) ont irt \<lparr>res_conversation_id = conv, res_payload = p,
        res_status = result_status_as_i32 ROk, res_error_message = err\<rparr> = Ok m \<Longrightarrow> well_typed X i (OAclResponse ch m)"
  using built_sealed [of X, OF assms] built_fields [of X]
  by (auto simp: acl_acts request_typed_def response_typed_def split: option.splits Payload.splits)

section \<open>What each handler adds\<close>

text \<open>Outputs other than ACL responses, and outputs other than ACL messages; both well typed.\<close>

definition no_response :: "ext \<Rightarrow> AgentIdentity \<Rightarrow> Output \<Rightarrow> bool" where
  "no_response X i out \<longleftrightarrow> (\<forall>ch m. out \<noteq> OAclResponse ch m) \<and> (mesh_laws X \<longrightarrow> well_typed X i out)"

definition plain :: "ext \<Rightarrow> AgentIdentity \<Rightarrow> Output \<Rightarrow> bool" where
  "plain X i out \<longleftrightarrow> (\<forall>peer m j. out \<noteq> OAclRequest peer m j) \<and> no_response X i out"

text \<open>A handler that keeps identity, cards and proposals and adds outputs of one kind.\<close>

definition speaks :: "(AgentIdentity \<Rightarrow> Output \<Rightarrow> bool) \<Rightarrow> ('w \<times> Output list) State \<Rightarrow> ('w \<times> Output list) State \<Rightarrow> bool" where
  "speaks P s s' \<longleftrightarrow> st_identity s' = st_identity s \<and> st_local_cards s' = st_local_cards s \<and>
     st_providers s' = st_providers s \<and> adds (P (st_identity s)) (st_swarm s) (st_swarm s')"

lemma speaks_same: "st_identity s' = st_identity s \<Longrightarrow> st_local_cards s' = st_local_cards s \<Longrightarrow>
    st_providers s' = st_providers s \<Longrightarrow> snd (st_swarm s') = snd (st_swarm s) \<Longrightarrow> speaks P s s'"
  by (simp add: speaks_def adds_same)

lemma speaks_trans: "speaks P a b \<Longrightarrow> speaks P b c \<Longrightarrow> speaks P a c"
  by (auto simp: speaks_def intro: adds_trans)

lemma plain_speaks: "speaks (plain X) s s' \<Longrightarrow> speaks (no_response X) s s'"
  by (auto simp: speaks_def plain_def elim: adds_mono)

lemma adds_plain: "adds (plain X i) w w' \<Longrightarrow> adds (no_response X i) w w'"
  by (erule adds_mono) (simp add: plain_def)

lemmas tap_snd = quiet_snd loud_snd

lemma put_all_adds:
  assumes "\<And>p z. p \<in> set ps \<Longrightarrow> P (OPut \<lparr>kr_key = pub_key p, kr_value = pub_record_bytes p, kr_publisher = z\<rparr>)"
  shows "put_all (tap N) ps w = (r, w') \<Longrightarrow> adds P w w'"
  using assms
proof (induction ps arbitrary: w r w')
  case (Cons p ps)
  obtain x w1 where x: "kad_put_record (tap N) w
      \<lparr>kr_key = pub_key p, kr_value = pub_record_bytes p, kr_publisher = Some (local_peer_id (tap N) w)\<rparr> = (x, w1)"
    by (metis surj_pair)
  have g: "adds P w w1" using x Cons.prems(2) [of p] by (auto intro: adds_loud)
  obtain y w2 where y: "put_all (tap N) ps w1 = (y, w2)" by (metis surj_pair)
  have "adds P w w2" using adds_trans [OF g Cons.IH [OF y]] Cons.prems(2) by simp
  then show ?case using Cons.prems(1) x y g by (auto split: sum.splits)
qed simp

lemma built_records_plain:
  assumes "build_records X c lsh i ttl = Ok pubs" "p \<in> set pubs"
  shows "plain X i (OPut \<lparr>kr_key = pub_key p, kr_value = pub_record_bytes p, kr_publisher = z\<rparr>)"
proof -
  obtain e where e: "card_embedding c = Some e" using assms(1) by (auto simp: build_records_def exec_simps)
  obtain n sig where b: "build_record X c i ttl (n, sig) = Ok p"
    using build_records_nth [OF assms(1) e] assms(2) by (metis in_set_conv_nth)
  have "mesh_laws X \<Longrightarrow> record_typed X i \<lparr>kr_key = pub_key p, kr_value = pub_record_bytes p, kr_publisher = z\<rparr>"
    unfolding record_typed_def
    using build_record_fields [OF b] build_record_verifies [OF mesh_lawsD b] by (intro exI [of _ "pub_record p"]) simp
  then show ?thesis by (simp add: plain_def no_response_def)
qed

lemma get_all_adds: "get_all (tap N) conv ks w out pl = (out', pl', w') \<Longrightarrow> adds (plain X i) w w'"
proof (induction ks arbitrary: w out pl)
  case (Cons k ks)
  obtain t key where k: "k = (t, key)" by force
  obtain q w1 where q: "kad_get_record (tap N) w key = (q, w1)" by (metis surj_pair)
  have "adds (plain X i) w w1" using q by (auto simp: plain_def no_response_def intro: adds_loud)
  then show ?case using adds_trans Cons k q by fastforce
qed simp

lemma submit_intent_speaks:
  assumes "submit_intent X (tap N) required query intent reply s = (r, s')"
  shows "speaks (plain X) s s'"
  using assms
proof (cases rule: submit_intent_cases)
  case (opened keys conv w1 out pl w2 t w3 req)
  have "adds P (st_swarm s) w1" "adds P w2 w3" for P using opened(3,5) by (auto intro: adds_quiet)
  then have "adds (plain X (st_identity s)) (st_swarm s) w3"
    using get_all_adds [OF opened(4)] adds_trans by blast
  then show ?thesis using opened(6) by (simp add: speaks_def)
qed (simp add: speaks_same)

lemma on_directory_hit_speaks:
  assumes "on_directory_hit X (tap N) rec conv s = (r, s')"
  shows "speaks (plain X) s s'"
  using assms by (cases rule: on_directory_hit_cases)
    (auto simp: speaks_def plain_def no_response_def intro: adds_loud)

text \<open>The two messages of the requester.\<close>

lemma maybe_send_request_records:
  assumes "maybe_send_request X (tap N) conv s = (r, s')"
  shows "recorded s' = recorded s \<or> (\<exists>peer m j. recorded s' = recorded s @ [OAclRequest peer m j] \<and>
    no_response X (st_identity s) (OAclRequest peer m j) \<and> performative_of m = Request \<and> acl_conversation_id m = conv \<and>
    (\<exists>req req'. st_requesters s conv = Some req \<and> \<not> rs_request_sent req \<and> rs_request_sent req' \<and>
       rs_provider_peer req' = Some peer \<and> st_requesters s' conv = Some req' \<and>
       (\<forall>c. c \<noteq> conv \<longrightarrow> st_requesters s' c = st_requesters s c)))"
  using assms
proof (cases rule: maybe_send_request_cases)
  case (sent req scored best provider t w1 u w2 now w3 msg rid w4)
  have "snd w4 = recorded s @ [OAclRequest provider msg rid]"
    using sent(9,10,12,13) by (auto simp: recorded_def dest!: tap_snd)
  moreover have "no_response X (st_identity s) (OAclRequest provider msg rid)"
    using built_typed(1) [OF _ sent(11), of provider] by (simp add: no_response_def)
  ultimately show ?thesis using built_fields [OF sent(11) [unfolded acl_request_def]] sent(1,3,14)
    by (auto simp: recorded_def upd_metrics_def intro!: exI [of _ provider])
qed (auto simp: reply_intent_def recorded_def dest!: tap_snd)

lemma send_agree_records:
  assumes "send_agree X (tap N) conv msg s = (r, s')"
  shows "recorded s' = recorded s \<or> (\<exists>peer m j. recorded s' = recorded s @ [OAclRequest peer m j] \<and>
    no_response X (st_identity s) (OAclRequest peer m j) \<and> performative_of m = Agree \<and> acl_conversation_id m = conv \<and>
    (\<exists>req. st_requesters s conv = Some req \<and> rs_provider_peer req = Some peer))"
  using assms
proof (cases rule: send_agree_cases)
  case (sent req provider t w1 u w2 m i w3)
  have "snd w3 = recorded s @ [OAclRequest provider m i]" using sent(4,5,7) by (auto simp: recorded_def dest!: tap_snd)
  moreover have "no_response X (st_identity s) (OAclRequest provider m i)"
    using built_typed(2) [OF _ sent(6), of provider] by (simp add: no_response_def)
  ultimately show ?thesis using built_fields [OF sent(6) [unfolded acl_agree_def]] sent(2,3,8)
    by (auto simp: recorded_def intro!: exI [of _ provider])
qed (auto simp: recorded_def dest!: tap_snd)

lemma maybe_send_request_speaks:
  assumes "maybe_send_request X (tap N) conv s = (r, s')"
  shows "speaks (no_response X) s s'"
proof -
  have "st_identity s' = st_identity s" "st_local_cards s' = st_local_cards s" "st_providers s' = st_providers s"
    using assms by (cases rule: maybe_send_request_cases; simp add: effect_defs)+
  then show ?thesis using maybe_send_request_records [OF assms]
    by (auto simp: speaks_def recorded_def adds_same adds_one)
qed

lemma send_agree_speaks:
  assumes "send_agree X (tap N) conv msg s = (r, s')"
  shows "speaks (no_response X) s s'"
proof -
  have "st_identity s' = st_identity s" "st_local_cards s' = st_local_cards s" "st_providers s' = st_providers s"
    using assms by (cases rule: send_agree_cases; simp)+
  then show ?thesis using send_agree_records [OF assms]
    by (auto simp: speaks_def recorded_def adds_same adds_one)
qed

lemma complete_intent_speaks:
  assumes "complete_intent X (tap N) peer conv inform s = (r, s')"
  shows "speaks (plain X) s s'"
  using assms by (cases rule: complete_intent_cases) (auto simp: effect_defs intro!: speaks_same dest!: tap_snd)

lemma finish_lookup_speaks: "speaks (no_response X) s (snd (finish_lookup X (tap N) q s))"
proof (cases "st_pending_lookups s q")
  case (Some conv)
  have "speaks (no_response X) s (lookup_done q conv s)" by (rule speaks_same) (simp_all add: lookup_done_def)
  then show ?thesis using speaks_trans [OF _ maybe_send_request_speaks [OF surjective_pairing]] Some
    by (simp add: finish_lookup_eq)
qed (simp add: finish_lookup_eq speaks_same)

lemma handle_card_response_speaks: "speaks (no_response X) s (snd (handle_card_response X (tap N) i response s))"
proof (cases "\<exists>conv req. st_pending_card_fetches s i = Some conv \<and> st_requesters s conv = Some req")
  case False
  then show ?thesis by (auto simp: handle_card_response_def Let_def intro!: speaks_same split: option.splits)
next
  case True
  then obtain conv req where c: "st_pending_card_fetches s i = Some conv" "st_requesters s conv = Some req" by blast
  have d: "speaks (no_response X) s (card_done X i conv req response s)"
    by (rule speaks_same) (simp_all add: card_done_def)
  show ?thesis using d speaks_trans [OF d maybe_send_request_speaks [OF surjective_pairing]]
    by (simp add: handle_card_response_eq [OF c])
qed

lemma on_acl_response_speaks: "speaks (no_response X) s (snd (on_acl_response X (tap N) peer i msg s))"
proof -
  have t: "speaks P s (s\<lparr>st_pending_acl_round1 := a\<rparr>)" "speaks P s (s\<lparr>st_pending_acl_round2 := b\<rparr>)" for P a b
    by (simp_all add: speaks_same)
  have "speaks (no_response X) s (snd (send_agree X (tap N) conv msg (s\<lparr>st_pending_acl_round1 := a\<rparr>)))" for conv a
    by (rule speaks_trans [OF t(1) send_agree_speaks [OF surjective_pairing]])
  moreover have "speaks (no_response X) s (snd (complete_intent X (tap N) peer conv msg (s\<lparr>st_pending_acl_round2 := b\<rparr>)))" for conv b
    by (rule speaks_trans [OF t(2) plain_speaks [OF complete_intent_speaks [OF surjective_pairing]]])
  ultimately show ?thesis using t by (simp add: on_acl_response_def Let_def speaks_same split: option.splits)
qed

lemma swarm_only_speaks:
  "speaks P s (handle_identify (tap N) iev s)" "speaks P s (handle_mdns (tap N) mev s)"
proof -
  have "snd (st_swarm (handle_identify (tap N) iev s)) = snd (st_swarm s)" by (cases iev) (simp_all add: foldl_snd)
  then show "speaks P s (handle_identify (tap N) iev s)" by (intro speaks_same; cases iev; simp)
  have "snd (st_swarm (handle_mdns (tap N) mev s)) = snd (st_swarm s)" by (cases mev) (auto intro!: foldl_snd)
  then show "speaks P s (handle_mdns (tap N) mev s)" by (intro speaks_same; cases mev; simp)
qed

text \<open>The two messages of the provider.\<close>

lemma request_records:
  assumes "handle_request_round1 X (tap N) peer msg ch s = (r, s')"
  shows "recorded s' = recorded s \<and> st_providers s' = st_providers s \<or>
    (\<exists>m prov. recorded s' = recorded s @ [OAclResponse ch m] \<and> (mesh_laws X \<longrightarrow> well_typed X (st_identity s) (OAclResponse ch m)) \<and>
       performative_of m = Propose \<and> acl_conversation_id m = acl_conversation_id msg \<and>
       st_providers s' = (st_providers s)(acl_conversation_id msg \<mapsto> prov))"
  using assms
proof (cases rule: handle_request_round1_cases)
  case (proposed intent cap t w1 u w2 m)
  have "snd w2 = recorded s" using proposed(4,5) by (auto simp: recorded_def dest!: tap_snd)
  then show ?thesis using built_typed(3) [OF _ proposed(6), of ch] built_fields [OF proposed(6) [unfolded acl_propose_def]] proposed(7)
    by (auto simp: recorded_def)
qed (auto simp: recorded_def dest!: tap_snd)

lemma agree_records:
  assumes "handle_agree_round2 X (tap N) peer msg ch s = (r, s')"
  shows "recorded s' = recorded s \<and> st_providers s' = (st_providers s)(acl_conversation_id msg := None) \<or>
    (\<exists>m. recorded s' = recorded s @ [OAclResponse ch m] \<and> (mesh_laws X \<longrightarrow> well_typed X (st_identity s) (OAclResponse ch m)) \<and>
       performative_of m = Inform \<and> acl_conversation_id m = acl_conversation_id msg \<and>
       st_providers s (acl_conversation_id msg) \<noteq> None \<and>
       st_providers s' = (st_providers s)(acl_conversation_id msg := None))"
proof (cases "st_providers s (acl_conversation_id msg)")
  case None
  then show ?thesis using assms by (auto simp: handle_agree_round2_def)
next
  case (Some prov)
  obtain t w1 where t: "sys_clock (tap N) (st_swarm s) = (t, w1)" by (metis surj_pair)
  obtain u w2 where u: "sys_uuid (tap N) w1 = (u, w2)" by (metis surj_pair)
  have w2: "snd w2 = recorded s" using t u by (auto simp: recorded_def dest!: tap_snd)
  let ?m = "acl_inform X t u (acl_new (st_identity s) (acl_conversation_id msg)) ECHO_ONTOLOGY (acl_message_id msg)
      \<lparr>res_conversation_id = acl_conversation_id msg, res_payload = ps_intent_payload prov,
        res_status = result_status_as_i32 ROk, res_error_message = ''''\<rparr>"
  show ?thesis
  proof (cases ?m)
    case (Ok m)
    have "recorded s' = recorded s @ [OAclResponse ch m] \<and> st_providers s' = (st_providers s)(acl_conversation_id msg := None)"
      using assms Some t u Ok w2
      by (auto simp: handle_agree_round2_def Let_def recorded_def upd_metrics_def store_insert_def dest!: tap_snd
        split: prod.splits exec.splits option.splits)
    then show ?thesis using Some built_typed(4) [OF _ Ok] built_fields [OF Ok [unfolded acl_inform_def]] by blast
  next
    case (Err e)
    then show ?thesis using assms Some t u w2 by (auto simp: handle_agree_round2_def Let_def recorded_def)
  next
    case (Panic p)
    then show ?thesis by (simp add: acl_inform_def)
  qed
qed

lemma provider_frame:
  "handle_request_round1 X N peer msg ch s = (r, s') \<Longrightarrow> st_identity s' = st_identity s \<and> st_local_cards s' = st_local_cards s"
  "handle_agree_round2 X N peer msg ch s = (r, s') \<Longrightarrow> st_identity s' = st_identity s \<and> st_local_cards s' = st_local_cards s"
  by (elim handle_request_round1_cases; simp) (elim handle_agree_round2_cases; simp add: upd_metrics_def)

text \<open>A publication adds a card and its records.\<close>

lemma publish_records:
  assumes "publish X (tap N) c reply s = (r, s')"
  shows "adds (plain X (st_identity s)) (st_swarm s) (st_swarm s') \<and> st_identity s' = st_identity s \<and>
    st_providers s' = st_providers s \<and> (st_local_cards s' = st_local_cards s \<or>
      capability_verify X c = Ok () \<and> st_local_cards s' = (st_local_cards s)(card_capability_id c \<mapsto> c))"
proof (cases "capability_verify X c = Ok () \<and> (\<exists>pubs. build_records X c (st_lsh s) (st_identity s) RECORD_TTL_NS = Ok pubs)")
  case True
  then obtain pubs where p: "build_records X c (st_lsh s) (st_identity s) RECORD_TTL_NS = Ok pubs" by blast
  obtain x w where x: "put_all (tap N) pubs (st_swarm s) = (x, w)" by (metis surj_pair)
  have "adds (plain X (st_identity s)) (st_swarm s) w"
    by (rule put_all_adds [OF _ x]) (rule built_records_plain [OF p])
  moreover have "st_swarm s' = st_swarm s \<or> st_swarm s' = w" "st_identity s' = st_identity s" "st_providers s' = st_providers s"
    "st_local_cards s' = (st_local_cards s)(card_capability_id c \<mapsto> c)"
    using assms True p x by (auto simp: publish_def Let_def reply_publish_def split: if_splits sum.splits)
  ultimately show ?thesis using True by auto
next
  case False
  then have "s' = s" using assms by (auto simp: publish_def split: exec.splits)
  then show ?thesis by simp
qed

section \<open>Everything that is sent is well typed\<close>

text \<open>The state of an agent that has only sent well typed outputs, and whose cards verify.\<close>

definition spoken :: "ext \<Rightarrow> AgentIdentity \<Rightarrow> ('w \<times> Output list) State \<Rightarrow> bool" where
  "spoken X i s \<longleftrightarrow> st_identity s = i \<and> (\<forall>k c. st_local_cards s k = Some c \<longrightarrow> capability_verify X c = Ok ()) \<and>
     (mesh_laws X \<longrightarrow> list_all (well_typed X i) (recorded s))"

lemma spoken_step: "spoken X i s \<Longrightarrow> speaks (no_response X) s s' \<Longrightarrow> spoken X i s'"
  by (auto simp: spoken_def speaks_def recorded_def adds_def no_response_def list_all_iff)

lemmas spoken_plain = spoken_step [OF _ plain_speaks]

lemma spoken_aside [simp]:
  "spoken X i (emit ev s) = spoken X i s" "spoken X i (upd_metrics f s) = spoken X i s"
  "spoken X i (reply_publish ch v s) = spoken X i s" "spoken X i (s\<lparr>st_known_peers := P\<rparr>) = spoken X i s"
  "spoken X i (s\<lparr>st_pending_publish_acks := acks\<rparr>) = spoken X i s"
  "spoken X i (s\<lparr>st_events := es\<rparr>) = spoken X i s" "spoken X i (s\<lparr>st_event_receiver_open := b\<rparr>) = spoken X i s"
  by (simp_all add: spoken_def recorded_def effect_defs)

lemma serve_spoken:
  "spoken X i s \<Longrightarrow> spoken X i (s\<lparr>st_swarm := card_send_response (tap N) (st_swarm s) ch
     (case st_local_cards s cap of Some c \<Rightarrow> Found c | None \<Rightarrow> NotFound)\<rparr>)"
  by (auto simp: spoken_def recorded_def split: option.splits)

lemma publish_spoken: "spoken X i s \<Longrightarrow> spoken X i (snd (publish X (tap N) c reply s))"
  using publish_records [of X N c reply s, OF surjective_pairing]
  by (auto simp: spoken_def recorded_def adds_def plain_def no_response_def list_all_iff split: if_splits)

lemma provider_spoken:
  "spoken X i s \<Longrightarrow> spoken X i (snd (handle_request_round1 X (tap N) peer m ch s))"
  "spoken X i s \<Longrightarrow> spoken X i (snd (handle_agree_round2 X (tap N) peer m ch s))"
  using request_records [of X N peer m ch s, OF surjective_pairing] agree_records [of X N peer m ch s, OF surjective_pairing]
    provider_frame(1) [of X "tap N" peer m ch s, OF surjective_pairing] provider_frame(2) [of X "tap N" peer m ch s, OF surjective_pairing]
  by (auto simp: spoken_def)

interpretation typed: turn_invariant X "tap N" "\<lambda>i. True" "spoken X i" for X N i
  by unfold_locales
    (auto simp: publish_spoken serve_spoken provider_spoken simp del: tap_sel
      intro: spoken_step [OF _ finish_lookup_speaks] spoken_step [OF _ handle_card_response_speaks]
        spoken_step [OF _ on_acl_response_speaks] spoken_plain [OF _ submit_intent_speaks [OF surjective_pairing]]
        spoken_plain [OF _ on_directory_hit_speaks [OF surjective_pairing]] spoken_plain [OF _ swarm_only_speaks(1)]
        spoken_plain [OF _ swarm_only_speaks(2)])

section \<open>Properties\<close>

text \<open>
  C6: everything a daemon sends is well typed. In a run of a booted daemon on any sequence of
  inputs, also one that ends in an error, every envelope it hands to the swarm names the
  daemon as its sender and verifies; requests are a REQUEST with an intent or an AGREE with
  an agreement on the same conversation, responses a PROPOSE with a proposal of the daemon or
  an INFORM with an Ok result of the same conversation; every DHT record is signed by the daemon
  and filed under the key of its own contents; every card it serves verifies. The recording of
  the outputs does not change the run.
\<close>

theorem sent_well_typed:
  assumes "mesh_laws X" "kited_start X N B cfg = Ok (h, s0)"
  shows "run X N is s0 = map_prod id untap (run X (tap N) is (tapped s0)) \<and>
    list_all (well_typed X (kh_identity h)) (outbox X N is s0)"
proof -
  have "spoken X (kh_identity h) (tapped s0)"
    using assms(2) by (elim kited_start_Ok) (simp add: spoken_def tapped_def with_world_def initial_state_def recorded_def)
  then have "spoken X (kh_identity h) (snd (run X (tap N) is (tapped s0)))"
    using typed.run [of X "kh_identity h" "tapped s0" "is" N] by (simp add: list_all_iff)
  then show ?thesis using run_tap assms(1) by (simp add: outbox_def spoken_def)
qed

end
