(* ===== verification/Kite_Order.thy ===== *)
theory Kite_Order
  imports Kite_Sent
begin

text \<open>
  The order of what a daemon sends: the ACL requests of a conversation are a REQUEST and then
  an AGREE to the same provider, each at most once, and results are only sent for proposals,
  one each.
\<close>

section \<open>Proposals and results\<close>

text \<open>The ACL requests of a conversation in a record, and the number of responses of a kind.\<close>

fun act :: "string \<Rightarrow> Output \<Rightarrow> (PeerId \<times> Performative) list" where
  "act conv (OAclRequest peer m j) = (if acl_conversation_id m = conv then [(peer, performative_of m)] else [])"
| "act conv out = []"

definition acts :: "string \<Rightarrow> Output list \<Rightarrow> (PeerId \<times> Performative) list" where
  "acts conv l = concat (map (act conv) l)"

fun is_response :: "Performative \<Rightarrow> string \<Rightarrow> Output \<Rightarrow> bool" where
  "is_response p conv (OAclResponse ch m) = (performative_of m = p \<and> acl_conversation_id m = conv)"
| "is_response p conv out = False"

definition responses :: "Performative \<Rightarrow> string \<Rightarrow> Output list \<Rightarrow> nat" where
  "responses p conv l = length (filter (is_response p conv) l)"

text \<open>Every INFORM has its own PROPOSE, with one to spare for an open proposal.\<close>

definition balanced :: "string \<Rightarrow> ('w \<times> Output list) State \<Rightarrow> bool" where
  "balanced conv s \<longleftrightarrow> responses Inform conv (recorded s) + (if st_providers s conv = None then 0 else 1)
     \<le> responses Propose conv (recorded s)"

lemma no_response_count: "list_all (no_response X i) l \<Longrightarrow> responses p conv l = 0"
  unfolding responses_def by (induction l) (auto simp: no_response_def elim: is_response.elims)

lemma responses_append [simp]: "responses p conv (k @ l) = responses p conv k + responses p conv l"
  by (simp add: responses_def)

lemma balanced_adds:
  assumes "balanced conv s" "adds (no_response X i) (st_swarm s) (st_swarm s')" "st_providers s' = st_providers s"
  shows "balanced conv s'"
  using assms by (auto simp: balanced_def recorded_def adds_def no_response_count)

lemma balanced_step: "balanced conv s \<Longrightarrow> speaks (no_response X) s s' \<Longrightarrow> balanced conv s'"
  by (auto simp: speaks_def intro: balanced_adds)

lemmas balanced_plain = balanced_step [OF _ plain_speaks]

lemma balanced_aside [simp]:
  "balanced conv (emit ev s) = balanced conv s" "balanced conv (upd_metrics f s) = balanced conv s"
  "balanced conv (reply_publish ch v s) = balanced conv s" "balanced conv (s\<lparr>st_known_peers := P\<rparr>) = balanced conv s"
  "balanced conv (s\<lparr>st_pending_publish_acks := acks\<rparr>) = balanced conv s"
  "balanced conv (s\<lparr>st_events := es\<rparr>) = balanced conv s" "balanced conv (s\<lparr>st_event_receiver_open := b\<rparr>) = balanced conv s"
  by (simp_all add: balanced_def recorded_def effect_defs)

lemma serve_balanced:
  "balanced conv s \<Longrightarrow> balanced conv (s\<lparr>st_swarm := card_send_response (tap N) (st_swarm s) ch resp\<rparr>)"
  by (simp add: balanced_def recorded_def responses_def)

lemma publish_balanced: "balanced conv s \<Longrightarrow> balanced conv (snd (publish X (tap N) c reply s))"
  using publish_records [of X N c reply s, OF surjective_pairing]
  by (blast intro: balanced_adds adds_plain)

lemma provider_balanced:
  "balanced conv s \<Longrightarrow> balanced conv (snd (handle_request_round1 X (tap N) peer m ch s))"
  "balanced conv s \<Longrightarrow> balanced conv (snd (handle_agree_round2 X (tap N) peer m ch s))"
proof -
  show "balanced conv (snd (handle_request_round1 X (tap N) peer m ch s))" if "balanced conv s"
    using request_records [of X N peer m ch s, OF surjective_pairing] that
    by (auto simp: balanced_def responses_def split: if_splits)
  show "balanced conv (snd (handle_agree_round2 X (tap N) peer m ch s))" if "balanced conv s"
    using agree_records [of X N peer m ch s, OF surjective_pairing] that
    by (auto simp: balanced_def responses_def split: if_splits)
qed

interpretation proposals: turn_invariant X "tap N" "\<lambda>i. True" "balanced conv" for X N conv
  by unfold_locales
    (auto simp: serve_balanced publish_balanced provider_balanced simp del: tap_sel
      intro: balanced_step [OF _ finish_lookup_speaks] balanced_step [OF _ handle_card_response_speaks]
        balanced_step [OF _ on_acl_response_speaks] balanced_plain [OF _ submit_intent_speaks [OF surjective_pairing]]
        balanced_plain [OF _ on_directory_hit_speaks [OF surjective_pairing]] balanced_plain [OF _ swarm_only_speaks(1)]
        balanced_plain [OF _ swarm_only_speaks(2)])

section \<open>The requests of a conversation\<close>

text \<open>The identifiers issued by a recorded swarm are those of the swarm.\<close>

definition tap_ledger :: "'w ledger \<Rightarrow> ('w \<times> Output list) ledger" where
  "tap_ledger L = \<lparr>lg_queries = (\<lambda>w. lg_queries L (fst w)), lg_cards = (\<lambda>w. lg_cards L (fst w)),
     lg_acls = (\<lambda>w. lg_acls L (fst w)), lg_uuids = (\<lambda>w. lg_uuids L (fst w))\<rparr>"

lemma tap_fresh:
  assumes "net_fresh N L"
  shows "net_fresh (tap N) (tap_ledger L)"
proof -
  have g: "grows (tap_ledger L) w w' \<longleftrightarrow> grows L (fst w) (fst w')" for w w'
    by (simp add: grows_def tap_ledger_def)
  show ?thesis using net_freshD [OF assms] unfolding net_fresh_def g
    by (auto simp: quiet_def loud_def tap_ledger_def split: prod.splits)
qed

definition ordered :: "'w ledger \<Rightarrow> string \<Rightarrow> 'w State \<Rightarrow> (PeerId \<times> Performative) list \<Rightarrow> bool" where
  "ordered L conv s a \<longleftrightarrow> (\<exists>p. a \<in> {[], [(p, Request)], [(p, Request), (p, Agree)]}) \<and>
     (case st_requesters s conv of
        None \<Rightarrow> conv \<notin> lg_uuids L (st_swarm s) \<longrightarrow> a = []
      | Some req \<Rightarrow> if rs_request_sent req
          then \<exists>p. rs_provider_peer req = Some p \<and> a \<in> {[(p, Request)], [(p, Request), (p, Agree)]} \<and>
            (conv \<in> ran (st_pending_acl_round1 s) \<longrightarrow> a = [(p, Request)])
          else a = [])"

abbreviation orderly :: "('w \<times> Output list) ledger \<Rightarrow> string \<Rightarrow> ('w \<times> Output list) State \<Rightarrow> bool" where
  "orderly L conv s \<equiv> ordered L conv s (acts conv (recorded s))"

text \<open>A handler that adds no ACL request and keeps or closes the conversations.\<close>

definition keeps :: "('w \<times> Output list) ledger \<Rightarrow> ('w \<times> Output list) State \<Rightarrow> ('w \<times> Output list) State \<Rightarrow> bool" where
  "keeps L s s' \<longleftrightarrow> grows L (st_swarm s) (st_swarm s') \<and>
     ran (st_pending_acl_round1 s') \<subseteq> ran (st_pending_acl_round1 s) \<and>
     (\<forall>c. acts c (recorded s') = acts c (recorded s)) \<and>
     (\<forall>c req'. st_requesters s' c = Some req' \<longrightarrow> (\<exists>req. st_requesters s c = Some req \<and>
        rs_request_sent req' = rs_request_sent req \<and> rs_provider_peer req' = rs_provider_peer req))"

lemma keeps_trans: "keeps L a b \<Longrightarrow> keeps L b c \<Longrightarrow> keeps L a c"
  unfolding keeps_def by (metis grows_trans subset_trans)

lemma keeps_ordered:
  assumes "loop_inv X L s" "keeps L s s'" "orderly L conv s"
  shows "orderly L conv s'"
proof (cases "st_requesters s' conv")
  case None
  have "conv \<notin> lg_uuids L (st_swarm s') \<Longrightarrow> st_requesters s conv = None \<and> conv \<notin> lg_uuids L (st_swarm s)"
    using assms(2) inv_uuid [OF assms(1), of conv] by (cases "st_requesters s conv") (auto simp: keeps_def grows_def)
  then show ?thesis using None assms(2,3) by (auto simp: ordered_def keeps_def)
next
  case (Some req')
  then obtain req where "st_requesters s conv = Some req" "rs_request_sent req' = rs_request_sent req"
    "rs_provider_peer req' = rs_provider_peer req" using assms(2) unfolding keeps_def by blast
  then show ?thesis using Some assms(2,3) by (auto simp: ordered_def keeps_def split: if_splits)
qed

lemma plain_act: "plain X i out \<Longrightarrow> act c out = []"
  by (cases out) (simp_all add: plain_def)

lemma plain_acts: "list_all (plain X i) l \<Longrightarrow> acts c l = []"
  by (auto simp: acts_def list_all_iff plain_act)

lemma acts_append [simp]: "acts c (k @ l) = acts c k @ acts c l"
  by (simp add: acts_def)

lemma acts_one [simp]: "acts c [out] = act c out"
  by (simp add: acts_def)

lemma adds_plain_acts: "adds (plain X i) w w' \<Longrightarrow> acts c (snd w') = acts c (snd w)"
  by (auto simp: adds_def plain_acts)

lemma keeps_same:
  assumes "grows L (st_swarm s) (st_swarm s')" "st_requesters s' = st_requesters s"
    "st_pending_acl_round1 s' = st_pending_acl_round1 s" "\<And>c. acts c (recorded s') = acts c (recorded s)"
  shows "keeps L s s'"
  using assms by (simp add: keeps_def)

section \<open>One lemma per handler\<close>

lemma publish_keeps:
  assumes "net_fresh (tap N) L" "publish X (tap N) c reply s = (r, s')"
  shows "keeps L s s'"
proof (rule keeps_same)
  show "st_requesters s' = st_requesters s" using publish_requesters [of X "tap N" c reply s] assms(2) by simp
  show "acts c' (recorded s') = acts c' (recorded s)" for c'
    using publish_records [OF assms(2)] adds_plain_acts unfolding recorded_def by blast
  have "st_pending_acl_round1 s' = st_pending_acl_round1 s \<and>
      (st_swarm s' = st_swarm s \<or> (\<exists>ps r. put_all (tap N) ps (st_swarm s) = (r, st_swarm s')))"
    using assms(2) by (auto simp: publish_def Let_def reply_publish_def split: exec.splits prod.splits sum.splits if_splits)
  then show "st_pending_acl_round1 s' = st_pending_acl_round1 s" "grows L (st_swarm s) (st_swarm s')"
    using put_all_grows [OF assms(1)] by (blast, metis grows_refl)
qed

lemma swarm_only_keeps:
  assumes "net_fresh (tap N) L"
  shows "keeps L s (handle_identify (tap N) iev s)" "keeps L s (handle_mdns (tap N) mev s)"
proof -
  have "acts c (recorded (handle_identify (tap N) iev s)) = acts c (recorded s)"
    "acts c (recorded (handle_mdns (tap N) mev s)) = acts c (recorded s)" for c
    using swarm_only_speaks [of "plain undefined"] adds_plain_acts unfolding speaks_def recorded_def by blast+
  moreover have "grows L (st_swarm s) (st_swarm (handle_identify (tap N) iev s))"
    using net_freshD(10) [OF assms] by (cases iev) (auto simp del: tap_sel intro!: grows_foldl)
  moreover have "grows L (st_swarm s) (st_swarm (handle_mdns (tap N) mev s))"
    using net_freshD(11) [OF assms] by (cases mev) (auto simp del: tap_sel intro!: grows_foldl)
  ultimately show "keeps L s (handle_identify (tap N) iev s)" "keeps L s (handle_mdns (tap N) mev s)"
    by (intro keeps_same; (cases iev; cases mev; simp)?; blast?)+
qed

lemma on_directory_hit_keeps:
  assumes "net_fresh (tap N) L" "on_directory_hit X (tap N) rec conv s = (r, s')"
  shows "keeps L s s'"
  using assms(2)
proof (cases rule: on_directory_hit_cases)
  case (fetch req dir peer i w)
  have "acts c (recorded s') = acts c (recorded s)" for c
    using on_directory_hit_speaks [OF assms(2)] adds_plain_acts unfolding speaks_def recorded_def by blast
  moreover have "grows L (st_swarm s) (st_swarm s')" using net_freshD(4) [OF assms(1) fetch(8)] fetch(9) by simp
  ultimately show ?thesis using fetch(2,9) by (auto simp: keeps_def)
qed (simp add: keeps_same)

lemma serve_keeps:
  assumes "net_fresh (tap N) L"
  shows "keeps L s (s\<lparr>st_swarm := card_send_response (tap N) (st_swarm s) ch resp\<rparr>)"
  using net_freshD(12) [OF assms, of "st_swarm s" ch resp] by (intro keeps_same) (simp_all add: recorded_def)

lemma provider_keeps:
  assumes "net_fresh (tap N) L"
  shows "handle_request_round1 X (tap N) peer msg ch s = (r, s') \<Longrightarrow> keeps L s s'"
    and "handle_agree_round2 X (tap N) peer msg ch s = (r, s') \<Longrightarrow> keeps L s s'"
proof -
  assume a: "handle_request_round1 X (tap N) peer msg ch s = (r, s')"
  have "grows L (st_swarm s) (st_swarm s') \<and> st_requesters s' = st_requesters s \<and> st_pending_acl_round1 s' = st_pending_acl_round1 s"
    using a
  proof (cases rule: handle_request_round1_cases)
    case (proposed intent cap t w1 u w2 m)
    show ?thesis using grows_trans [OF grows_clock_uuid [OF assms proposed(4,5)] net_freshD(13) [OF assms]] proposed(7)
      by (simp del: tap_sel)
  qed (use grows_clock_uuid [OF assms] in simp_all)
  then show "keeps L s s'" using request_records [OF a] by (intro keeps_same) auto
next
  assume a: "handle_agree_round2 X (tap N) peer msg ch s = (r, s')"
  have "grows L (st_swarm s) (st_swarm s') \<and> st_requesters s' = st_requesters s \<and> st_pending_acl_round1 s' = st_pending_acl_round1 s"
    using a by (cases rule: handle_agree_round2_cases) (use assms in \<open>simp_all add: upd_metrics_def\<close>)
  then show "keeps L s s'" using agree_records [OF a] by (intro keeps_same) auto
qed

lemma complete_intent_keeps:
  assumes "net_fresh (tap N) L" "complete_intent X (tap N) peer conv inform s = (r, s')"
  shows "keeps L s s'"
proof -
  have acts: "acts c (recorded s') = acts c (recorded s)" for c
    using complete_intent_speaks [OF assms(2)] adds_plain_acts unfolding speaks_def recorded_def by blast
  have two: "grows L w w2" if "sys_clock (tap N) w = (t, w1)" "sql_outcome (tap N) w1 = (x, w2)" for w t w1 x w2
    using grows_trans [OF net_freshD(7) [OF assms(1) that(1)] net_freshD(9) [OF assms(1) that(2)]] .
  show ?thesis using assms(2)
    by (cases rule: complete_intent_cases)
      (use acts two net_freshD(7) [OF assms(1)] in \<open>auto simp: keeps_def effect_defs simp del: tap_sel split: if_splits\<close>)
qed

text \<open>The end of a search sends the REQUEST, once.\<close>

lemma maybe_send_request_ordered:
  assumes "net_fresh (tap N) L" "loop_inv X L s" "orderly L c s" "maybe_send_request X (tap N) conv s = (r, s')"
  shows "orderly L c s'"
  using assms(4)
proof (cases rule: maybe_send_request_cases)
  case (nomatch req scored)
  then have "keeps L s s'" by (auto simp: keeps_def reply_intent_def recorded_def)
  then show ?thesis using keeps_ordered assms(2,3) by blast
next
  case (badpeer req scored best)
  then have "keeps L s s'" by (auto simp: keeps_def recorded_def)
  then show ?thesis using keeps_ordered assms(2,3) by blast
next
  case (failed req t w1 u w2 e)
  then have "keeps L s s'" using grows_clock_uuid [OF assms(1) failed(2,3)]
    by (auto simp: keeps_def recorded_def dest!: tap_snd)
  then show ?thesis using keeps_ordered assms(2,3) by blast
next
  case (sent req scored best provider t w1 u w2 now w3 msg rid w4)
  have rec: "recorded s' = recorded s @ [OAclRequest provider msg rid]"
    using sent(9,10,12,13,14) by (auto simp: recorded_def upd_metrics_def dest!: tap_snd)
  note m = built_fields [OF sent(11) [unfolded acl_request_def]]
  show ?thesis
  proof (cases "c = conv")
    case True
    then show ?thesis using assms(3) sent(1,3,14) rec m by (auto simp: ordered_def upd_metrics_def)
  next
    case False
    have g: "grows L (st_swarm s) w4"
      using grows_trans [OF grows_clock_uuid [OF assms(1) sent(9,10)] grows_trans [OF net_freshD(8) [OF assms(1) sent(12)]]]
        net_freshD(5) [OF assms(1) sent(13)] by blast
    have "c \<in> ran ((st_pending_acl_round1 s)(rid \<mapsto> conv)) \<Longrightarrow> c \<in> ran (st_pending_acl_round1 s)"
      using False by (auto simp: ran_def split: if_splits)
    then show ?thesis using False assms(3) sent(14) rec m g
      by (auto simp: ordered_def upd_metrics_def grows_def split: option.splits if_splits)
  qed
qed (use assms(3) in simp_all)

lemma finish_lookup_ordered:
  assumes "net_fresh (tap N) L" "loop_inv X L s" "orderly L c s"
  shows "orderly L c (snd (finish_lookup X (tap N) q s))"
proof (cases "st_pending_lookups s q")
  case (Some conv)
  have "keeps L s (lookup_done q conv s)" by (auto simp: keeps_def lookup_done_def recorded_def split: option.splits)
  then have "orderly L c (lookup_done q conv s)" using keeps_ordered assms(2,3) by blast
  then show ?thesis using maybe_send_request_ordered [OF assms(1) lookup_done_inv [OF assms(2) Some] _ surjective_pairing] Some
    by (simp add: finish_lookup_eq)
qed (use assms(3) in \<open>simp add: finish_lookup_eq\<close>)

lemma handle_card_response_ordered:
  assumes "net_fresh (tap N) L" "loop_inv X L s" "orderly L c s"
    and "input_ok (InSwarm (BehaviourCard (CardResponseMessage i response)))"
  shows "orderly L c (snd (handle_card_response X (tap N) i response s))"
proof (cases "\<exists>conv req. st_pending_card_fetches s i = Some conv \<and> st_requesters s conv = Some req")
  case False
  then have "keeps L s (snd (handle_card_response X (tap N) i response s))"
    by (auto simp: handle_card_response_def Let_def recorded_def intro!: keeps_same split: option.splits)
  then show ?thesis using keeps_ordered assms(2,3) by blast
next
  case True
  then obtain conv req where pc: "st_pending_card_fetches s i = Some conv" and req: "st_requesters s conv = Some req" by blast
  have "keeps L s (card_done X i conv req response s)" using req by (auto simp: keeps_def card_done_def recorded_def)
  then have "orderly L c (card_done X i conv req response s)" using keeps_ordered assms(2,3) by blast
  then show ?thesis
    using maybe_send_request_ordered [OF assms(1) card_done_inv [OF assms(2) pc req assms(4)] _ surjective_pairing]
    by (simp add: handle_card_response_eq [OF pc req])
qed

text \<open>An awaited PROPOSE has the AGREE sent after the REQUEST, to the same peer.\<close>

lemma send_agree_ordered:
  assumes "net_fresh (tap N) L" "loop_inv X L s" "orderly L c s" "st_pending_acl_round1 s i = Some conv"
    and "send_agree X (tap N) conv msg (s\<lparr>st_pending_acl_round1 := (st_pending_acl_round1 s)(i := None)\<rparr>) = (r, s')"
  shows "orderly L c s'"
proof -
  let ?s1 = "s\<lparr>st_pending_acl_round1 := (st_pending_acl_round1 s)(i := None)\<rparr>"
  have k: "keeps L s ?s1" by (auto simp: keeps_def recorded_def dest: ran_upd_None_subsetD)
  show ?thesis using assms(5)
  proof (cases rule: send_agree_cases)
    case ignored
    then show ?thesis using keeps_ordered [OF assms(2) k assms(3)] by simp
  next
    case (failed t w1 u w2 e)
    then have "keeps L s s'" using k grows_clock_uuid [OF assms(1) failed(1,2)]
      by (auto simp: keeps_def recorded_def dest!: tap_snd)
    then show ?thesis using keeps_ordered assms(2,3) by blast
  next
    case (sent req provider t w1 u w2 m j w3)
    have rec: "recorded s' = recorded s @ [OAclRequest provider m j]"
      using sent(4,5,7,8) by (auto simp: recorded_def dest!: tap_snd)
    note m = built_fields [OF sent(6) [unfolded acl_agree_def]]
    have r: "st_requesters s conv = Some req" "rs_request_sent req" "conv \<in> ran (st_pending_acl_round1 s)"
      using sent(2,3) loop_invD(1) [OF assms(2), of conv req] assms(4) by (auto simp: req_ok_def ran_def split: if_splits)
    have g: "grows L (st_swarm s) w3"
      using grows_trans [OF grows_clock_uuid [OF assms(1) sent(4,5)]] net_freshD(5) [OF assms(1) sent(7)] by simp
    have no: "conv \<notin> ran ((st_pending_acl_round1 s)(i := None))"
      using one_acl_remove(3) [OF loop_invD(3) [OF assms(2)] assms(4)] by blast
    show ?thesis
    proof (cases "c = conv")
      case True
      then have "acts c (recorded s) = [(provider, Request)]" using assms(3) r sent(3) by (auto simp: ordered_def)
      then show ?thesis using True rec m r no sent(3,8) by (auto simp: ordered_def)
    next
      case False
      then show ?thesis using keeps_ordered [OF assms(2) k assms(3)] rec m g sent(8)
        by (auto simp: ordered_def grows_def recorded_def split: option.splits if_splits)
    qed
  qed
qed

lemma on_acl_response_ordered:
  assumes "net_fresh (tap N) L" "loop_inv X L s" "orderly L c s"
  shows "orderly L c (snd (on_acl_response X (tap N) peer i msg s))"
proof -
  let ?s1 = "s\<lparr>st_pending_acl_round1 := (st_pending_acl_round1 s)(i := None)\<rparr>"
  let ?s2 = "s\<lparr>st_pending_acl_round2 := (st_pending_acl_round2 s)(i := None)\<rparr>"
  have "keeps L s ?s1" "keeps L s ?s2" by (auto simp: keeps_def recorded_def dest: ran_upd_None_subsetD)
  then have k: "orderly L c ?s1" "orderly L c ?s2" using keeps_ordered assms(2,3) by blast+
  have "orderly L c (snd (complete_intent X (tap N) peer conv msg ?s2))" for conv
    by (rule keeps_ordered [OF loop_inv_take(2) [OF assms(2)] complete_intent_keeps [OF assms(1) surjective_pairing] k(2)])
  then show ?thesis using k assms(3) send_agree_ordered [OF assms _ surjective_pairing]
    by (simp add: on_acl_response_def Let_def split: option.splits)
qed

lemma get_all_grows: "net_fresh N L \<Longrightarrow> get_all N conv ks w out pl = (out', pl', w') \<Longrightarrow> grows L w w'"
proof (induction ks arbitrary: w out pl)
  case (Cons k ks)
  obtain q w1 where q: "kad_get_record N w (snd k) = (q, w1)" by force
  then have "get_all N conv ks w1 (insert q out) (pl(q \<mapsto> conv)) = (out', pl', w')" using Cons.prems(2) by (cases k) simp
  then have "grows L w1 w'" using Cons.IH Cons.prems(1) by blast
  moreover have "grows L w w1" using net_freshD(1) [OF Cons.prems(1) q] by simp
  ultimately show ?case by (rule grows_trans [rotated])
qed simp

lemma submit_intent_ordered:
  assumes "net_fresh (tap N) L" "loop_inv X L s" "orderly L c s"
    and "submit_intent X (tap N) required query intent reply s = (r, s')"
  shows "orderly L c s'"
  using assms(4)
proof (cases rule: submit_intent_cases)
  case (opened keys conv w1 out pl w2 t w3 req)
  have acts: "acts c (recorded s') = acts c (recorded s)"
    using submit_intent_speaks [OF assms(4)] adds_plain_acts unfolding speaks_def recorded_def by blast
  have conv: "conv \<notin> lg_uuids L (st_swarm s)" "grows L (st_swarm s) w1"
    using net_freshD(6) [OF assms(1) opened(3)] by auto
  have g: "grows L (st_swarm s) w3"
    by (rule grows_trans [OF grows_trans [OF conv(2) get_all_grows [OF assms(1) opened(4)]] net_freshD(8) [OF assms(1) opened(5)]])
  have none: "st_requesters s conv = None" using loop_invD(2) [OF assms(2)] conv(1) by (auto simp: ids_ok_def)
  show ?thesis
    using assms(3) acts none conv(1) g opened(6,7)
    by (cases "c = conv") (auto simp: ordered_def grows_def split: option.splits if_splits)
qed (use assms(3) in simp)

lemma ordered_aside [simp]:
  "ordered L conv (emit ev s) a = ordered L conv s a" "ordered L conv (upd_metrics f s) a = ordered L conv s a"
  "ordered L conv (reply_publish ch v s) a = ordered L conv s a"
  "ordered L conv (s\<lparr>st_known_peers := P\<rparr>) a = ordered L conv s a"
  "ordered L conv (s\<lparr>st_pending_publish_acks := acks\<rparr>) a = ordered L conv s a"
  "ordered L conv (s\<lparr>st_events := es\<rparr>) a = ordered L conv s a"
  "ordered L conv (s\<lparr>st_event_receiver_open := b\<rparr>) a = ordered L conv s a"
  by (simp_all add: ordered_def effect_defs cong: option.case_cong)

lemma recorded_aside [simp]:
  "recorded (emit ev s) = recorded s" "recorded (upd_metrics f s) = recorded s" "recorded (reply_publish ch v s) = recorded s"
  "recorded (s\<lparr>st_known_peers := P\<rparr>) = recorded s" "recorded (s\<lparr>st_pending_publish_acks := acks\<rparr>) = recorded s"
  "recorded (s\<lparr>st_events := es\<rparr>) = recorded s" "recorded (s\<lparr>st_event_receiver_open := b\<rparr>) = recorded s"
  by (simp_all add: recorded_def effect_defs)

lemmas keeps_handlers = publish_keeps [OF _ surjective_pairing] swarm_only_keeps serve_keeps
  on_directory_hit_keeps [OF _ surjective_pairing] provider_keeps [OF _ surjective_pairing]

interpretation conversations: turn_invariant X "tap N" input_ok
  "\<lambda>s. net_fresh (tap N) L \<longrightarrow> loop_inv X L s \<and> orderly L conv s" for X N L conv
  by (unfold_locales; intro impI conjI)
    (simp_all add: loop_inv_handlers loop_inv_swarm net_freshD(12) submit_intent_ordered [OF _ _ _ surjective_pairing]
      finish_lookup_ordered handle_card_response_ordered on_acl_response_ordered del: tap_sel,
      (blast intro: keeps_ordered keeps_handlers)+)

section \<open>Properties\<close>

lemma booted_tapped:
  assumes "kited_start X N B cfg = Ok (h, s0)"
  shows "loop_inv X L (tapped s0)" "recorded (tapped s0) = []" "st_requesters (tapped s0) = Map.empty" "st_providers (tapped s0) = Map.empty"
proof -
  obtain w where s0: "tapped s0 = initial_state (w, []) (kh_identity h) (lsh_new X default_for_skeleton (default_seed X)) (kh_receipts h)"
    using assms by (elim kited_start_Ok) (simp add: initial_state_def tapped_def with_world_def)
  show "loop_inv X L (tapped s0)" unfolding s0
    by (rule initial_state_inv, rule default_lsh_wf) (simp_all add: lsh_new_def default_for_skeleton_def DEFAULT_L_def)
  show "recorded (tapped s0) = []" "st_requesters (tapped s0) = Map.empty" "st_providers (tapped s0) = Map.empty"
    by (simp_all add: s0 recorded_def initial_state_def)
qed

text \<open>
  C5: a daemon speaks in order. In a run of a booted daemon the ACL requests it sends in a
  conversation are none, a REQUEST, or a REQUEST followed by an AGREE to the same peer, whatever
  is received, lost, repeated or forged in between; and it has sent at most as many INFORMs for a
  conversation as PROPOSEs.
\<close>

theorem sent_in_order:
  assumes "net_fresh N L" "kited_start X N B cfg = Ok (h, s0)" "list_all input_ok is"
  shows "(\<exists>peer. acts conv (outbox X N is s0) \<in> {[], [(peer, Request)], [(peer, Request), (peer, Agree)]}) \<and>
    responses Inform conv (outbox X N is s0) \<le> responses Propose conv (outbox X N is s0)"
proof
  let ?s = "snd (run X (tap N) is (tapped s0))"
  note b = booted_tapped [OF assms(2)]
  have "orderly (tap_ledger L) conv (tapped s0)" using b(2,3) by (simp add: ordered_def acts_def)
  then have "orderly (tap_ledger L) conv ?s"
    using conversations.run [of N "tap_ledger L" X "tapped s0" conv "is"] tap_fresh [OF assms(1)] b(1) assms(3) by blast
  then show "\<exists>peer. acts conv (outbox X N is s0) \<in> {[], [(peer, Request)], [(peer, Request), (peer, Agree)]}"
    by (simp add: outbox_def ordered_def)
  have "balanced conv (tapped s0)" using b(2,4) by (simp add: balanced_def responses_def)
  then have "balanced conv ?s" using proposals.run [of conv "tapped s0" "is" X N] by (simp add: list_all_iff)
  then show "responses Inform conv (outbox X N is s0) \<le> responses Propose conv (outbox X N is s0)"
    by (simp add: outbox_def balanced_def)
qed

end
