(* ===== verification/Kite_Links.thy ===== *)
theory Kite_Links
  imports Kite_Order
begin

text \<open>
  A daemon as a node of a network: which ACL requests and responses its record holds, that
  every awaited answer belongs to one recorded request of a conversation the daemon opened, and
  what a delivered request or response changes.
\<close>

section \<open>Requests and responses in the record\<close>

definition asked :: "('w \<times> Output list) State \<Rightarrow> (PeerId \<times> AclMessage \<times> OutboundRequestId) set" where
  "asked s = {(p, m, i). OAclRequest p m i \<in> set (recorded s)}"

definition answered :: "('w \<times> Output list) State \<Rightarrow> (ResponseChannel \<times> AclMessage) set" where
  "answered s = {(ch, m). OAclResponse ch m \<in> set (recorded s)}"

lemma asked_step:
  "recorded s' = recorded s \<Longrightarrow> asked s' = asked s"
  "recorded s' = recorded s @ [OAclRequest p m i] \<Longrightarrow> asked s' = insert (p, m, i) (asked s)"
  "recorded s' = recorded s @ [OAclResponse ch n] \<Longrightarrow> asked s' = asked s"
  by (auto simp: asked_def)

lemma answered_step:
  "recorded s' = recorded s \<Longrightarrow> answered s' = answered s"
  "recorded s' = recorded s @ [OAclResponse ch n] \<Longrightarrow> answered s' = insert (ch, n) (answered s)"
  by (auto simp: answered_def)

lemma speaks_plain_asked: "adds (plain X i) (st_swarm s) (st_swarm s') \<Longrightarrow> asked s' = asked s"
  by (fastforce simp: asked_def recorded_def adds_def plain_def list_all_iff)

lemma speaks_answered: "adds (no_response X i) (st_swarm s) (st_swarm s') \<Longrightarrow> answered s' = answered s"
  by (fastforce simp: answered_def recorded_def adds_def no_response_def list_all_iff)

section \<open>Awaited answers belong to recorded requests\<close>

text \<open>
  \<open>U\<close> are the identifiers that the daemon's generator issues. Every open conversation and every
  request sent has one of these, requests have distinct identifiers, and the second round awaits
  only answers to recorded requests of the same conversation.
\<close>

definition linked :: "('w \<times> Output list) ledger \<Rightarrow> string set \<Rightarrow> ('w \<times> Output list) State \<Rightarrow> bool" where
  "linked L U s \<longleftrightarrow> dom (st_requesters s) \<subseteq> U \<and>
     (\<forall>(p, m, i)\<in>asked s. acl_conversation_id m \<in> U \<and> i \<in> lg_acls L (st_swarm s)) \<and>
     (\<forall>p m q n i. (p, m, i) \<in> asked s \<longrightarrow> (q, n, i) \<in> asked s \<longrightarrow> p = q \<and> m = n) \<and>
     (\<forall>i c. st_pending_acl_round2 s i = Some c \<longrightarrow> (\<exists>p m. (p, m, i) \<in> asked s \<and> acl_conversation_id m = c))"

lemma linkedD:
  assumes "linked L U s"
  shows "dom (st_requesters s) \<subseteq> U"
    and "(p, m, i) \<in> asked s \<Longrightarrow> acl_conversation_id m \<in> U \<and> i \<in> lg_acls L (st_swarm s)"
    and "(p, m, i) \<in> asked s \<Longrightarrow> (q, n, i) \<in> asked s \<Longrightarrow> p = q \<and> m = n"
    and "st_pending_acl_round2 s i = Some c \<Longrightarrow> \<exists>p m. (p, m, i) \<in> asked s \<and> acl_conversation_id m = c"
  using assms unfolding linked_def by (fastforce, fastforce, metis, metis)

text \<open>A handler that sends no ACL request, opens no conversation and awaits no new INFORM.\<close>

definition calm :: "('w \<times> Output list) ledger \<Rightarrow> ('w \<times> Output list) State \<Rightarrow> ('w \<times> Output list) State \<Rightarrow> bool" where
  "calm L s s' \<longleftrightarrow> grows L (st_swarm s) (st_swarm s') \<and> asked s' = asked s \<and>
     dom (st_requesters s') \<subseteq> dom (st_requesters s) \<and> st_pending_acl_round2 s' \<subseteq>\<^sub>m st_pending_acl_round2 s"

lemma calm_linked: "linked L U s \<Longrightarrow> calm L s s' \<Longrightarrow> linked L U s'"
  unfolding linked_def calm_def map_le_def grows_def by (auto 4 3 simp: dom_def)

lemma keeps_calm: "keeps L s s' \<Longrightarrow> asked s' = asked s \<Longrightarrow> st_pending_acl_round2 s' = st_pending_acl_round2 s \<Longrightarrow> calm L s s'"
  unfolding calm_def keeps_def by (metis domD domI map_le_refl subsetI)

text \<open>Where the identifiers of a generator come from.\<close>

definition issues :: "'w net \<Rightarrow> string set \<Rightarrow> bool" where
  "issues N U \<longleftrightarrow> (\<forall>w u w'. sys_uuid N w = (u, w') \<longrightarrow> u \<in> U)"

lemma issues_tap: "issues N U \<Longrightarrow> issues (tap N) U"
  by (auto simp: issues_def quiet_def split: prod.splits)

subsection \<open>One lemma per handler\<close>

lemma publish_calm: "net_fresh (tap N) L \<Longrightarrow> calm L s (snd (publish X (tap N) c reply s))"
proof (rule keeps_calm)
  show "st_pending_acl_round2 (snd (publish X (tap N) c reply s)) = st_pending_acl_round2 s"
    by (simp add: publish_def Let_def reply_publish_def split: exec.splits prod.splits sum.splits)
qed (use publish_keeps speaks_plain_asked publish_records in \<open>metis surjective_pairing\<close>)+

lemma swarm_only_calm:
  assumes "net_fresh (tap N) L"
  shows "calm L s (handle_identify (tap N) iev s)" "calm L s (handle_mdns (tap N) mev s)"
proof -
  have "asked (handle_identify (tap N) iev s) = asked s" "asked (handle_mdns (tap N) mev s) = asked s"
    using swarm_only_speaks [of "plain undefined"] speaks_plain_asked unfolding speaks_def by blast+
  moreover have "st_pending_acl_round2 (handle_identify (tap N) iev s) = st_pending_acl_round2 s"
    "st_pending_acl_round2 (handle_mdns (tap N) mev s) = st_pending_acl_round2 s" by (cases iev; simp) (cases mev; simp)
  ultimately show "calm L s (handle_identify (tap N) iev s)" "calm L s (handle_mdns (tap N) mev s)"
    using keeps_calm swarm_only_keeps [OF assms] by blast+
qed

lemma on_directory_hit_calm:
  assumes "net_fresh (tap N) L" "on_directory_hit X (tap N) rec conv s = (r, s')"
  shows "calm L s s'"
proof (rule keeps_calm [OF on_directory_hit_keeps [OF assms]])
  show "asked s' = asked s" using on_directory_hit_speaks [OF assms(2)] speaks_plain_asked unfolding speaks_def by blast
  show "st_pending_acl_round2 s' = st_pending_acl_round2 s" using assms(2) by (cases rule: on_directory_hit_cases) simp_all
qed

lemma serve_calm: "net_fresh (tap N) L \<Longrightarrow> calm L s (s\<lparr>st_swarm := card_send_response (tap N) (st_swarm s) ch resp\<rparr>)"
  by (rule keeps_calm [OF serve_keeps]) (auto simp: asked_def recorded_def)

lemma provider_calm:
  assumes "net_fresh (tap N) L"
  shows "handle_request_round1 X (tap N) peer msg ch s = (r, s') \<Longrightarrow> calm L s s'"
    and "handle_agree_round2 X (tap N) peer msg ch s = (r, s') \<Longrightarrow> calm L s s'"
proof -
  assume a: "handle_request_round1 X (tap N) peer msg ch s = (r, s')"
  have "st_pending_acl_round2 s' = st_pending_acl_round2 s" using a by (cases rule: handle_request_round1_cases) simp_all
  moreover have "asked s' = asked s" using request_records [OF a] asked_step(1,3) by blast
  ultimately show "calm L s s'" by (intro keeps_calm [OF provider_keeps(1) [OF assms a]])
next
  assume a: "handle_agree_round2 X (tap N) peer msg ch s = (r, s')"
  have "st_pending_acl_round2 s' = st_pending_acl_round2 s"
    using a by (cases rule: handle_agree_round2_cases) (simp_all add: upd_metrics_def)
  moreover have "asked s' = asked s" using agree_records [OF a] asked_step(1,3) by blast
  ultimately show "calm L s s'" by (intro keeps_calm [OF provider_keeps(2) [OF assms a]])
qed

lemma complete_intent_calm:
  assumes "net_fresh (tap N) L" "complete_intent X (tap N) peer conv inform s = (r, s')"
  shows "calm L s s'"
proof (rule keeps_calm [OF complete_intent_keeps [OF assms]])
  show "asked s' = asked s" using complete_intent_speaks [OF assms(2)] speaks_plain_asked unfolding speaks_def by blast
  show "st_pending_acl_round2 s' = st_pending_acl_round2 s"
    using assms(2) by (cases rule: complete_intent_cases) (simp_all add: effect_defs)
qed

lemma submit_intent_linked:
  assumes "net_fresh (tap N) L" "issues (tap N) U" "linked L U s"
    and "submit_intent X (tap N) required query intent reply s = (r, s')"
  shows "linked L U s'"
  using assms(4)
proof (cases rule: submit_intent_cases)
  case (opened keys conv w1 out pl w2 t w3 req)
  have "grows L (st_swarm s) w1" using net_freshD(6) [OF assms(1) opened(3)] by simp
  then have g: "grows L (st_swarm s) w3"
    by (rule grows_trans [OF grows_trans [OF _ get_all_grows [OF assms(1) opened(4)]] net_freshD(8) [OF assms(1) opened(5)]])
  have "asked s' = asked s" using submit_intent_speaks [OF assms(4)] speaks_plain_asked unfolding speaks_def by blast
  moreover have "conv \<in> U" using assms(2) opened(3) unfolding issues_def by blast
  ultimately show ?thesis using assms(3) g opened(6) unfolding linked_def grows_def by auto
qed (use assms(3) in simp)

text \<open>A request that is sent has a fresh identifier.\<close>

lemma linked_request:
  assumes "linked L U s" "asked s' = insert (p, m, i) (asked s)" "acl_conversation_id m \<in> U"
    and "i \<notin> lg_acls L (st_swarm s)" "i \<in> lg_acls L (st_swarm s')" "grows L (st_swarm s) (st_swarm s')"
    and "dom (st_requesters s') \<subseteq> dom (st_requesters s)"
    and "st_pending_acl_round2 s' = st_pending_acl_round2 s \<or>
      st_pending_acl_round2 s' = (st_pending_acl_round2 s)(i \<mapsto> acl_conversation_id m)"
  shows "linked L U s'"
proof -
  have "(q, n, i) \<notin> asked s" for q n using assms(1,4) unfolding linked_def by fastforce
  then have "\<forall>q n q' n' j. (q, n, j) \<in> asked s' \<longrightarrow> (q', n', j) \<in> asked s' \<longrightarrow> q = q' \<and> n = n'"
    using assms(1,2) unfolding linked_def by auto
  moreover have "\<exists>q n. (q, n, j) \<in> asked s' \<and> acl_conversation_id n = c" if "st_pending_acl_round2 s' j = Some c" for j c
  proof -
    have "st_pending_acl_round2 s j = Some c \<or> j = i \<and> c = acl_conversation_id m"
      using assms(8) that by (auto split: if_splits)
    moreover have "\<exists>q n. (q, n, j) \<in> asked s \<and> acl_conversation_id n = c" if "st_pending_acl_round2 s j = Some c"
      by (rule linkedD(4) [OF assms(1) that])
    ultimately show ?thesis using assms(2) by blast
  qed
  moreover have "\<forall>(q, n, j)\<in>asked s'. acl_conversation_id n \<in> U \<and> j \<in> lg_acls L (st_swarm s')"
    using assms(1-3,5,6) unfolding linked_def grows_def by auto
  moreover have "dom (st_requesters s') \<subseteq> U" using linkedD(1) [OF assms(1)] assms(7) by blast
  ultimately show ?thesis unfolding linked_def by blast
qed

lemma maybe_send_request_linked:
  assumes "net_fresh (tap N) L" "linked L U s" "maybe_send_request X (tap N) conv s = (r, s')"
  shows "linked L U s'"
  using assms(3)
proof (cases rule: maybe_send_request_cases)
  case (nomatch req scored)
  then have "calm L s s'" by (auto simp: calm_def reply_intent_def asked_def recorded_def)
  then show ?thesis using calm_linked assms(2) by blast
next
  case (badpeer req scored best)
  then have "calm L s s'" by (auto simp: calm_def asked_def recorded_def)
  then show ?thesis using calm_linked assms(2) by blast
next
  case (failed req t w1 u w2 e)
  then have "calm L s s'" using grows_clock_uuid [OF assms(1) failed(2,3)]
    by (auto simp: calm_def asked_def recorded_def dest!: tap_snd)
  then show ?thesis using calm_linked assms(2) by blast
next
  case (sent req scored best provider t w1 u w2 now w3 msg rid w4)
  have "recorded s' = recorded s @ [OAclRequest provider msg rid]"
    using sent(9,10,12,13,14) by (auto simp: recorded_def upd_metrics_def dest!: tap_snd)
  note ask = asked_step(2) [OF this]
  have g: "grows L (st_swarm s) w3"
    by (rule grows_trans [OF grows_clock_uuid [OF assms(1) sent(9,10)] net_freshD(8) [OF assms(1) sent(12)]])
  have "acl_conversation_id msg \<in> U"
    using built_fields(3) [OF sent(11) [unfolded acl_request_def]] sent(1) assms(2) by (auto simp: linked_def)
  moreover have "rid \<notin> lg_acls L (st_swarm s)" "rid \<in> lg_acls L w4" "grows L (st_swarm s) w4"
    using net_freshD(5) [OF assms(1) sent(13)] g grows_trans [OF g, of w4] by (auto simp: grows_def)
  ultimately show ?thesis using sent(1,14) by (intro linked_request [OF assms(2) ask]) (auto simp: upd_metrics_def)
qed (use assms(2) in simp_all)

lemma finish_lookup_linked:
  assumes "net_fresh (tap N) L" "linked L U s"
  shows "linked L U (snd (finish_lookup X (tap N) q s))"
proof (cases "st_pending_lookups s q")
  case (Some conv)
  have "calm L s (lookup_done q conv s)" by (auto simp: calm_def lookup_done_def asked_def recorded_def split: option.splits)
  from maybe_send_request_linked [OF assms(1) calm_linked [OF assms(2) this] surjective_pairing]
  show ?thesis using Some by (simp add: finish_lookup_eq)
qed (use assms(2) in \<open>simp add: finish_lookup_eq\<close>)

lemma handle_card_response_linked:
  assumes "net_fresh (tap N) L" "linked L U s"
  shows "linked L U (snd (handle_card_response X (tap N) i response s))"
proof (cases "\<exists>conv req. st_pending_card_fetches s i = Some conv \<and> st_requesters s conv = Some req")
  case False
  then have "calm L s (snd (handle_card_response X (tap N) i response s))"
    by (auto simp: handle_card_response_def Let_def calm_def asked_def recorded_def split: option.splits)
  then show ?thesis using calm_linked assms(2) by blast
next
  case True
  then obtain conv req where pc: "st_pending_card_fetches s i = Some conv" "st_requesters s conv = Some req" by blast
  have "calm L s (card_done X i conv req response s)" using pc by (auto simp: calm_def card_done_def asked_def recorded_def)
  note l = calm_linked [OF assms(2) this]
  show ?thesis using l maybe_send_request_linked [OF assms(1) l surjective_pairing]
    by (simp add: handle_card_response_eq [OF pc])
qed

lemma send_agree_linked:
  assumes "net_fresh (tap N) L" "linked L U s" "send_agree X (tap N) conv msg s = (r, s')"
  shows "linked L U s'"
  using assms(3)
proof (cases rule: send_agree_cases)
  case (failed t w1 u w2 e)
  then have "calm L s s'" using grows_clock_uuid [OF assms(1) failed(1,2)]
    by (auto simp: calm_def asked_def recorded_def dest!: tap_snd)
  then show ?thesis using calm_linked assms(2) by blast
next
  case (sent req provider t w1 u w2 m i w3)
  have "recorded s' = recorded s @ [OAclRequest provider m i]"
    using sent(4,5,7,8) by (auto simp: recorded_def dest!: tap_snd)
  note ask = asked_step(2) [OF this]
  note c = built_fields(3) [OF sent(6) [unfolded acl_agree_def]]
  have g: "grows L (st_swarm s) w2" by (rule grows_clock_uuid [OF assms(1) sent(4,5)])
  have "i \<notin> lg_acls L (st_swarm s)" "i \<in> lg_acls L w3" "grows L (st_swarm s) w3"
    using net_freshD(5) [OF assms(1) sent(7)] g grows_trans [OF g, of w3] by (auto simp: grows_def)
  moreover have "acl_conversation_id m \<in> U" using c sent(2) assms(2) by (auto simp: linked_def)
  ultimately show ?thesis using sent(8) c by (intro linked_request [OF assms(2) ask]) simp_all
qed (use assms(2) in simp)

lemma on_acl_response_linked:
  assumes "net_fresh (tap N) L" "linked L U s"
  shows "linked L U (snd (on_acl_response X (tap N) peer i msg s))"
proof -
  let ?s1 = "s\<lparr>st_pending_acl_round1 := (st_pending_acl_round1 s)(i := None)\<rparr>"
  let ?s2 = "s\<lparr>st_pending_acl_round2 := (st_pending_acl_round2 s)(i := None)\<rparr>"
  have "calm L s ?s1" "calm L s ?s2" by (auto simp: calm_def asked_def recorded_def map_le_def)
  then have l: "linked L U ?s1" "linked L U ?s2" using calm_linked assms(2) by blast+
  show ?thesis
    using l assms(2) send_agree_linked [OF assms(1) l(1) surjective_pairing]
      calm_linked [OF l(2) complete_intent_calm [OF assms(1) surjective_pairing]]
    by (simp add: on_acl_response_def Let_def split: option.splits)
qed

lemma linked_aside [simp]:
  "linked L U (emit ev s) = linked L U s" "linked L U (upd_metrics f s) = linked L U s"
  "linked L U (reply_publish ch v s) = linked L U s" "linked L U (s\<lparr>st_known_peers := P\<rparr>) = linked L U s"
  "linked L U (s\<lparr>st_pending_publish_acks := acks\<rparr>) = linked L U s"
  "linked L U (s\<lparr>st_events := es\<rparr>) = linked L U s" "linked L U (s\<lparr>st_event_receiver_open := b\<rparr>) = linked L U s"
  by (simp_all add: linked_def asked_def effect_defs recorded_def)

interpretation links: turn_invariant X "tap N" "\<lambda>i. True"
  "\<lambda>s. net_fresh (tap N) L \<and> issues (tap N) U \<longrightarrow> linked L U s" for X N L U
  by (unfold_locales; intro impI)
    (simp_all add: finish_lookup_linked handle_card_response_linked on_acl_response_linked del: tap_sel,
      (blast intro: calm_linked publish_calm swarm_only_calm on_directory_hit_calm [OF _ surjective_pairing] serve_calm
        provider_calm [OF _ surjective_pairing] submit_intent_linked [OF _ _ _ surjective_pairing])+)

section \<open>What a turn changes\<close>

text \<open>Deliveries of the ACL protocol.\<close>

fun acl_event :: "Input \<Rightarrow> bool" where
  "acl_event (InSwarm (BehaviourAcl (AclRequestMessage peer m ch))) = True"
| "acl_event (InSwarm (BehaviourAcl (AclResponseMessage peer i m))) = True"
| "acl_event i = False"

text \<open>The record only grows.\<close>

lemma adds_subset: "adds P (st_swarm s) (st_swarm s') \<Longrightarrow> set (recorded s) \<subseteq> set (recorded s')"
  by (auto simp: adds_def recorded_def)

lemma speaks_subset: "speaks P s s' \<Longrightarrow> S \<subseteq> set (recorded s) \<Longrightarrow> S \<subseteq> set (recorded s')"
  using adds_subset unfolding speaks_def by blast

lemma provider_subset:
  "S \<subseteq> set (recorded s) \<Longrightarrow> S \<subseteq> set (recorded (snd (handle_request_round1 X (tap N) peer m ch s)))"
  "S \<subseteq> set (recorded s) \<Longrightarrow> S \<subseteq> set (recorded (snd (handle_agree_round2 X (tap N) peer m ch s)))"
  using request_records [of X N peer m ch s, OF surjective_pairing] agree_records [of X N peer m ch s, OF surjective_pairing]
  by (fastforce, fastforce)

interpretation history: turn_invariant X "tap N" "\<lambda>i. True" "\<lambda>s. S \<subseteq> set (recorded s)" for X N S
proof (unfold_locales, simp_all only: recorded_aside, goal_cases)
  case (1 s c reply)
  then show ?case using publish_records [of X N c reply s, OF surjective_pairing] adds_subset by blast
next
  case (7 s rc cap)
  then show ?case by (auto simp: recorded_def)
qed ((rule speaks_subset [OF submit_intent_speaks [OF surjective_pairing]] speaks_subset [OF swarm_only_speaks(1)]
    speaks_subset [OF swarm_only_speaks(2)] speaks_subset [OF on_directory_hit_speaks [OF surjective_pairing]]
    speaks_subset [OF finish_lookup_speaks] speaks_subset [OF handle_card_response_speaks] provider_subset
    speaks_subset [OF on_acl_response_speaks], assumption)+)

text \<open>Only deliveries of the ACL protocol touch proposals and receipts or send responses.\<close>

definition offers :: "('w \<times> Output list) State \<Rightarrow> (string \<rightharpoonup> ProviderState) \<times> ReceiptStore \<times> (ResponseChannel \<times> AclMessage) set" where
  "offers s = (st_providers s, st_receipts s, answered s)"

lemma offers_aside [simp]:
  "offers (emit ev s) = offers s" "offers (upd_metrics f s) = offers s" "offers (reply_publish ch v s) = offers s"
  "offers (s\<lparr>st_known_peers := P\<rparr>) = offers s" "offers (s\<lparr>st_pending_publish_acks := acks\<rparr>) = offers s"
  "offers (s\<lparr>st_events := es\<rparr>) = offers s" "offers (s\<lparr>st_event_receiver_open := b\<rparr>) = offers s"
  "offers (s\<lparr>st_swarm := card_send_response (tap N) (st_swarm s) rc response\<rparr>) = offers s"
  by (simp_all add: offers_def answered_def effect_defs recorded_def)

lemma speaks_offers: "speaks (no_response X) s s' \<Longrightarrow> st_receipts s' = st_receipts s \<Longrightarrow> offers s' = offers s"
  using speaks_answered unfolding speaks_def offers_def by blast

lemma maybe_send_request_receipts: "st_receipts (snd (maybe_send_request X N conv s)) = st_receipts s"
proof -
  obtain r s' where eq: "maybe_send_request X N conv s = (r, s')" by force
  then have "st_receipts s' = st_receipts s" by (cases rule: maybe_send_request_cases) (simp_all add: effect_defs)
  then show ?thesis using eq by simp
qed

lemma search_offers:
  "offers (snd (finish_lookup X (tap N) q s)) = offers s"
  "offers (snd (handle_card_response X (tap N) i response s)) = offers s"
proof -
  have "st_receipts (snd (finish_lookup X (tap N) q s)) = st_receipts s"
    by (simp add: finish_lookup_eq maybe_send_request_receipts lookup_done_def split: option.splits)
  then show "offers (snd (finish_lookup X (tap N) q s)) = offers s" by (rule speaks_offers [OF finish_lookup_speaks])
  have "st_receipts (snd (handle_card_response X (tap N) i response s)) = st_receipts s"
    by (simp add: handle_card_response_def Let_def maybe_send_request_receipts split: option.splits)
  then show "offers (snd (handle_card_response X (tap N) i response s)) = offers s"
    by (rule speaks_offers [OF handle_card_response_speaks])
qed

lemma publish_offers_same: "offers (snd (publish X (tap N) c reply s)) = offers s"
proof -
  have "st_receipts (snd (publish X (tap N) c reply s)) = st_receipts s"
    by (simp add: publish_def Let_def reply_publish_def split: exec.splits prod.splits sum.splits)
  then show ?thesis using publish_records [of X N c reply s, OF surjective_pairing] speaks_answered adds_plain
    unfolding offers_def by blast
qed

lemma open_offers:
  "offers (snd (submit_intent X (tap N) required query intent reply s)) = offers s"
  "offers (snd (on_directory_hit X (tap N) rec conv s)) = offers s"
  "offers (handle_identify (tap N) iev s) = offers s" "offers (handle_mdns (tap N) mev s) = offers s"
proof -
  have r: "st_receipts (snd (submit_intent X (tap N) required query intent reply s)) = st_receipts s"
    "st_receipts (snd (on_directory_hit X (tap N) rec conv s)) = st_receipts s"
    by (simp_all add: submit_intent_def on_directory_hit_def Let_def split: exec.splits prod.splits option.splits sum.splits)
  show "offers (snd (submit_intent X (tap N) required query intent reply s)) = offers s"
    by (rule speaks_offers [OF plain_speaks [OF submit_intent_speaks [OF surjective_pairing]] r(1)])
  show "offers (snd (on_directory_hit X (tap N) rec conv s)) = offers s"
    by (rule speaks_offers [OF plain_speaks [OF on_directory_hit_speaks [OF surjective_pairing]] r(2)])
  have "st_receipts (handle_identify (tap N) iev s) = st_receipts s" by (cases iev) simp_all
  then show "offers (handle_identify (tap N) iev s) = offers s" by (rule speaks_offers [OF swarm_only_speaks(1)])
  have "st_receipts (handle_mdns (tap N) mev s) = st_receipts s" by (cases mev) simp_all
  then show "offers (handle_mdns (tap N) mev s) = offers s" by (rule speaks_offers [OF swarm_only_speaks(2)])
qed

interpretation own: turn_invariant X "tap N" "\<lambda>i. \<not> acl_event i" "\<lambda>s. offers s = Z" for X N Z
  by unfold_locales (simp_all add: open_offers search_offers publish_offers_same del: tap_sel)

text \<open>A delivered request: ignored, answered with a PROPOSE, or executed and answered with an INFORM.\<close>

lemma sql_works_tap: "sql_works N \<Longrightarrow> sql_works (tap N)"
  by (auto simp: sql_works_def quiet_def split: prod.splits) (metis fst_conv)

lemma request_delivered [consumes 4, case_names quiet proposed informed]:
  assumes "mesh_laws X" "can_seal X (st_identity s)" "sql_works N" "on_acl_request X (tap N) p m ch s = (r, s')"
  obtains "offers s' = offers s"
  | n prov where "performative_of n = Propose" "answered s' = insert (ch, n) (answered s)"
      "st_providers s' = (st_providers s)(acl_conversation_id m \<mapsto> prov)" "ps_requester_peer prov = p"
      "st_receipts s' = st_receipts s"
  | n prov row cap where "acl_conversation_id n = acl_conversation_id m" "answered s' = insert (ch, n) (answered s)"
      "st_providers s (acl_conversation_id m) = Some prov" "st_providers s' = (st_providers s)(acl_conversation_id m := None)"
      "st_receipts s' = (st_receipts s)(acl_conversation_id m \<mapsto> row)"
      "has_receipt X s' (acl_conversation_id m) cap (pid_to_string X (ps_requester_peer prov))
         (pid_to_string X (peer_id X (st_identity s))) None"
proof -
  consider (none) "s' = s" | (request) "handle_request_round1 X (tap N) p m ch s = (r, s')"
    | (agree) "handle_agree_round2 X (tap N) p m ch s = (r, s')"
    using assms(4) by (auto simp: on_acl_request_def split: if_splits Performative.splits)
  then show thesis
  proof cases
    case request
    then show thesis
    proof (cases rule: handle_request_round1_cases)
      case (proposed intent cap t w1 u w2 n)
      have "recorded s' = recorded s @ [OAclResponse ch n]"
        using proposed(4,5,7) by (auto simp: recorded_def dest!: tap_snd)
      note a = answered_step(2) [OF this]
      show thesis by (rule that(2) [OF built_fields(1) [OF proposed(6) [unfolded acl_propose_def]] a]) (use proposed(7) in \<open>simp, simp, simp\<close>)
    qed (use assms(2) that(1) in auto)
  next
    case agree
    then show thesis
    proof (cases rule: handle_agree_round2_cases)
      case (unstored w w' x)
      then show thesis using sql_worksD [OF sql_works_tap [OF assms(3)]] by blast
    next
      case (completed prov t w1 u w2 n t' w4 w5 rec)
      have "recorded s' = recorded s @ [OAclResponse ch n]"
        using completed(3,4,6,8,9) by (auto simp: recorded_def upd_metrics_def dest!: tap_snd)
      note a = answered_step(2) [OF this]
      have h: "has_receipt X s' (acl_conversation_id m) (ps_capability_id prov) (pid_to_string X (ps_requester_peer prov))
          (pid_to_string X (peer_id X (st_identity s))) None"
        using has_receipt_stored [OF assms(1), of t' s'] completed(7,9) by (simp add: upd_metrics_def)
      show thesis
        by (rule that(3) [OF built_fields(3) [OF completed(5) [unfolded acl_inform_def]] a completed(2) _ _ h])
          (use completed(9) in \<open>simp_all add: upd_metrics_def\<close>)
    qed (use assms(2) that(1) in auto)
  qed (use that(1) in simp)
qed

text \<open>A delivered response: it stores a receipt only when it is the INFORM that is awaited.\<close>

lemma response_delivered [consumes 2, case_names quiet completed]:
  assumes "mesh_laws X" "on_acl_response X (tap N) q i m s = (r, s')"
  obtains "offers s' = offers s"
  | c row cap where "performative_of m = Inform" "st_pending_acl_round2 s i = Some c" "st_requesters s c \<noteq> None"
      "st_providers s' = st_providers s" "answered s' = answered s" "st_receipts s' = (st_receipts s)(c \<mapsto> row)"
      "has_receipt X s' c cap (pid_to_string X (peer_id X (st_identity s))) (pid_to_string X q) (Some (acl_signature m))"
proof -
  have sp: "speaks (no_response X) s s'" using on_acl_response_speaks [of X s N q i m] assms(2) by simp
  note off = speaks_offers [OF sp]
  show thesis
  proof (cases "is_ok (acl_verify X m) \<and> st_pending_acl_round1 s i = None \<and> performative_of m = Inform \<and> st_pending_acl_round2 s i \<noteq> None")
    case True
    then obtain c where c: "st_pending_acl_round2 s i = Some c"
      and "complete_intent X (tap N) q c m (s\<lparr>st_pending_acl_round2 := (st_pending_acl_round2 s)(i := None)\<rparr>) = (r, s')"
      using assms(2) by (auto simp: on_acl_response_def)
    from this(2) show thesis
    proof (cases rule: complete_intent_cases)
      case (completed req t w1 w2 rec cap)
      have "has_receipt X s' c cap (pid_to_string X (peer_id X (st_identity s))) (pid_to_string X q) (Some (acl_signature m))"
        using has_receipt_stored [OF assms(1), of t s'] completed(5,7) by (simp add: effect_defs)
      moreover have "answered s' = answered s" "st_providers s' = st_providers s"
        using sp speaks_answered unfolding speaks_def by blast+
      ultimately show thesis using that(2) [of c] True c completed(2,7) by (simp add: effect_defs)
    qed (use that(1) off in simp_all)
  next
    case False
    have "st_receipts (snd (send_agree X (tap N) c m s0)) = st_receipts s0" for c s0
      by (simp add: send_agree_def split: option.splits prod.splits exec.splits)
    then have "st_receipts (snd (on_acl_response X (tap N) q i m s)) = st_receipts s"
      using False by (auto simp: on_acl_response_def Let_def split: option.splits)
    then show thesis using that(1) off assms(2) by simp
  qed
qed

end
