(* ===== verification/Kite_Mesh.thy ===== *)
theory Kite_Mesh
  imports Kite_Links
begin

text \<open>
  A mesh of daemons: honest daemons that run the event loop over a network which delivers,
  loses, delays and repeats their ACL messages, next to peers that do as they please. The DHT,
  the card protocol and the callers are arbitrary inputs of the daemons. What is assumed of libp2p
  is that connections are authenticated: the peer of a delivered message is its sender, and a
  response to a request comes from the peer the request was sent to.
\<close>

section \<open>The network\<close>

text \<open>
  The daemons with the record of their outputs, the calls that were delivered to each of them
  (by response channel, the caller and its request identifier), and the daemons whose loop ended.
\<close>

type_synonym 'w nodes = "PeerId \<Rightarrow> ('w \<times> Output list) State"

record 'w mesh =
  ms_node :: "'w nodes"
  ms_calls :: "PeerId \<Rightarrow> ResponseChannel \<Rightarrow> (PeerId \<times> OutboundRequestId) option"
  ms_stopped :: "PeerId set"

definition take_turn :: "ext \<Rightarrow> (PeerId \<Rightarrow> 'w net) \<Rightarrow> PeerId \<Rightarrow> Input \<Rightarrow> 'w mesh \<Rightarrow> 'w mesh" where
  "take_turn X N p i M = (case loop_turn X (tap (N p)) i (ms_node M p) of (r, s) \<Rightarrow>
     M\<lparr>ms_node := (ms_node M)(p := s), ms_stopped := if r = None then ms_stopped M else insert p (ms_stopped M)\<rparr>)"

definition note_call :: "PeerId \<Rightarrow> ResponseChannel \<Rightarrow> PeerId \<times> OutboundRequestId \<Rightarrow> 'w mesh \<Rightarrow> 'w mesh" where
  "note_call q ch caller M = M\<lparr>ms_calls := (ms_calls M)(q := (ms_calls M q)(ch \<mapsto> caller))\<rparr>"

text \<open>
  \<open>told f p q c\<close>: the daemon \<open>p\<close> has sent \<open>q\<close> a request of the conversation \<open>c\<close>. Dishonest peers share
  what they know, but conversation identifiers are random UUIDs: they can name a conversation
  of an honest daemon only when it has leaked, that is when this daemon has told one of them.
\<close>

definition told :: "'w nodes \<Rightarrow> PeerId \<Rightarrow> PeerId \<Rightarrow> string \<Rightarrow> bool" where
  "told f p q c \<longleftrightarrow> (\<exists>m i. (q, m, i) \<in> asked (f p) \<and> acl_conversation_id m = c)"

definition leaked :: "PeerId set \<Rightarrow> 'w nodes \<Rightarrow> PeerId \<Rightarrow> string \<Rightarrow> bool" where
  "leaked H f p c \<longleftrightarrow> (\<exists>r. r \<notin> H \<and> told f p r c)"

definition can_name :: "PeerId set \<Rightarrow> (PeerId \<Rightarrow> string set) \<Rightarrow> 'w nodes \<Rightarrow> string \<Rightarrow> bool" where
  "can_name H U f c \<longleftrightarrow> (\<forall>p\<in>H. c \<in> U p \<longrightarrow> leaked H f p c)"

inductive mesh_step :: "ext \<Rightarrow> (PeerId \<Rightarrow> 'w net) \<Rightarrow> PeerId set \<Rightarrow> (PeerId \<Rightarrow> string set) \<Rightarrow> 'w mesh \<Rightarrow> 'w mesh \<Rightarrow> bool"
  for X N H U where
  own: "mesh_step X N H U M (take_turn X N p i M)"
    if "p \<in> H" "p \<notin> ms_stopped M" "\<not> acl_event i" "input_ok i"
| request: "mesh_step X N H U M (note_call q ch (p, i) (take_turn X N q (InSwarm (BehaviourAcl (AclRequestMessage p m ch))) M))"
    if "p \<in> H" "q \<in> H" "q \<notin> ms_stopped M" "(q, m, i) \<in> asked (ms_node M p)" "ms_calls M q ch = None"
| response: "mesh_step X N H U M (take_turn X N p (InSwarm (BehaviourAcl (AclResponseMessage q i m))) M)"
    if "p \<in> H" "p \<notin> ms_stopped M" "q \<in> H" "ms_calls M q ch = Some (p, i)" "(ch, m) \<in> answered (ms_node M q)"
| foreign_request: "mesh_step X N H U M (note_call q ch (r, i) (take_turn X N q (InSwarm (BehaviourAcl (AclRequestMessage r m ch))) M))"
    if "r \<notin> H" "q \<in> H" "q \<notin> ms_stopped M" "ms_calls M q ch = None" "can_name H U (ms_node M) (acl_conversation_id m)"
| foreign_response: "mesh_step X N H U M (take_turn X N p (InSwarm (BehaviourAcl (AclResponseMessage r i m))) M)"
    if "p \<in> H" "p \<notin> ms_stopped M" "r \<notin> H" "(r, m', i) \<in> asked (ms_node M p)"

text \<open>The honest daemons boot with an empty store of receipts.\<close>

definition mesh_start :: "ext \<Rightarrow> (PeerId \<Rightarrow> 'w net) \<Rightarrow> PeerId set \<Rightarrow> 'w mesh \<Rightarrow> bool" where
  "mesh_start X N H M \<longleftrightarrow> ms_calls M = (\<lambda>q ch. None) \<and> (\<forall>p\<in>H. \<exists>B cfg h s.
     kited_start X (N p) B cfg = Ok (h, s) \<and> kh_peer_id h = p \<and> st_receipts s = Map.empty \<and> ms_node M p = tapped s)"

inductive mesh_state :: "ext \<Rightarrow> (PeerId \<Rightarrow> 'w net) \<Rightarrow> PeerId set \<Rightarrow> (PeerId \<Rightarrow> string set) \<Rightarrow> 'w mesh \<Rightarrow> bool"
  for X N H U where
  start: "mesh_start X N H M \<Longrightarrow> mesh_state X N H U M"
| step: "mesh_state X N H U M \<Longrightarrow> mesh_step X N H U M M' \<Longrightarrow> mesh_state X N H U M'"

text \<open>
  What the honest daemons rely on: the laws of the cryptography, swarms that issue fresh
  identifiers, generators that never issue the same UUID to two daemons, and storage that works.
\<close>

definition mesh_works :: "ext \<Rightarrow> (PeerId \<Rightarrow> 'w net) \<Rightarrow> (PeerId \<Rightarrow> 'w ledger) \<Rightarrow> PeerId set \<Rightarrow> (PeerId \<Rightarrow> string set) \<Rightarrow> bool" where
  "mesh_works X N L H U \<longleftrightarrow> mesh_laws X \<and> (\<forall>i. can_seal X i) \<and>
     (\<forall>p\<in>H. net_fresh (N p) (L p) \<and> issues (N p) (U p) \<and> sql_works (N p)) \<and>
     (\<forall>p\<in>H. \<forall>q\<in>H. p \<noteq> q \<longrightarrow> U p \<inter> U q = {})"

section \<open>Every node by itself\<close>

definition node_ok :: "ext \<Rightarrow> 'w ledger \<Rightarrow> string set \<Rightarrow> PeerId \<Rightarrow> ('w \<times> Output list) State \<Rightarrow> bool" where
  "node_ok X L U p s \<longleftrightarrow> loop_inv X (tap_ledger L) s \<and> (\<forall>c. orderly (tap_ledger L) c s) \<and> linked (tap_ledger L) U s \<and>
     (\<exists>i. peer_id X i = p \<and> spoken X i s)"

lemma node_peer: "node_ok X L U p s \<Longrightarrow> peer_id X (st_identity s) = p"
  by (auto simp: node_ok_def spoken_def)

lemma node_turn:
  assumes "net_fresh N L" "issues N U" "node_ok X L U p s" "input_ok i"
  shows "node_ok X L U p (snd (loop_turn X (tap N) i s))"
proof -
  let ?s = "snd (loop_turn X (tap N) i s)" and ?L = "tap_ledger L"
  note fresh = tap_fresh [OF assms(1)]
  have "loop_inv X ?L ?s \<and> orderly ?L c ?s" for c
    using conversations.turn [of N ?L X s c i] fresh assms(3,4) by (simp add: node_ok_def)
  moreover have "net_fresh (tap N) ?L \<and> issues (tap N) U \<longrightarrow> linked ?L U ?s"
    by (rule links.turn) (use assms(3) in \<open>simp_all add: node_ok_def\<close>)
  then have "linked ?L U ?s" using fresh issues_tap [OF assms(2)] by blast
  moreover have "\<exists>j. peer_id X j = p \<and> spoken X j ?s" using typed.turn assms(3) unfolding node_ok_def by blast
  ultimately show ?thesis by (simp add: node_ok_def)
qed

text \<open>A daemon speaks to one peer about a conversation.\<close>

lemma asked_acts: "(q, m, i) \<in> asked s \<Longrightarrow> (q, performative_of m) \<in> set (acts (acl_conversation_id m) (recorded s))"
  by (force simp: asked_def acts_def)

lemma told_one:
  assumes "node_ok X L U p (f p)" "told f p q c" "told f p r c"
  shows "q = r"
proof -
  obtain z where "acts c (recorded (f p)) \<in> {[], [(z, Request)], [(z, Request), (z, Agree)]}"
    using assms(1) unfolding node_ok_def ordered_def by blast
  moreover obtain a b where "(q, a) \<in> set (acts c (recorded (f p)))" "(r, b) \<in> set (acts c (recorded (f p)))"
    using assms(2,3) asked_acts unfolding told_def by metis
  ultimately show ?thesis by auto
qed

section \<open>Receipts and the conversations they belong to\<close>

text \<open>
  A response answers a call; when it is an INFORM, its sender holds a receipt of the conversation
  of that call.
\<close>

definition called :: "PeerId set \<Rightarrow> 'w nodes \<Rightarrow> (ResponseChannel \<rightharpoonup> PeerId \<times> OutboundRequestId) \<Rightarrow> PeerId \<Rightarrow> ResponseChannel \<Rightarrow> AclMessage \<Rightarrow> bool" where
  "called H f calls q ch n \<longleftrightarrow> (\<exists>p i. calls ch = Some (p, i) \<and>
     (p \<in> H \<longrightarrow> (\<exists>m. (q, m, i) \<in> asked (f p) \<and> (performative_of n = Inform \<longrightarrow> acl_conversation_id m = acl_conversation_id n)))) \<and>
     (performative_of n = Inform \<longrightarrow> st_receipts (f q) (acl_conversation_id n) \<noteq> None)"

definition answers_ok :: "PeerId set \<Rightarrow> 'w nodes \<Rightarrow> (ResponseChannel \<rightharpoonup> PeerId \<times> OutboundRequestId) \<Rightarrow> PeerId \<Rightarrow> bool" where
  "answers_ok H f calls q \<longleftrightarrow> (\<forall>(ch, n)\<in>answered (f q). called H f calls q ch n)"

text \<open>A proposal of a conversation that has not leaked is for the daemon that opened it.\<close>

definition offers_ok :: "PeerId set \<Rightarrow> (PeerId \<Rightarrow> string set) \<Rightarrow> 'w nodes \<Rightarrow> PeerId \<Rightarrow> bool" where
  "offers_ok H U f q \<longleftrightarrow> (\<forall>c prov p. st_providers (f q) c = Some prov \<longrightarrow> p \<in> H \<longrightarrow> c \<in> U p \<longrightarrow>
     ps_requester_peer prov = p \<or> leaked H f p c)"

text \<open>
  A receipt is one of a provider, for the daemon that opened the conversation unless it has
  leaked, or one of a requester, whose provider holds a receipt of the conversation, too.
\<close>

definition provided :: "ext \<Rightarrow> PeerId set \<Rightarrow> (PeerId \<Rightarrow> string set) \<Rightarrow> 'w nodes \<Rightarrow> string \<Rightarrow> string \<Rightarrow> bool" where
  "provided X H U f c requester \<longleftrightarrow> (\<forall>p\<in>H. c \<in> U p \<longrightarrow> requester = pid_to_string X p \<or> leaked H f p c)"

definition requested :: "ext \<Rightarrow> PeerId set \<Rightarrow> (PeerId \<Rightarrow> string set) \<Rightarrow> 'w nodes \<Rightarrow> PeerId \<Rightarrow> string \<Rightarrow> string \<Rightarrow> bool" where
  "requested X H U f q c provider \<longleftrightarrow> c \<in> U q \<and>
     (\<exists>p. provider = pid_to_string X p \<and> (p \<in> H \<longrightarrow> told f q p c \<and> st_receipts (f p) c \<noteq> None))"

definition receipts_ok :: "ext \<Rightarrow> PeerId set \<Rightarrow> (PeerId \<Rightarrow> string set) \<Rightarrow> 'w nodes \<Rightarrow> PeerId \<Rightarrow> bool" where
  "receipts_ok X H U f q \<longleftrightarrow> (\<forall>c. st_receipts (f q) c \<noteq> None \<longrightarrow>
     (\<exists>cap requester provider ct. has_receipt X (f q) c cap requester provider ct \<and>
       (provider = pid_to_string X q \<and> ct = None \<and> provided X H U f c requester \<or>
        requester = pid_to_string X q \<and> requested X H U f q c provider)))"

definition accounts :: "ext \<Rightarrow> PeerId set \<Rightarrow> (PeerId \<Rightarrow> string set) \<Rightarrow> 'w nodes \<Rightarrow> (ResponseChannel \<rightharpoonup> PeerId \<times> OutboundRequestId) \<Rightarrow> PeerId \<Rightarrow> bool" where
  "accounts X H U f calls q \<longleftrightarrow> answers_ok H f calls q \<and> offers_ok H U f q \<and> receipts_ok X H U f q"

subsection \<open>Time\<close>

text \<open>What only grows in a step of the mesh, and what depends on nothing else.\<close>

definition later :: "'w nodes \<Rightarrow> 'w nodes \<Rightarrow> bool" where
  "later f f' \<longleftrightarrow> (\<forall>p. asked (f p) \<subseteq> asked (f' p) \<and> dom (st_receipts (f p)) \<subseteq> dom (st_receipts (f' p)) \<and>
     st_identity (f' p) = st_identity (f p))"

lemma later_told: "later f f' \<Longrightarrow> told f p q c \<Longrightarrow> told f' p q c"
  unfolding later_def told_def by blast

lemma later_leaked: "later f f' \<Longrightarrow> leaked H f p c \<Longrightarrow> leaked H f' p c"
  using later_told unfolding leaked_def by blast

lemma later_receipts: "later f f' \<Longrightarrow> st_receipts (f p) c \<noteq> None \<Longrightarrow> st_receipts (f' p) c \<noteq> None"
  unfolding later_def by blast

lemma later_provided: "later f f' \<Longrightarrow> provided X H U f c requester \<Longrightarrow> provided X H U f' c requester"
  using later_leaked unfolding provided_def by blast

lemma later_requested: "later f f' \<Longrightarrow> requested X H U f q c provider \<Longrightarrow> requested X H U f' q c provider"
  using later_told later_receipts unfolding requested_def by blast

lemma has_receipt_frame:
  "st_receipts s' c = st_receipts s c \<Longrightarrow> st_identity s' = st_identity s \<Longrightarrow>
    has_receipt X s' c cap requester provider ct = has_receipt X s c cap requester provider ct"
  by (simp add: has_receipt_def store_get_def)

text \<open>An entry of an invariant at a key that a step does not touch.\<close>

lemma later_receipt_entry:
  assumes "later f f'" "receipts_ok X H U f q" "st_receipts (f' q) c = st_receipts (f q) c" "st_receipts (f' q) c \<noteq> None"
  shows "\<exists>cap requester provider ct. has_receipt X (f' q) c cap requester provider ct \<and>
    (provider = pid_to_string X q \<and> ct = None \<and> provided X H U f' c requester \<or>
     requester = pid_to_string X q \<and> requested X H U f' q c provider)"
proof -
  have "st_identity (f' q) = st_identity (f q)" using assms(1) unfolding later_def by blast
  note frame = has_receipt_frame [OF assms(3) this]
  show ?thesis
    using assms(2-4) later_provided [OF assms(1)] later_requested [OF assms(1)] unfolding receipts_ok_def frame by metis
qed

lemma later_answer_entry:
  assumes "later f f'" "answers_ok H f calls q" "calls \<subseteq>\<^sub>m calls'" "(ch, n) \<in> answered (f q)"
  shows "called H f' calls' q ch n"
proof -
  have c: "called H f calls q ch n" using assms(2,4) unfolding answers_ok_def by blast
  then have "calls' ch = calls ch" using assms(3) by (auto simp: called_def map_le_def dom_def)
  then show ?thesis using c assms(1) later_receipts [OF assms(1)] unfolding called_def later_def by (metis subset_iff)
qed

lemma later_offer_entry:
  "later f f' \<Longrightarrow> offers_ok H U f q \<Longrightarrow> st_providers (f q) c = Some prov \<Longrightarrow> p \<in> H \<Longrightarrow> c \<in> U p \<Longrightarrow>
    ps_requester_peer prov = p \<or> leaked H f' p c"
  using later_leaked unfolding offers_ok_def by blast

text \<open>A node whose proposals, receipts and responses are as before keeps its accounts.\<close>

lemma accounts_same:
  assumes "later f f'" "accounts X H U f calls q" "calls \<subseteq>\<^sub>m calls'" "offers (f' q) = offers (f q)"
  shows "accounts X H U f' calls' q"
proof -
  have o: "st_providers (f' q) = st_providers (f q)" "st_receipts (f' q) = st_receipts (f q)" "answered (f' q) = answered (f q)"
    using assms(4) by (simp_all add: offers_def)
  have a: "answers_ok H f calls q" "offers_ok H U f q" "receipts_ok X H U f q" using assms(2) by (simp_all add: accounts_def)
  have "answers_ok H f' calls' q"
    using later_answer_entry [OF assms(1) a(1) assms(3)] unfolding answers_ok_def o(3) by blast
  moreover have "offers_ok H U f' q" using later_offer_entry [OF assms(1) a(2)] unfolding offers_ok_def o(1) by blast
  moreover have "receipts_ok X H U f' q" using later_receipt_entry [OF assms(1) a(3)] o(2) unfolding receipts_ok_def by simp
  ultimately show ?thesis by (simp add: accounts_def)
qed

subsection \<open>Deliveries\<close>

lemma accounts_request:
  assumes "mesh_laws X" "can_seal X (st_identity (f q))" "sql_works N" "f' q = snd (on_acl_request X (tap N) p m ch (f q))"
    and "later f f'" "accounts X H U f calls q" "calls ch = None" "peer_id X (st_identity (f q)) = q"
    and sender: "p \<in> H \<Longrightarrow> (q, m, i) \<in> asked (f p)"
      "\<And>p'. p' \<in> H \<Longrightarrow> acl_conversation_id m \<in> U p' \<Longrightarrow> p = p' \<or> leaked H f p' (acl_conversation_id m)"
  shows "accounts X H U f' (calls(ch \<mapsto> (p, i))) q"
proof -
  let ?calls = "calls(ch \<mapsto> (p, i))" and ?c = "acl_conversation_id m"
  have le: "calls \<subseteq>\<^sub>m ?calls" using assms(7) by (auto simp: map_le_def)
  have a: "answers_ok H f calls q" "offers_ok H U f q" "receipts_ok X H U f q" using assms(6) by (simp_all add: accounts_def)
  note entry = later_answer_entry [OF assms(5) a(1) le] later_offer_entry [OF assms(5) a(2)] later_receipt_entry [OF assms(5) a(3)]
  have sender': "p = p' \<or> leaked H f' p' ?c" if "p' \<in> H" "?c \<in> U p'" for p'
    using sender(2) [OF that] later_leaked [OF assms(5)] by blast
  have asked': "p \<in> H \<Longrightarrow> (q, m, i) \<in> asked (f' p)" using sender(1) assms(5) unfolding later_def by blast
  obtain r where "on_acl_request X (tap N) p m ch (f q) = (r, f' q)" using assms(4) surjective_pairing by metis
  with assms(1-3) show ?thesis
  proof (cases rule: request_delivered)
    case quiet
    then show ?thesis by (rule accounts_same [OF assms(5,6) le])
  next
    case (proposed n prov)
    have "called H f' ?calls q ch n" using proposed(1) asked' by (auto simp: called_def)
    then have "answers_ok H f' ?calls q" using entry(1) unfolding answers_ok_def proposed(2) by blast
    moreover have "offers_ok H U f' q"
      using entry(2) sender' proposed(4) unfolding offers_ok_def proposed(3) by auto
    moreover have "receipts_ok X H U f' q" using entry(3) proposed(5) unfolding receipts_ok_def by simp
    ultimately show ?thesis by (simp add: accounts_def)
  next
    case (informed n prov row cap)
    have "called H f' ?calls q ch n" using informed(1,5) asked' by (auto simp: called_def)
    then have "answers_ok H f' ?calls q" using entry(1) unfolding answers_ok_def informed(2) by blast
    moreover have "offers_ok H U f' q"
      using entry(2) unfolding offers_ok_def informed(4) by auto
    moreover have "provided X H U f' ?c (pid_to_string X (ps_requester_peer prov))"
      using entry(2) [OF informed(3)] unfolding provided_def by blast
    then have "receipts_ok X H U f' q"
      using entry(3) informed(5,6) assms(8) unfolding receipts_ok_def by (metis fun_upd_other)
    ultimately show ?thesis by (simp add: accounts_def)
  qed
qed

lemma accounts_response:
  assumes "mesh_laws X" "f' p = snd (on_acl_response X (tap N) r i n (f p))"
    and "later f f'" "accounts X H U f calls p" "node_ok X L (U p) p (f p)"
    and sender: "(r, m, i) \<in> asked (f p)"
      "r \<in> H \<Longrightarrow> performative_of n = Inform \<Longrightarrow> st_receipts (f r) (acl_conversation_id m) \<noteq> None"
  shows "accounts X H U f' calls p"
proof -
  obtain res where "on_acl_response X (tap N) r i n (f p) = (res, f' p)" using assms(2) surjective_pairing by metis
  with assms(1) show ?thesis
  proof (cases rule: response_delivered)
    case quiet
    then show ?thesis by (rule accounts_same [OF assms(3,4) map_le_refl])
  next
    case (completed c row cap)
    have a: "answers_ok H f calls p" "offers_ok H U f p" "receipts_ok X H U f p" using assms(4) by (simp_all add: accounts_def)
    note link = linkedD [of "tap_ledger L" "U p" "f p"]
    have l: "linked (tap_ledger L) (U p) (f p)" using assms(5) by (simp add: node_ok_def)
    have c: "acl_conversation_id m = c" using link(4) [OF l completed(2)] link(3) [OF l sender(1)] by blast
    have "answers_ok H f' calls p"
      using later_answer_entry [OF assms(3) a(1) map_le_refl] unfolding answers_ok_def completed(5) by blast
    moreover have "offers_ok H U f' p"
      using later_offer_entry [OF assms(3) a(2)] unfolding offers_ok_def completed(4) by blast
    moreover have "told f' p r c" using later_told [OF assms(3)] sender(1) c unfolding told_def by blast
    then have "requested X H U f' p c (pid_to_string X r)"
      using link(1) [OF l] completed(1,3) sender(2) later_receipts [OF assms(3)] c unfolding requested_def by blast
    then have "receipts_ok X H U f' p"
      using later_receipt_entry [OF assms(3) a(3)] completed(6,7) node_peer [OF assms(5)]
      unfolding receipts_ok_def by (metis fun_upd_other)
    ultimately show ?thesis by (simp add: accounts_def)
  qed
qed

section \<open>Every state of the mesh\<close>

definition mesh_inv :: "ext \<Rightarrow> (PeerId \<Rightarrow> 'w ledger) \<Rightarrow> PeerId set \<Rightarrow> (PeerId \<Rightarrow> string set) \<Rightarrow> 'w mesh \<Rightarrow> bool" where
  "mesh_inv X L H U M \<longleftrightarrow> (\<forall>p\<in>H. node_ok X (L p) (U p) p (ms_node M p) \<and> accounts X H U (ms_node M) (ms_calls M p) p)"

lemma mesh_worksD:
  assumes "mesh_works X N L H U"
  shows "mesh_laws X" "can_seal X i" "p \<in> H \<Longrightarrow> net_fresh (N p) (L p)" "p \<in> H \<Longrightarrow> issues (N p) (U p)" "p \<in> H \<Longrightarrow> sql_works (N p)"
    "p \<in> H \<Longrightarrow> q \<in> H \<Longrightarrow> c \<in> U p \<Longrightarrow> c \<in> U q \<Longrightarrow> p = q"
  using assms unfolding mesh_works_def by blast+

lemma delivered:
  "snd (loop_turn X N (InSwarm (BehaviourAcl (AclRequestMessage p m ch))) s) = snd (on_acl_request X N p m ch s)"
  "snd (loop_turn X N (InSwarm (BehaviourAcl (AclResponseMessage q i m))) s) = snd (on_acl_response X N q i m s)"
  by (simp_all split: prod.splits exec.splits)

text \<open>The record of requests, the receipts and the identity over a turn.\<close>

lemma turn_receipts:
  assumes "mesh_laws X" "can_seal X (st_identity s)" "sql_works N"
  shows "dom (st_receipts s) \<subseteq> dom (st_receipts (snd (loop_turn X (tap N) i s)))"
proof (cases i rule: acl_event.cases)
  case (1 peer m ch)
  obtain r s' where eq: "on_acl_request X (tap N) peer m ch s = (r, s')" by force
  from assms eq have "dom (st_receipts s) \<subseteq> dom (st_receipts s')" by (cases rule: request_delivered) (auto simp: offers_def)
  then show ?thesis using eq unfolding 1 delivered by simp
next
  case (2 peer j m)
  obtain r s' where eq: "on_acl_response X (tap N) peer j m s = (r, s')" by force
  from assms(1) eq have "dom (st_receipts s) \<subseteq> dom (st_receipts s')" by (cases rule: response_delivered) (auto simp: offers_def)
  then show ?thesis using eq unfolding 2 delivered by simp
qed (use own.turn [of s _ i X N] in \<open>auto simp: offers_def\<close>)

lemma turn_later:
  assumes "mesh_laws X" "can_seal X (st_identity (f p))" "sql_works N" "spoken X j (f p)"
  shows "later f (f(p := snd (loop_turn X (tap N) i (f p))))"
proof -
  let ?s = "snd (loop_turn X (tap N) i (f p))"
  have "set (recorded (f p)) \<subseteq> set (recorded ?s)" by (rule history.turn) simp_all
  then have "asked (f p) \<subseteq> asked ?s" by (auto simp: asked_def)
  moreover have "spoken X j ?s" by (rule typed.turn [OF assms(4)]) simp
  ultimately show ?thesis using turn_receipts [OF assms(1-3), of i] assms(4) by (simp add: later_def spoken_def)
qed

text \<open>A turn of one node: the others keep their accounts, and it does when its handler does.\<close>

lemma turn_inv:
  assumes "mesh_works X N L H U" "mesh_inv X L H U M" "p \<in> H" "input_ok i"
    and M': "ms_node M' = (ms_node M)(p := snd (loop_turn X (tap (N p)) i (ms_node M p)))"
      "ms_calls M' = (ms_calls M)(p := calls)"
    and acc: "later (ms_node M) (ms_node M') \<Longrightarrow> accounts X H U (ms_node M') calls p"
  shows "mesh_inv X L H U M'"
proof -
  note w = mesh_worksD [OF assms(1)]
  have n: "node_ok X (L q) (U q) q (ms_node M q) \<and> accounts X H U (ms_node M) (ms_calls M q) q" if "q \<in> H" for q
    using assms(2) that by (simp add: mesh_inv_def)
  obtain j where "spoken X j (ms_node M p)" using n [OF assms(3)] by (auto simp: node_ok_def)
  then have lat: "later (ms_node M) (ms_node M')" unfolding M'(1) by (rule turn_later [OF w(1,2) w(5) [OF assms(3)]])
  have "node_ok X (L p) (U p) p (ms_node M' p)"
    using node_turn [OF w(3,4)] n assms(3,4) M'(1) by simp
  moreover have "accounts X H U (ms_node M') (ms_calls M q) q" if "q \<in> H" "q \<noteq> p" for q
    using accounts_same [OF lat _ map_le_refl] n that M'(1) by simp
  ultimately show ?thesis unfolding mesh_inv_def using n acc [OF lat] M' by auto
qed

lemma turn_sel:
  "ms_node (take_turn X N p i M) = (ms_node M)(p := snd (loop_turn X (tap (N p)) i (ms_node M p)))"
  "ms_calls (take_turn X N p i M) = ms_calls M" "ms_node (note_call q ch x M) = ms_node M"
  "ms_calls (note_call q ch x M) = (ms_calls M)(q := (ms_calls M q)(ch \<mapsto> x))"
  by (simp_all add: take_turn_def note_call_def split: prod.splits)

lemma mesh_inv_start: "mesh_start X N H M \<Longrightarrow> mesh_inv X L H U M"
proof -
  assume m: "mesh_start X N H M"
  have "node_ok X (L p) (U p) p (ms_node M p) \<and> offers (ms_node M p) = (Map.empty, Map.empty, {})" if p: "p \<in> H" for p
  proof -
    obtain B cfg h s where b: "kited_start X (N p) B cfg = Ok (h, s)" "kh_peer_id h = p" "st_receipts s = Map.empty" "ms_node M p = tapped s"
      using m p unfolding mesh_start_def by blast
    note t = booted_tapped [OF b(1)]
    have "spoken X (kh_identity h) (tapped s)" "peer_id X (kh_identity h) = p" "st_requesters (tapped s) = Map.empty" "st_pending_acl_round2 (tapped s) = Map.empty"
      using b(1,2) by (elim kited_start_Ok; simp add: spoken_def tapped_def with_world_def initial_state_def recorded_def)+
    moreover have "orderly (tap_ledger (L p)) c (tapped s)" for c using t by (simp add: ordered_def acts_def)
    ultimately show ?thesis using b(3,4) t by (auto simp: node_ok_def linked_def asked_def offers_def answered_def tapped_def with_world_def)
  qed
  then show ?thesis
    by (simp add: mesh_inv_def accounts_def answers_ok_def offers_ok_def receipts_ok_def offers_def)
qed

lemma mesh_inv_own:
  assumes "mesh_works X N L H U" "mesh_inv X L H U M" "p \<in> H" "\<not> acl_event i" "input_ok i"
  shows "mesh_inv X L H U (take_turn X N p i M)"
proof (rule turn_inv [OF assms(1-3,5), where calls = "ms_calls M p"], goal_cases)
  case 3
  have "offers (snd (loop_turn X (tap (N p)) i (ms_node M p))) = offers (ms_node M p)" by (rule own.turn [OF refl assms(4)])
  then show ?case using assms(2,3) by (intro accounts_same [OF 3 _ map_le_refl]) (simp_all add: mesh_inv_def turn_sel)
qed (simp_all add: turn_sel)

lemma mesh_inv_request:
  assumes "mesh_works X N L H U" "mesh_inv X L H U M" "q \<in> H" "ms_calls M q ch = None"
    and sender: "p \<in> H \<Longrightarrow> (q, m, i) \<in> asked (ms_node M p)"
      "\<And>p'. p' \<in> H \<Longrightarrow> acl_conversation_id m \<in> U p' \<Longrightarrow> p = p' \<or> leaked H (ms_node M) p' (acl_conversation_id m)"
  shows "mesh_inv X L H U (note_call q ch (p, i) (take_turn X N q (InSwarm (BehaviourAcl (AclRequestMessage p m ch))) M))"
proof (rule turn_inv [OF assms(1-3), where calls = "(ms_calls M q)(ch \<mapsto> (p, i))" and
      i = "InSwarm (BehaviourAcl (AclRequestMessage p m ch))"], goal_cases)
  case 4
  note w = mesh_worksD [OF assms(1)]
  have n: "node_ok X (L q) (U q) q (ms_node M q)" "accounts X H U (ms_node M) (ms_calls M q) q"
    using assms(2,3) by (simp_all add: mesh_inv_def)
  show ?case
    by (rule accounts_request [OF w(1,2) w(5) [OF assms(3)] _ 4 n(2) assms(4) node_peer [OF n(1)] sender])
      (simp_all add: turn_sel delivered del: loop_turn.simps)
qed (simp_all add: turn_sel)

lemma mesh_inv_response:
  assumes "mesh_works X N L H U" "mesh_inv X L H U M" "p \<in> H" "(r, m, i) \<in> asked (ms_node M p)"
    and "r \<in> H \<Longrightarrow> performative_of n = Inform \<Longrightarrow> st_receipts (ms_node M r) (acl_conversation_id m) \<noteq> None"
  shows "mesh_inv X L H U (take_turn X N p (InSwarm (BehaviourAcl (AclResponseMessage r i n))) M)"
proof (rule turn_inv [OF assms(1-3), where calls = "ms_calls M p" and
      i = "InSwarm (BehaviourAcl (AclResponseMessage r i n))"], goal_cases)
  case 4
  note w = mesh_worksD [OF assms(1)]
  have n: "node_ok X (L p) (U p) p (ms_node M p)" "accounts X H U (ms_node M) (ms_calls M p) p"
    using assms(2,3) by (simp_all add: mesh_inv_def)
  show ?case by (rule accounts_response [OF w(1) _ 4 n(2,1) assms(4,5)]) (simp_all add: turn_sel delivered del: loop_turn.simps)
qed (simp_all add: turn_sel)

lemma mesh_inv_step:
  assumes "mesh_works X N L H U" "mesh_inv X L H U M" "mesh_step X N H U M M'"
  shows "mesh_inv X L H U M'"
  using assms(3)
proof cases
  case (own p i)
  then show ?thesis using mesh_inv_own [OF assms(1,2)] by blast
next
  case (request p q m i ch)
  have "linked (tap_ledger (L p)) (U p) (ms_node M p)" using assms(2) request(2) by (auto simp: mesh_inv_def node_ok_def)
  then have "acl_conversation_id m \<in> U p" using linkedD(2) request(5) by blast
  then have "p = p'" if "p' \<in> H" "acl_conversation_id m \<in> U p'" for p'
    using mesh_worksD(6) [OF assms(1)] request(2) that by blast
  then show ?thesis unfolding request(1) by (intro mesh_inv_request [OF assms(1,2) request(3,6) request(5)]) auto
next
  case (response p q ch i n)
  have "called H (ms_node M) (ms_calls M q) q ch n"
    using assms(2) response(4,6) by (auto simp: mesh_inv_def accounts_def answers_ok_def)
  then obtain m where "(q, m, i) \<in> asked (ms_node M p)"
    "performative_of n = Inform \<Longrightarrow> st_receipts (ms_node M q) (acl_conversation_id m) \<noteq> None"
    using response(2,5) unfolding called_def by (metis option.inject prod.inject)
  then show ?thesis unfolding response(1) by (intro mesh_inv_response [OF assms(1,2) response(2)])
next
  case (foreign_request r q ch m i)
  then have "leaked H (ms_node M) p' (acl_conversation_id m)" if "p' \<in> H" "acl_conversation_id m \<in> U p'" for p'
    using that unfolding can_name_def by blast
  then show ?thesis unfolding foreign_request(1)
    using foreign_request(2) by (intro mesh_inv_request [OF assms(1,2) foreign_request(3,5)]) auto
next
  case (foreign_response p r m' i n)
  then show ?thesis using mesh_inv_response [OF assms(1,2)] by blast
qed

lemma mesh_state_inv: "mesh_state X N H U M \<Longrightarrow> mesh_works X N L H U \<Longrightarrow> mesh_inv X L H U M"
  by (induction rule: mesh_state.induct) (blast intro: mesh_inv_start mesh_inv_step)+

text \<open>
  C2: agreement on receipts in a mesh with dishonest peers. Honest daemons run the event loop from
  their boot, over a network that loses, delays, repeats and reorders their messages, with any
  callers and any answers of the DHT and of the card protocol, next to peers that send them
  whatever they like but cannot guess the UUIDs of conversations they were never told. When an
  honest daemon \<open>A\<close> holds a receipt that names an honest daemon \<open>B\<close> as its provider, then it is a
  verifying receipt with \<open>A\<close> as requester, \<open>A\<close> has sent its requests in this conversation to \<open>B\<close>
  alone, and \<open>B\<close> holds a verifying receipt of the same conversation, requester and provider.
\<close>

theorem receipt_agreement:
  assumes "mesh_works X N L H U" "mesh_state X N H U M" "A \<in> H" "B \<in> H" "A \<noteq> B"
    and "store_get None conv (st_receipts (ms_node M A)) = Ok (Some r)" "rec_provider_peer_id (sr_receipt r) = pid_to_string X B"
  shows "receipt_verify X (sr_receipt r) = Ok () \<and> rec_requester_peer_id (sr_receipt r) = pid_to_string X A \<and>
    {q. told (ms_node M) A q conv} = {B} \<and>
    (\<exists>cap. has_receipt X (ms_node M B) conv cap (pid_to_string X A) (pid_to_string X B) None)"
proof -
  note w = mesh_worksD [OF assms(1)]
  have inv: "node_ok X (L q) (U q) q (ms_node M q)" "receipts_ok X H U (ms_node M) q" if "q \<in> H" for q
    using mesh_state_inv [OF assms(2,1)] that by (simp_all add: mesh_inv_def accounts_def)
  have str: "p = q" if "pid_to_string X p = pid_to_string X q" for p q
    using mesh_lawsD(3) [OF w(1)] that unfolding pid_law_def by (metis option.inject)
  have "st_receipts (ms_node M A) conv \<noteq> None" using assms(6) by (auto simp: store_get_def)
  then obtain cap rq pr ct where "has_receipt X (ms_node M A) conv cap rq pr ct"
    and a: "pr = pid_to_string X A \<and> ct = None \<and> provided X H U (ms_node M) conv rq \<or>
      rq = pid_to_string X A \<and> requested X H U (ms_node M) A conv pr"
    using inv(2) [OF assms(3)] unfolding receipts_ok_def by blast
  then have r: "receipt_verify X (sr_receipt r) = Ok ()" "rec_requester_peer_id (sr_receipt r) = rq" "pr = pid_to_string X B"
    using assms(6,7) by (auto simp: has_receipt_def)
  then have rq: "rq = pid_to_string X A" "requested X H U (ms_node M) A conv (pid_to_string X B)" using a str assms(5) by blast+
  then have t: "told (ms_node M) A B conv" "st_receipts (ms_node M B) conv \<noteq> None" "conv \<in> U A"
    using str assms(4) unfolding requested_def by blast+
  have one: "q = B" if "told (ms_node M) A q conv" for q by (rule told_one [OF inv(1) [OF assms(3)] that t(1)])
  have "conv \<notin> U B" using w(6) [OF assms(3,4)] t(3) assms(5) by blast
  then obtain cap' rq' where b: "has_receipt X (ms_node M B) conv cap' rq' (pid_to_string X B) None" "provided X H U (ms_node M) conv rq'"
    using inv(2) [OF assms(4)] t(2) unfolding receipts_ok_def requested_def by blast
  have "\<not> leaked H (ms_node M) A conv" using one assms(4) unfolding leaked_def by blast
  then have "rq' = pid_to_string X A" using b(2) assms(3) t(3) unfolding provided_def by blast
  then show ?thesis using r(1,2) rq(1) t(1) one b(1) by blast
qed

end
