(* ===== verification/Kite_Discovery.thy ===== *)
theory Kite_Discovery
  imports Kite_Exchange Kite_Publish
begin

text \<open>
  Discovery across the mesh: a published card travels from the publisher's daemon through a
  directory record and a card fetch into the candidates of a requester's conversation, and a
  search ends after as many answers as it has questions open.
\<close>

section \<open>Open questions of a search\<close>

text \<open>The number of queries and card fetches whose answers a conversation awaits.\<close>

definition open_questions :: "string \<Rightarrow> 'w State \<Rightarrow> nat" where
  "open_questions conv s = card {q. st_pending_lookups s q = Some conv} +
     card {r. st_pending_card_fetches s r = Some conv}"

text \<open>The final answer to an open question: the end of a query, or the response to a fetch.\<close>

fun settles :: "string \<Rightarrow> 'w State \<Rightarrow> Input \<Rightarrow> bool" where
  "settles conv s (InSwarm (BehaviourKademlia (OutboundQueryProgressed q FinishedWithNoAdditionalRecord))) =
     (st_pending_lookups s q = Some conv)"
| "settles conv s (InSwarm (BehaviourKademlia (OutboundQueryProgressed q (GetRecordErr e)))) =
     (st_pending_lookups s q = Some conv)"
| "settles conv s (InSwarm (BehaviourCard (CardResponseMessage r response))) =
     (st_pending_card_fetches s r = Some conv)"
| "settles conv s i = False"

text \<open>A sequence of turns each of which settles an open question of the conversation.\<close>

fun settling :: "ext \<Rightarrow> 'w net \<Rightarrow> string \<Rightarrow> Input list \<Rightarrow> 'w State \<Rightarrow> bool" where
  "settling X N conv [] s = True"
| "settling X N conv (i # is) s =
     (input_ok i \<and> settles conv s i \<and> settling X N conv is (snd (loop_turn X N i s)))"

text \<open>Only finitely many identifiers have been issued.\<close>

definition ledger_finite :: "'w ledger \<Rightarrow> bool" where
  "ledger_finite L \<longleftrightarrow> (\<forall>w. finite (lg_queries L w) \<and> finite (lg_cards L w))"

lemma open_finite:
  assumes "ledger_finite L" "loop_inv X L s"
  shows "finite {q. st_pending_lookups s q = Some conv}" "finite {r. st_pending_card_fetches s r = Some conv}"
proof -
  have "{q. st_pending_lookups s q = Some conv} \<subseteq> lg_queries L (st_swarm s)"
    "{r. st_pending_card_fetches s r = Some conv} \<subseteq> lg_cards L (st_swarm s)"
    using loop_invD(2) [OF assms(2)] by (auto simp: ids_ok_def)
  then show "finite {q. st_pending_lookups s q = Some conv}" "finite {r. st_pending_card_fetches s r = Some conv}"
    using assms(1) finite_subset unfolding ledger_finite_def by metis+
qed

lemma maybe_send_request_pending:
  assumes "maybe_send_request X N conv s = (r, s')"
  shows "st_pending_lookups s' = st_pending_lookups s \<and> st_pending_card_fetches s' = st_pending_card_fetches s \<and>
    st_identity s' = st_identity s"
  using assms by (cases rule: maybe_send_request_cases) (simp_all add: effect_defs)

lemma card_upd_None:
  assumes "finite {k. m k = Some v}" "m k = Some v"
  shows "Suc (card {j. (m(k := None)) j = Some v}) = card {k. m k = Some v}"
proof -
  have "{j. (m(k := None)) j = Some v} = {j. m j = Some v} - {k}" by auto
  then show ?thesis using assms by (metis card_Suc_Diff1 mem_Collect_eq)
qed

lemma finish_lookup_settles:
  assumes "finish_lookup X N q s = (r, s')" "st_pending_lookups s q = Some conv"
  shows "st_pending_lookups s' = (st_pending_lookups s)(q := None)"
    and "st_pending_card_fetches s' = st_pending_card_fetches s" and "st_identity s' = st_identity s"
  using maybe_send_request_pending [of X N conv "lookup_done q conv s" r s'] assms
  by (simp_all add: finish_lookup_eq lookup_done_def)

lemma card_response_settles:
  assumes "handle_card_response X N i response s = (r, s')" "st_pending_card_fetches s i = Some conv"
  shows "st_pending_lookups s' = st_pending_lookups s"
    and "st_pending_card_fetches s' = (st_pending_card_fetches s)(i := None)" and "st_identity s' = st_identity s"
proof -
  have "st_pending_lookups s' = st_pending_lookups s \<and>
    st_pending_card_fetches s' = (st_pending_card_fetches s)(i := None) \<and> st_identity s' = st_identity s"
  proof (cases "st_requesters s conv")
    case None
    then show ?thesis using assms by (auto simp: handle_card_response_def Let_def)
  next
    case (Some req)
    show ?thesis
      using assms(1) maybe_send_request_pending [of X N conv "card_done X i conv req response s" r s']
      unfolding handle_card_response_eq [OF assms(2) Some] by (auto simp: card_done_def split: if_splits)
  qed
  then show "st_pending_lookups s' = st_pending_lookups s"
    "st_pending_card_fetches s' = (st_pending_card_fetches s)(i := None)" "st_identity s' = st_identity s" by simp_all
qed

lemma loop_turn_swarm_None: "loop_turn X N (InSwarm ev) s = (None, s') \<longleftrightarrow> handle_swarm_event X N ev s = (Ok (), s')"
  by (auto split: prod.splits exec.splits)

lemma settles_decreases:
  assumes "ledger_finite L" "loop_inv X L s" "settles conv s i" "loop_turn X N i s = (None, s')"
  shows "Suc (open_questions conv s') = open_questions conv s \<and> st_identity s' = st_identity s"
proof -
  note fin = open_finite [OF assms(1,2), of conv]
  obtain ev where i: "i = InSwarm ev" using assms(3) by (cases "(conv, s, i)" rule: settles.cases) auto
  have h: "handle_swarm_event X N ev s = (Ok (), s')" using assms(4) unfolding i loop_turn_swarm_None .
  consider (q) q where "st_pending_lookups s q = Some conv" "finish_lookup X N q s = (Ok (), s')"
    | (r) r response where "st_pending_card_fetches s r = Some conv" "handle_card_response X N r response s = (Ok (), s')"
    using assms(3) h unfolding i by (cases "(conv, s, InSwarm ev)" rule: settles.cases) auto
  then show ?thesis
  proof cases
    case q
    then show ?thesis using finish_lookup_settles [OF q(2,1)] card_upd_None [OF fin(1) q(1)]
      by (simp add: open_questions_def)
  next
    case r
    then show ?thesis using card_response_settles [OF r(2,1)] card_upd_None [OF fin(2) r(1)]
      by (simp add: open_questions_def)
  qed
qed

lemma settles_swarm: "settles conv s i \<Longrightarrow> \<exists>ev. i = InSwarm ev"
  by (cases "(conv, s, i)" rule: settles.cases) auto

lemma no_question_not_searching:
  assumes "ledger_finite L" "net_fresh N L" "daemon_state X N s" "open_questions conv s = 0"
  shows "phase_of L conv s \<noteq> Searching"
proof
  assume "phase_of L conv s = Searching"
  then obtain req where req: "st_requesters s conv = Some req" "\<not> rs_request_sent req"
    by (auto simp: phase_of_def split: option.splits if_splits)
  note inv = daemon_inv [OF assms(2,3)]
  have "rs_outstanding_dht_queries req = {}" "rs_in_flight_card_fetches req = {}"
    using assms(4) open_finite [OF assms(1) inv(1), of conv] loop_invD(1) [OF inv(1) req(1)]
    by (simp_all add: open_questions_def req_ok_def)
  then show False using inv(2) req by (auto simp: all_busy_def busy_def)
qed

lemma settling_run:
  assumes "net_fresh N L" "ledger_finite L" "sql_works N"
  shows "daemon_state X N s \<Longrightarrow> can_seal X (st_identity s) \<Longrightarrow> settling X N conv is s \<Longrightarrow>
    \<exists>s'. run X N is s = (None, s') \<and> daemon_state X N s' \<and> open_questions conv s' + length is = open_questions conv s"
proof (induction "is" arbitrary: s)
  case (Cons i "is")
  have i: "input_ok i" "settles conv s i" using Cons.prems by simp_all
  obtain ev where ev: "i = InSwarm ev" using settles_swarm [OF i(2)] by blast
  have "\<exists>s1. handle_swarm_event X N ev s = (Ok (), s1)"
    using handle_swarm_event_Ok [OF daemon_inv(1) [OF assms(1) Cons.prems(1)] Cons.prems(2) assms(3)] i(1)
    unfolding ev by (metis prod.collapse)
  then obtain s1 where t: "loop_turn X N i s = (None, s1)" unfolding ev loop_turn_swarm_None by blast
  note d = settles_decreases [OF assms(2) daemon_inv(1) [OF assms(1) Cons.prems(1)] i(2) t]
  obtain s' where "run X N is s1 = (None, s')" "daemon_state X N s'"
    "open_questions conv s' + length is = open_questions conv s1"
    using Cons.IH [OF daemon_turn [OF Cons.prems(1) i(1) t]] d Cons.prems(2,3) t by auto
  then show ?case using t d by auto
qed simp

section \<open>From publication to candidate\<close>

text \<open>Prost decodes what it encoded.\<close>

definition dir_law :: "ext \<Rightarrow> bool" where
  "dir_law X \<longleftrightarrow> (\<forall>r b. enc_dir X r = Inr b \<longrightarrow> dec_dir X b = Inr r)"

lemma hit_fetches:
  assumes "mesh_laws X" "dir_law X" "build_records X c lsh i ttl = Ok pubs" "card_embedding c = Some e" "p \<in> set pubs"
    and "kr_value rec = pub_record_bytes p" "st_requesters s conv = Some req" "card_capability_id c \<notin> rs_seen_capability_ids req"
  shows "\<exists>r w. card_send_request N (st_swarm s) (peer_id X i) \<lparr>cr_capability_id = card_capability_id c\<rparr> = (r, w) \<and>
    on_directory_hit X N rec conv s = (Ok (), s\<lparr>st_swarm := w, st_requesters := (st_requesters s)(conv \<mapsto>
         req\<lparr>rs_seen_capability_ids := insert (card_capability_id c) (rs_seen_capability_ids req),
           rs_in_flight_card_fetches := insert r (rs_in_flight_card_fetches req)\<rparr>),
         st_pending_card_fetches := (st_pending_card_fetches s)(r \<mapsto> conv)\<rparr>)"
proof -
  obtain n sig where b: "build_record X c i ttl (n, sig) = Ok p"
    using build_records_nth [OF assms(3,4)] assms(5) by (metis in_set_conv_nth)
  note f = build_record_fields [OF b]
  have "dec_dir X (kr_value rec) = Inr (pub_record p)" using assms(2,6) f(9) by (simp add: dir_law_def)
  moreover have "verify_record X (pub_record p) = Ok ()" by (rule build_record_verifies [OF mesh_lawsD [OF assms(1)] b])
  moreover have "pid_parse X (dir_peer_id (pub_record p)) = Some (peer_id X i)"
    using f(3) mesh_lawsD(3) [OF assms(1)] by (simp add: pid_law_def)
  moreover obtain r w where "card_send_request N (st_swarm s) (peer_id X i) \<lparr>cr_capability_id = card_capability_id c\<rparr> = (r, w)"
    by force
  ultimately show ?thesis using f assms(7,8) by (simp add: on_directory_hit_def)
qed

text \<open>A record that comes back for an open query makes its card a candidate.\<close>

lemma hit_becomes_candidate:
  assumes "mesh_laws X" "dir_law X" "build_records X c lsh i ttl = Ok pubs" "card_embedding c = Some e" "p \<in> set pubs"
    and "kr_value rec = pub_record_bytes p" "st_requesters A conv = Some req" "card_capability_id c \<notin> rs_seen_capability_ids req"
    and "loop_inv X L A" "st_pending_lookups A q = Some conv" "capability_verify X c = Ok ()"
  shows "\<exists>A1 r A2 req2.
    loop_turn X N (InSwarm (BehaviourKademlia (OutboundQueryProgressed q (FoundRecord rec)))) A = (None, A1) \<and>
    card_send_request N (st_swarm A) (peer_id X i) \<lparr>cr_capability_id = card_capability_id c\<rparr> = (r, st_swarm A1) \<and>
    loop_turn X N (InSwarm (BehaviourCard (CardResponseMessage r (Found c)))) A1 = (None, A2) \<and>
    st_requesters A2 = (st_requesters A)(conv \<mapsto> req2) \<and>
    req2 = req\<lparr>rs_seen_capability_ids := insert (card_capability_id c) (rs_seen_capability_ids req),
      rs_in_flight_card_fetches := rs_in_flight_card_fetches req - {r}, rs_fetched_cards := rs_fetched_cards req @ [c]\<rparr> \<and>
    st_pending_lookups A2 = st_pending_lookups A \<and> st_intent_replies A2 = st_intent_replies A \<and>
    st_identity A2 = st_identity A"
proof -
  obtain r w where r: "card_send_request N (st_swarm A) (peer_id X i) \<lparr>cr_capability_id = card_capability_id c\<rparr> = (r, w)"
    and hit: "on_directory_hit X N rec conv A = (Ok (), A\<lparr>st_swarm := w, st_requesters := (st_requesters A)(conv \<mapsto>
       req\<lparr>rs_seen_capability_ids := insert (card_capability_id c) (rs_seen_capability_ids req),
         rs_in_flight_card_fetches := insert r (rs_in_flight_card_fetches req)\<rparr>),
       st_pending_card_fetches := (st_pending_card_fetches A)(r \<mapsto> conv)\<rparr>)" (is "_ = (Ok (), ?A1)")
    using hit_fetches [OF assms(1-8), of N] by blast
  let ?req = "req\<lparr>rs_seen_capability_ids := insert (card_capability_id c) (rs_seen_capability_ids req),
       rs_in_flight_card_fetches := insert r (rs_in_flight_card_fetches req)\<rparr>"
  let ?A2 = "card_done X r conv ?req (Found c) ?A1"
  have pc: "st_pending_card_fetches ?A1 r = Some conv" "st_requesters ?A1 conv = Some ?req" by simp_all
  have "q \<in> rs_outstanding_dht_queries req" using loop_invD(1) [OF assms(9,7)] assms(10) by (simp add: req_ok_def)
  then have "handle_card_response X N r (Found c) ?A1 = (Ok (), ?A2)" unfolding handle_card_response_eq [OF pc] by auto
  then have "loop_turn X N (InSwarm (BehaviourCard (CardResponseMessage r (Found c)))) ?A1 = (None, ?A2)" by simp
  moreover have "loop_turn X N (InSwarm (BehaviourKademlia (OutboundQueryProgressed q (FoundRecord rec)))) A = (None, ?A1)"
    using hit assms(10) by simp
  moreover have "card_send_request N (st_swarm A) (peer_id X i) \<lparr>cr_capability_id = card_capability_id c\<rparr> = (r, st_swarm ?A1)"
    using r by simp
  moreover have "response_cards X (Found c) = [c]" using assms(11) by (simp add: response_cards_def)
  then have "st_requesters ?A2 = (st_requesters A)(conv \<mapsto> req\<lparr>rs_seen_capability_ids := insert (card_capability_id c) (rs_seen_capability_ids req),
      rs_in_flight_card_fetches := rs_in_flight_card_fetches req - {r}, rs_fetched_cards := rs_fetched_cards req @ [c]\<rparr>)"
    "st_pending_lookups ?A2 = st_pending_lookups A" "st_intent_replies ?A2 = st_intent_replies A"
    "st_identity ?A2 = st_identity A"
    by (simp_all add: card_done_def)
  ultimately show ?thesis by blast
qed

section \<open>Properties\<close>

text \<open>
  C9: a search terminates: every final answer to one of its open questions (the end of a
  directory query, or the response to a card fetch, whatever it contains) closes exactly that
  question, and after as many answers as there were questions the conversation has left the
  search: its REQUEST is out or its caller has been told that nothing matches.
\<close>

theorem search_terminates:
  assumes "net_fresh N L" "ledger_finite L" "sql_works N" "daemon_state X N s" "can_seal X (st_identity s)"
    and "settling X N conv is s"
  shows "\<exists>s'. run X N is s = (None, s') \<and> open_questions conv s' + length is = open_questions conv s \<and>
    (length is = open_questions conv s \<longrightarrow> phase_of L conv s' \<noteq> Searching)"
proof -
  obtain s' where s': "run X N is s = (None, s')" "daemon_state X N s'"
    "open_questions conv s' + length is = open_questions conv s"
    using settling_run [OF assms(1-6)] by blast
  then show ?thesis using no_question_not_searching [OF assms(2,1) s'(2)] by auto
qed

text \<open>
  Discovery works across daemons: a card that daemon \<open>B\<close> publishes becomes a candidate of
  the conversation of a daemon \<open>A\<close> to which the DHT returns one of the records of that
  publication: \<open>A\<close> accepts the record and asks \<open>B\<close>'s peer for the card, \<open>B\<close> answers with the
  published card, and \<open>A\<close> adds it to the candidates that it will rank.
\<close>

lemma published_card_is_found:
  assumes "mesh_laws X" "dir_law X"
    and B: "net_fresh NB LB" "daemon_state X NB B" "can_seal X (st_identity B)" "puts_accepted NB" "capability_verify X c = Ok ()"
    and A: "net_fresh NA LA" "daemon_state X NA A" "st_requesters A conv = Some req" "st_pending_lookups A q = Some conv"
      "card_capability_id c \<notin> rs_seen_capability_ids req"
  shows "\<exists>pubs B'. build_records X c (st_lsh B) (st_identity B) RECORD_TTL_NS = Ok pubs \<and> pubs \<noteq> [] \<and>
    loop_turn X NB (InCommand (Some (PublishCapability c ack))) B = (None, B') \<and>
    (\<forall>p\<in>set pubs. \<forall>rec. kr_value rec = pub_record_bytes p \<longrightarrow>
      (\<exists>A1 r A2 req2.
        loop_turn X NA (InSwarm (BehaviourKademlia (OutboundQueryProgressed q (FoundRecord rec)))) A = (None, A1) \<and>
        card_send_request NA (st_swarm A) (peer_id X (st_identity B)) \<lparr>cr_capability_id = card_capability_id c\<rparr> = (r, st_swarm A1) \<and>
        loop_turn X NB (InSwarm (BehaviourCard (CardRequestMessage \<lparr>cr_capability_id = card_capability_id c\<rparr> ch))) B' =
          (None, B'\<lparr>st_swarm := card_send_response NB (st_swarm B') ch (Found c)\<rparr>) \<and>
        loop_turn X NA (InSwarm (BehaviourCard (CardResponseMessage r (Found c)))) A1 = (None, A2) \<and>
        st_requesters A2 conv = Some req2 \<and> rs_fetched_cards req2 = rs_fetched_cards req @ [c]))"
proof -
  note invB = daemon_inv(1) [OF B(1,2)] and invA = daemon_inv(1) [OF A(1,2)]
  obtain e pubs where pubs: "card_embedding c = Some e"
    "build_records X c (st_lsh B) (st_identity B) RECORD_TTL_NS = Ok pubs" "pubs \<noteq> []"
    using publishable [OF invB B(3,5)] by metis
  obtain B' where B': "publish X NB c ack B = (Ok (), B')" "st_local_cards B' (card_capability_id c) = Some c"
    using publish_offers [OF B(1) invB B(3-5), of ack] by force
  have served: "loop_turn X NB (InSwarm (BehaviourCard (CardRequestMessage \<lparr>cr_capability_id = card_capability_id c\<rparr> ch))) B' =
      (None, B'\<lparr>st_swarm := card_send_response NB (st_swarm B') ch (Found c)\<rparr>)" using B'(2) by simp
  have "loop_turn X NB (InCommand (Some (PublishCapability c ack))) B = (None, B')" using B'(1) by simp
  then show ?thesis
    using pubs(2,3) served hit_becomes_candidate [OF assms(1,2) pubs(2,1) _ _ A(3,5) invA A(4) B(5), of _ _ NA]
    by (intro exI [of _ pubs] exI [of _ B']) fastforce
qed

end
