(* ===== verification/Kite_Skeleton.thy ===== *)
theory Kite_Skeleton
  imports Kite_Discovery
begin

text \<open>
  The walking skeleton, end to end: one daemon publishes a card, another submits an intent that
  the card meets, and the two run from the directory lookup to the receipts. The network is
  the sequence of deliveries: what one side hands to its swarm, the other side receives.
\<close>

section \<open>Opening the search\<close>

lemma get_all_finite: "get_all N conv ks w out pl = (out', pl', w') \<Longrightarrow> finite out \<Longrightarrow> finite out'"
  by (induction ks arbitrary: w out pl) (auto split: prod.splits)

lemma submit_effect:
  assumes "net_fresh N L" "daemon_state X N s" "unit_vec query" "(of_nat (length query) :: u32) = CANONICAL_EMBEDDING_DIM"
  obtains s' conv req where
    "loop_turn X N (InCommand (Some (SubmitIntent required query intent reply))) s = (None, s')"
    "st_requesters s' conv = Some req" "rs_outstanding_dht_queries req = {q. st_pending_lookups s' q = Some conv}"
    "finite (rs_outstanding_dht_queries req)" "rs_outstanding_dht_queries req \<noteq> {}" "\<not> rs_request_sent req"
    "rs_reply req = Some reply" "rs_required req = required" "rs_query_vector req = query" "rs_intent req = intent"
    "rs_fetched_cards req = []" "rs_seen_capability_ids req = {}" "rs_in_flight_card_fetches req = {}"
    "daemon_state X N s'" "st_identity s' = st_identity s" "st_intent_replies s' = st_intent_replies s"
proof -
  note inv = daemon_inv(1) [OF assms(1,2)]
  obtain sigs where "signatures (st_lsh s) query = (Ok sigs :: (bytes list, anyhow) exec)"
    using signatures_Ok [OF loop_invD(4) [OF inv], of query, where 'e = anyhow] loop_invD(5) [OF inv] assms(4) by metis
  moreover obtain r s' where eq: "submit_intent X N required query intent reply s = (r, s')" by force
  ultimately have "r = Ok ()" by (auto simp: submit_intent_def lookup_keys_def split: prod.splits)
  then have s': "submit_intent X N required query intent reply s = (Ok (), s')" using eq by simp
  then have t: "loop_turn X N (InCommand (Some (SubmitIntent required query intent reply))) s = (None, s')" by simp
  have d: "daemon_state X N s'" using daemon_turn [OF assms(2) _ t] assms(3) by simp
  from s' show thesis
  proof (cases rule: submit_intent_cases)
    case (opened keys conv w1 out pl w2 t' w3 req)
    have r: "st_requesters s' conv = Some req" using opened(6) by simp
    have "rs_outstanding_dht_queries req = {q. st_pending_lookups s' q = Some conv}"
      using loop_invD(1) [OF daemon_inv(1) [OF assms(1) d] r] by (simp add: req_ok_def)
    moreover have "finite (rs_outstanding_dht_queries req)" using get_all_finite [OF opened(4)] opened(9) by simp
    moreover have "rs_outstanding_dht_queries req \<noteq> {}"
      using daemon_inv(2) [OF assms(1) d] r opened(7,15) by (auto simp: all_busy_def busy_def)
    ultimately show thesis using that [OF t r] opened(6-15) d by simp
  qed simp
qed

section \<open>Ending the search\<close>

abbreviation lookup_ended :: "QueryId \<Rightarrow> Input" where
  "lookup_ended q \<equiv> InSwarm (BehaviourKademlia (OutboundQueryProgressed q FinishedWithNoAdditionalRecord))"

text \<open>While another query is open, the end of a query only closes it.\<close>

lemma lookups_end:
  assumes "distinct (Q @ [q])" "set (Q @ [q]) = {q. st_pending_lookups s q = Some conv}"
    and "st_requesters s conv = Some req" "rs_outstanding_dht_queries req = set (Q @ [q])"
  shows "\<exists>s'. run X N (map lookup_ended Q) s = (None, s') \<and> st_pending_lookups s' q = Some conv \<and>
    st_requesters s' = (st_requesters s)(conv \<mapsto> req\<lparr>rs_outstanding_dht_queries := {q}\<rparr>) \<and>
    st_intent_replies s' = st_intent_replies s \<and> st_identity s' = st_identity s"
  using assms
proof (induction Q arbitrary: s req)
  case Nil
  then show ?case by (auto simp: fun_upd_idem)
next
  case (Cons p Q)
  let ?s1 = "lookup_done p conv s" and ?req = "req\<lparr>rs_outstanding_dht_queries := set (Q @ [q])\<rparr>"
  have p: "st_pending_lookups s p = Some conv" "p \<noteq> q" "p \<notin> set Q" using Cons.prems(1,2) by auto
  have s1: "st_requesters ?s1 = (st_requesters s)(conv \<mapsto> ?req)"
    "st_pending_lookups ?s1 = (st_pending_lookups s)(p := None)"
    "st_intent_replies ?s1 = st_intent_replies s" "st_identity ?s1 = st_identity s"
    using Cons.prems(3,4) p by (simp_all add: lookup_done_def insert_Diff_if)
  have "maybe_send_request X N conv ?s1 = (Ok (), ?s1)" using s1(1) by (simp add: maybe_send_request_def)
  then have t: "loop_turn X N (lookup_ended p) s = (None, ?s1)" using p(1) by (simp add: finish_lookup_eq)
  have "set (Q @ [q]) = {q. st_pending_lookups ?s1 q = Some conv}" using Cons.prems(2) s1(2) p by auto
  moreover have "distinct (Q @ [q])" "st_requesters ?s1 conv = Some ?req" using Cons.prems(1) s1(1) by simp_all
  ultimately obtain s' where "run X N (map lookup_ended Q) ?s1 = (None, s')"
    "st_pending_lookups s' q = Some conv" "st_requesters s' = (st_requesters s)(conv \<mapsto> ?req\<lparr>rs_outstanding_dht_queries := {q}\<rparr>)"
    "st_intent_replies s' = st_intent_replies s" "st_identity s' = st_identity s"
    using Cons.IH [of ?s1 ?req] unfolding s1(1,3,4) fun_upd_upd by force
  then show ?case using t by (simp add: fun_upd_def)
qed

lemma rerank_scores:
  assumes "rankable q cs" "rerank fb r q cs = (Ok ys :: (ScoredCandidate list, 'e) exec)"
    and "s \<in> set ys" "card_embedding (sc_card s) = Some e"
  shows "sc_score s = dot q (emb_vector e)"
proof -
  obtain ss where "\<forall>s\<in>set ss. score_card r q (sc_card s) = (Ok s :: (ScoredCandidate, 'e) exec)"
    "rerank fb r q cs = (Ok (isort_cmp scored_cmp ss) :: (ScoredCandidate list, 'e) exec)"
    by (rule rerank_Ok [OF assms(1)])
  then show ?thesis using assms(2-4) score_card_Ok(3) by (metis exec.inject(1) scored.set_isort)
qed

text \<open>The end of the last query with one candidate that matches: the REQUEST is sent to its agent.\<close>

lemma single_match_requested:
  assumes "mesh_laws X" "loop_inv X L s" "can_seal X (st_identity s)" "st_requesters s conv = Some req"
    and "\<not> rs_request_sent req" "rs_outstanding_dht_queries req = {}" "rs_in_flight_card_fetches req = {}"
    and "rs_fetched_cards req = [c]" "card_facets c = Some f" "facets_match (rs_required req) f"
    and "pid_parse X (card_agent_id c) = Some provider" "card_embedding c = Some e"
  obtains s' req' m i w where "maybe_send_request X N conv s = (Ok (), s')" "st_requesters s' conv = Some req'"
    "rs_intent req' = rs_intent req" "rs_reply req' = rs_reply req" "rs_provider_peer req' = Some provider"
    "rs_chosen_capability_id req' = Some (card_capability_id c)"
    "rs_chosen_score req' = dot (rs_query_vector req) (emb_vector e)" "st_pending_acl_round1 s' i = Some conv"
    "acl_send_request N w provider m = (i, st_swarm s')" "acl_verify X m = Ok ()" "performative_of m = Request"
    "acl_conversation_id m = conv" "acl_payload m = Some (PIntent (rs_intent req))"
    "st_intent_replies s' = st_intent_replies s" "st_identity s' = st_identity s"
proof -
  have ok: "vec_ok (rs_query_vector req)" "\<And>d. d \<in> set (rs_fetched_cards req) \<Longrightarrow> card_ok X d"
    using loop_invD(1) [OF assms(2,4)] by (auto simp: req_ok_def)
  obtain r s' where eq: "maybe_send_request X N conv s = (r, s')" by force
  then show thesis
  proof (cases rule: maybe_send_request_cases)
    case idle
    then show thesis using assms(4-7) by auto
  next
    case (panic req' p)
    then show thesis using rerank_defined [OF assms(2) panic(1), where 'e = anyhow and fb = "sort_unspecified N"] by auto
  next
    case (nomatch req' scored)
    have q: "req' = req" using nomatch(1) assms(4) by simp
    show thesis using rerank_choice [OF rankable_ok [OF ok] nomatch(4) [unfolded q]] nomatch(5) assms(8-10) by simp
  next
    case (badpeer req' scored best)
    then show thesis using rerank_chosen(1) [OF assms(2) badpeer(1-3)] assms(4,8,11) by auto
  next
    case (failed req' t w1 u w2 e)
    then show thesis using assms(3) by blast
  next
    case (sent req' scored best prov t w1 u w2 now w3 msg rid w4)
    have q: "req' = req" using sent(1) assms(4) by simp
    have b: "sc_card best = c" using rerank_chosen(1) [OF assms(2) sent(1,6,7)] q assms(8) by simp
    have p: "prov = provider" using sent(8) b assms(11) by simp
    have "best \<in> set scored" using sent(7) by (auto simp: find_Some_iff)
    from rerank_scores [OF rankable_ok [OF ok] sent(6) [unfolded q] this] b assms(12)
    have sc: "sc_score best = dot (rs_query_vector req) (emb_vector e)" by simp
    note m = sent(11) [unfolded acl_request_def]
    have "acl_verify X msg = Ok ()" by (rule acl_build_verifies [OF mesh_lawsD [OF assms(1)] m])
    then show thesis using that [of s' _ rid w3 msg] eq sent(2,13,14) acl_build_fields [OF m] b p q sc
      by (simp add: upd_metrics_def performative_of_def acl_new_def)
  qed
qed

text \<open>
  A search whose only hit is a record of a matching card ends with a REQUEST to the card's agent.
\<close>

lemma daemon_run:
  "daemon_state X N s \<Longrightarrow> list_all input_ok is \<Longrightarrow> run X N is s = (None, s') \<Longrightarrow> daemon_state X N s'"
  unfolding daemon_state_def using run_reachable by metis

lemma run_append_None: "run X N is s = (None, s1) \<Longrightarrow> run X N (is @ js) s = run X N js s1"
  by (simp add: run_append)

lemma last_lookup_requests:
  assumes "mesh_laws X" "net_fresh N L" "daemon_state X N s" "can_seal X (st_identity s)"
    and "st_pending_lookups s q = Some conv" "st_requesters s conv = Some req" "\<not> rs_request_sent req"
    and "rs_outstanding_dht_queries req = {q}" "rs_in_flight_card_fetches req = {}" "rs_fetched_cards req = [c]"
    and "card_facets c = Some f" "facets_match (rs_required req) f"
    and "pid_parse X (card_agent_id c) = Some provider" "card_embedding c = Some e"
  obtains s' req' m i w where "loop_turn X N (lookup_ended q) s = (None, s')" "st_requesters s' conv = Some req'"
    "rs_intent req' = rs_intent req" "rs_reply req' = rs_reply req" "rs_provider_peer req' = Some provider"
    "rs_chosen_capability_id req' = Some (card_capability_id c)"
    "rs_chosen_score req' = dot (rs_query_vector req) (emb_vector e)" "st_pending_acl_round1 s' i = Some conv"
    "acl_send_request N w provider m = (i, st_swarm s')" "acl_verify X m = Ok ()" "performative_of m = Request"
    "acl_conversation_id m = conv" "acl_payload m = Some (PIntent (rs_intent req))"
    "st_intent_replies s' = st_intent_replies s" "st_identity s' = st_identity s"
proof -
  let ?s1 = "lookup_done q conv s" and ?req = "req\<lparr>rs_outstanding_dht_queries := {}\<rparr>"
  have s1: "st_requesters ?s1 conv = Some ?req" "st_identity ?s1 = st_identity s" "st_intent_replies ?s1 = st_intent_replies s"
    using assms(6,8) by (simp_all add: lookup_done_def)
  note inv = lookup_done_inv [OF daemon_inv(1) [OF assms(2,3)] assms(5)]
  show thesis
  proof (rule single_match_requested [where N = N, OF assms(1) inv _ s1(1) _ _ _ _ assms(11) _ assms(13,14)], goal_cases)
    case (7 s' req' m i w)
    then show thesis using that [of s' req' i w m] assms(5) s1(2,3) by (simp add: finish_lookup_eq)
  qed (use assms(4,7,9,10,12) s1(2) in simp_all)
qed

lemma search_requests:
  assumes "mesh_laws X" "dir_law X" "net_fresh N L" "daemon_state X N A" "can_seal X (st_identity A)"
    and card: "build_records X c lsh b ttl = Ok pubs" "capability_verify X c = Ok ()" "card_facets c = Some f"
      "card_embedding c = Some e" "unit_vec (emb_vector e)" "card_agent_id c = pid_to_string X (peer_id X b)"
    and req: "st_requesters A conv = Some req" "\<not> rs_request_sent req" "rs_fetched_cards req = []"
      "rs_seen_capability_ids req = {}" "rs_in_flight_card_fetches req = {}" "facets_match (rs_required req) f"
    and Q: "distinct Q" "set Q = {q. st_pending_lookups A q = Some conv}" "q \<in> set Q"
    and rec: "p \<in> set pubs" "kr_value rec = pub_record_bytes p"
  obtains A1 r A2 req' m i w where
    "loop_turn X N (InSwarm (BehaviourKademlia (OutboundQueryProgressed q (FoundRecord rec)))) A = (None, A1)"
    "card_send_request N (st_swarm A) (peer_id X b) \<lparr>cr_capability_id = card_capability_id c\<rparr> = (r, st_swarm A1)"
    "run X N (InSwarm (BehaviourCard (CardResponseMessage r (Found c))) # map lookup_ended Q) A1 = (None, A2)"
    "daemon_state X N A2" "st_requesters A2 conv = Some req'"
    "rs_intent req' = rs_intent req" "rs_reply req' = rs_reply req" "rs_provider_peer req' = Some (peer_id X b)"
    "rs_chosen_capability_id req' = Some (card_capability_id c)"
    "rs_chosen_score req' = dot (rs_query_vector req) (emb_vector e)" "st_pending_acl_round1 A2 i = Some conv"
    "acl_send_request N w (peer_id X b) m = (i, st_swarm A2)" "acl_verify X m = Ok ()" "performative_of m = Request"
    "acl_conversation_id m = conv" "acl_payload m = Some (PIntent (rs_intent req))"
    "st_intent_replies A2 = st_intent_replies A" "st_identity A2 = st_identity A"
proof -
  let ?resp = "\<lambda>r. InSwarm (BehaviourCard (CardResponseMessage r (Found c)))"
  note inv = daemon_inv(1) [OF assms(3,4)]
  have q: "st_pending_lookups A q = Some conv" and out: "rs_outstanding_dht_queries req = set Q"
    using Q(2,3) loop_invD(1) [OF inv req(1)] by (auto simp: req_ok_def)
  obtain A1 r A2 req2 where
    t1: "loop_turn X N (InSwarm (BehaviourKademlia (OutboundQueryProgressed q (FoundRecord rec)))) A = (None, A1)"
    and r: "card_send_request N (st_swarm A) (peer_id X b) \<lparr>cr_capability_id = card_capability_id c\<rparr> = (r, st_swarm A1)"
    and t2: "loop_turn X N (?resp r) A1 = (None, A2)" and A2: "st_requesters A2 conv = Some req2"
      "st_pending_lookups A2 = st_pending_lookups A" "st_intent_replies A2 = st_intent_replies A" "st_identity A2 = st_identity A"
    and req2: "req2 = req\<lparr>rs_seen_capability_ids := insert (card_capability_id c) (rs_seen_capability_ids req),
      rs_in_flight_card_fetches := rs_in_flight_card_fetches req - {r}, rs_fetched_cards := rs_fetched_cards req @ [c]\<rparr>"
    using hit_becomes_candidate [OF assms(1,2) card(1,4) rec req(1) _ inv q card(2), of N] req(4) by auto
  have d2: "daemon_state X N A2" using daemon_turn [OF daemon_turn [OF assms(4) _ t1] _ t2] card(4,5) by simp
  obtain Q' l where Q': "Q = Q' @ [l]" using Q(3) by (metis empty_iff empty_set rev_exhaust)
  obtain A3 where A3: "run X N (map lookup_ended Q') A2 = (None, A3)" "st_pending_lookups A3 l = Some conv"
    "st_requesters A3 conv = Some (req2\<lparr>rs_outstanding_dht_queries := {l}\<rparr>)" "st_intent_replies A3 = st_intent_replies A"
    "st_identity A3 = st_identity A"
    using lookups_end [of Q' l A2 conv req2 X N] Q(1,2) A2 req2 out unfolding Q' by auto
  have d3: "daemon_state X N A3" using daemon_run [OF d2 _ A3(1)] by (simp add: list_all_iff)
  have pid: "pid_parse X (card_agent_id c) = Some (peer_id X b)"
    using card(6) mesh_lawsD(3) [OF assms(1)] by (simp add: pid_law_def)
  have fin: "run X N (?resp r # map lookup_ended Q) A1 = (None, s)" if "loop_turn X N (lookup_ended l) A3 = (None, s)" for s
    using t2 that run_append_None [OF A3(1), of "[lookup_ended l]"] unfolding Q' by simp
  show thesis
  proof (rule last_lookup_requests [OF assms(1,3) d3 _ A3(2,3) _ _ _ _ card(3) _ pid card(4)], goal_cases)
    case (7 s m i w req')
    show thesis
      by (rule that [OF t1 r fin [OF 7(1)] daemon_turn [OF d3 _ 7(1)] 7(2)]) (use 7 req2 A3 in simp_all)
  qed (use assms(5) A3(5) req req2 in simp_all)
qed

section \<open>The exchange as turns of the two loops\<close>

text \<open>
  The messages of a conversation, delivered: daemon \<open>B\<close> receives the REQUEST that \<open>A\<close> sent as
  \<open>i\<close>, \<open>A\<close> receives what \<open>B\<close> responds, and so on to the INFORM. Each message is the one that the
  other side handed to its swarm.
\<close>

definition exchange :: "ext \<Rightarrow> 'a net \<Rightarrow> 'b net \<Rightarrow> ResponseChannel \<Rightarrow> ResponseChannel \<Rightarrow> OutboundRequestId \<Rightarrow> AclMessage \<Rightarrow>
    'a State \<Rightarrow> 'b State \<Rightarrow> AclMessage \<Rightarrow> 'a State \<Rightarrow> 'b State \<Rightarrow> bool" where
  "exchange X NA NB ch ch' i m1 A B m4 A' B' \<longleftrightarrow> (let a = peer_id X (st_identity A); b = peer_id X (st_identity B) in
     \<exists>B1 m2 w2 A1 m3 w3 j w4.
       loop_turn X NB (InSwarm (BehaviourAcl (AclRequestMessage a m1 ch))) B = (None, B1) \<and>
       st_swarm B1 = acl_send_response NB w2 ch m2 \<and>
       loop_turn X NA (InSwarm (BehaviourAcl (AclResponseMessage b i m2))) A = (None, A1) \<and>
       acl_send_request NA w3 b m3 = (j, st_swarm A1) \<and>
       loop_turn X NB (InSwarm (BehaviourAcl (AclRequestMessage a m3 ch'))) B1 = (None, B') \<and>
       (\<exists>t w5. sys_clock NB (acl_send_response NB w4 ch' m4) = (t, w5) \<and> sql_outcome NB w5 = (None, st_swarm B')) \<and>
       loop_turn X NA (InSwarm (BehaviourAcl (AclResponseMessage b j m4))) A1 = (None, A'))"

lemma acl_turn:
  "on_acl_request X N peer m ch s = (Ok (), s') \<Longrightarrow>
    loop_turn X N (InSwarm (BehaviourAcl (AclRequestMessage peer m ch))) s = (None, s')"
  "on_acl_response X N peer i m s = (Ok (), s') \<Longrightarrow>
    loop_turn X N (InSwarm (BehaviourAcl (AclResponseMessage peer i m))) s = (None, s')"
  by simp_all

lemma exchange_done:
  assumes "mesh_laws X" and A: "daemon_state X NA A" "net_fresh NA LA" "can_seal X (st_identity A)" "sql_works NA"
    and B: "can_seal X (st_identity B)" "sql_works NB" "hash_first NB (st_swarm B) (st_local_cards B) = Some cap"
    and req: "st_pending_acl_round1 A i = Some conv" "st_requesters A conv = Some req"
      "rs_provider_peer req = Some (peer_id X (st_identity B))" "rs_chosen_capability_id req = Some chosen" "rs_reply req = Some reply"
    and m: "acl_verify X m = Ok ()" "performative_of m = Request" "acl_conversation_id m = conv"
      "acl_payload m = Some (PIntent (rs_intent req))"
  shows "\<exists>m' A' B'. exchange X NA NB ch ch' i m A B m' A' B' \<and>
    acl_payload m' = Some (PResult \<lparr>res_conversation_id = conv,
      res_payload = (if int_payload (rs_intent req) = [] then empty_payload else int_payload (rs_intent req)),
      res_status = result_status_as_i32 ROk, res_error_message = ''''\<rparr>) \<and>
    st_intent_replies A' = st_intent_replies A @
      [(reply, Ok \<lparr>out_conversation_id = conv, out_matched_capability_id = chosen, out_cosine_score = rs_chosen_score req\<rparr>)] \<and>
    has_receipt X A' conv chosen (pid_to_string X (peer_id X (st_identity A)))
      (pid_to_string X (peer_id X (st_identity B))) (Some (acl_signature m')) \<and>
    has_receipt X B' conv cap (pid_to_string X (peer_id X (st_identity A)))
      (pid_to_string X (peer_id X (st_identity B))) None"
proof -
  have q: "provider = peer_id X (st_identity B)" "cap' = chosen" "rp = reply"
    if "rs_provider_peer req = Some provider" "rs_chosen_capability_id req = Some cap'" "rs_reply req = Some rp"
    for provider cap' rp using that req(3-5) by simp_all
  from exchange_steps [OF assms(1) A B req(1,2) m, of ch ch'] show ?thesis
    unfolding exchange_def Let_def by (elim exE conjE) (blast intro: acl_turn dest: q)
qed

text \<open>From a record of \<open>B\<close>'s card, returned to an open search of \<open>A\<close>, to the receipts.\<close>

lemma hit_completes:
  assumes laws: "mesh_laws X" "dir_law X"
    and A: "net_fresh NA LA" "daemon_state X NA A" "can_seal X (st_identity A)" "sql_works NA"
    and B: "can_seal X (st_identity B)" "sql_works NB" "hash_first NB (st_swarm B) (st_local_cards B) = Some cap"
    and card: "build_records X c lsh (st_identity B) ttl = Ok pubs" "capability_verify X c = Ok ()" "card_facets c = Some f"
      "card_embedding c = Some e" "unit_vec (emb_vector e)" "card_agent_id c = pid_to_string X (peer_id X (st_identity B))"
      "card_capability_id c = cap"
    and req: "st_requesters A conv = Some req" "\<not> rs_request_sent req" "rs_fetched_cards req = []"
      "rs_seen_capability_ids req = {}" "rs_in_flight_card_fetches req = {}" "facets_match (rs_required req) f"
      "rs_reply req = Some reply"
    and Q: "distinct Q" "set Q = {q. st_pending_lookups A q = Some conv}" "q \<in> set Q"
    and rec: "p \<in> set pubs" "kr_value rec = pub_record_bytes p"
  shows "\<exists>A2 r A3 w i m m' A4 B3.
    loop_turn X NA (InSwarm (BehaviourKademlia (OutboundQueryProgressed q (FoundRecord rec)))) A = (None, A2) \<and>
    card_send_request NA (st_swarm A) (peer_id X (st_identity B)) \<lparr>cr_capability_id = cap\<rparr> = (r, st_swarm A2) \<and>
    run X NA (InSwarm (BehaviourCard (CardResponseMessage r (Found c))) # map lookup_ended Q) A2 = (None, A3) \<and>
    acl_send_request NA w (peer_id X (st_identity B)) m = (i, st_swarm A3) \<and>
    exchange X NA NB ch ch' i m A3 B m' A4 B3 \<and>
    acl_payload m' = Some (PResult \<lparr>res_conversation_id = conv,
      res_payload = (if int_payload (rs_intent req) = [] then empty_payload else int_payload (rs_intent req)),
      res_status = result_status_as_i32 ROk, res_error_message = ''''\<rparr>) \<and>
    st_intent_replies A4 = st_intent_replies A @ [(reply, Ok \<lparr>out_conversation_id = conv,
      out_matched_capability_id = cap, out_cosine_score = dot (rs_query_vector req) (emb_vector e)\<rparr>)] \<and>
    has_receipt X A4 conv cap (pid_to_string X (peer_id X (st_identity A)))
      (pid_to_string X (peer_id X (st_identity B))) (Some (acl_signature m')) \<and>
    has_receipt X B3 conv cap (pid_to_string X (peer_id X (st_identity A)))
      (pid_to_string X (peer_id X (st_identity B))) None"
proof (rule search_requests [OF laws A(1-3) card(1-6) req(1-6) Q rec], goal_cases)
  case (1 A2 r A3 req' m i w)
  note eqs = 1(6,10,17,18)
  have r: "rs_reply req' = Some reply" "can_seal X (st_identity A3)" "acl_payload m = Some (PIntent (rs_intent req'))"
    using 1(6,7,16,18) req(7) A(3) by simp_all
  note x = exchange_done [OF laws(1) 1(4) A(1) r(2) A(4) B 1(11,5) 1(8) 1(9) r(1) 1(13-15) r(3), of ch ch', unfolded eqs card(7)]
  show ?case
    using 1(1-3,12) x unfolding card(7) by blast
qed

section \<open>Properties\<close>

text \<open>
  C1: the walking skeleton, end to end. Daemon \<open>B\<close> builds a card and publishes it; daemon \<open>A\<close>
  submits an intent whose requirements the card meets, and opens directory queries. When any of
  these queries returns any of the records that \<open>B\<close> published, \<open>A\<close> asks \<open>B\<close> for the card, \<open>B\<close> answers
  with it, and once the queries have ended \<open>A\<close> sends a REQUEST to \<open>B\<close>; the exchange that
  follows ends with the caller of \<open>A\<close> answered with the card's capability and the cosine of query
  and card, the intent's payload echoed, and a verifying receipt of the conversation and this
  capability stored on both sides.
\<close>

theorem walking_skeleton:
  assumes laws: "mesh_laws X" "dir_law X"
    and B: "net_fresh NB LB" "daemon_state X NB B" "can_seal X (st_identity B)" "sql_works NB" "puts_accepted NB"
      "st_local_cards B = Map.empty" "\<forall>w. hash_first NB w [cap \<mapsto> c] = Some cap"
    and card: "capability_build X t (st_identity B) cap nm ver f desc v ttl = Ok c" "unit_vec v"
    and A: "net_fresh NA LA" "daemon_state X NA A" "can_seal X (st_identity A)" "sql_works NA"
    and query: "facets_match required f" "unit_vec query" "(of_nat (length query) :: u32) = CANONICAL_EMBEDDING_DIM"
  shows "\<exists>pubs B1 A1 conv Q. build_records X c (st_lsh B) (st_identity B) RECORD_TTL_NS = Ok pubs \<and> pubs \<noteq> [] \<and>
    loop_turn X NB (InCommand (Some (PublishCapability c ack))) B = (None, B1) \<and>
    loop_turn X NA (InCommand (Some (SubmitIntent required query intent reply))) A = (None, A1) \<and>
    distinct Q \<and> Q \<noteq> [] \<and> set Q = {q. st_pending_lookups A1 q = Some conv} \<and>
    (\<forall>q\<in>set Q. \<forall>p\<in>set pubs. \<forall>rec. kr_value rec = pub_record_bytes p \<longrightarrow> (\<exists>A2 r B2 A3 w i m m' A4 B3.
      loop_turn X NA (InSwarm (BehaviourKademlia (OutboundQueryProgressed q (FoundRecord rec)))) A1 = (None, A2) \<and>
      card_send_request NA (st_swarm A1) (peer_id X (st_identity B)) \<lparr>cr_capability_id = cap\<rparr> = (r, st_swarm A2) \<and>
      loop_turn X NB (InSwarm (BehaviourCard (CardRequestMessage \<lparr>cr_capability_id = cap\<rparr> ch0))) B1 = (None, B2) \<and>
      st_swarm B2 = card_send_response NB (st_swarm B1) ch0 (Found c) \<and>
      run X NA (InSwarm (BehaviourCard (CardResponseMessage r (Found c))) # map lookup_ended Q) A2 = (None, A3) \<and>
      acl_send_request NA w (peer_id X (st_identity B)) m = (i, st_swarm A3) \<and>
      exchange X NA NB ch ch' i m A3 B2 m' A4 B3 \<and>
      acl_payload m' = Some (PResult \<lparr>res_conversation_id = conv,
        res_payload = (if int_payload intent = [] then empty_payload else int_payload intent),
        res_status = result_status_as_i32 ROk, res_error_message = ''''\<rparr>) \<and>
      st_intent_replies A4 = st_intent_replies A @
        [(reply, Ok \<lparr>out_conversation_id = conv, out_matched_capability_id = cap, out_cosine_score = dot query v\<rparr>)] \<and>
      has_receipt X A4 conv cap (pid_to_string X (peer_id X (st_identity A)))
        (pid_to_string X (peer_id X (st_identity B))) (Some (acl_signature m')) \<and>
      has_receipt X B3 conv cap (pid_to_string X (peer_id X (st_identity A)))
        (pid_to_string X (peer_id X (st_identity B))) None))"
proof -
  note invB = daemon_inv(1) [OF B(1,2)]
  have c: "capability_verify X c = Ok ()" "card_facets c = Some f" "card_capability_id c = cap"
    "card_agent_id c = pid_to_string X (peer_id X (st_identity B))"
    using capability_build_verifies [OF mesh_lawsD [OF laws(1)] card(1)] capability_build_Ok_iff [OF card(1)] by simp_all
  obtain e where e: "card_embedding c = Some e" "emb_vector e = v" using capability_build_Ok_iff [OF card(1)] by blast
  obtain pubs where pubs: "build_records X c (st_lsh B) (st_identity B) RECORD_TTL_NS = Ok pubs" "pubs \<noteq> []"
    using publishable [OF invB B(3) c(1)] by metis
  obtain B1 where B1: "publish X NB c ack B = (Ok (), B1)" "st_local_cards B1 = [cap \<mapsto> c]" "st_identity B1 = st_identity B"
    using publish_offers [OF B(1) invB B(3,5) c(1), of ack] B(6) c(3) by force
  obtain A1 conv req where sub: "loop_turn X NA (InCommand (Some (SubmitIntent required query intent reply))) A = (None, A1)"
    and req: "st_requesters A1 conv = Some req" "rs_outstanding_dht_queries req = {q. st_pending_lookups A1 q = Some conv}"
    "finite (rs_outstanding_dht_queries req)" "rs_outstanding_dht_queries req \<noteq> {}" "\<not> rs_request_sent req"
    "rs_reply req = Some reply" "rs_required req = required" "rs_query_vector req = query" "rs_intent req = intent"
    "rs_fetched_cards req = []" "rs_seen_capability_ids req = {}" "rs_in_flight_card_fetches req = {}"
    and A1: "daemon_state X NA A1" "st_identity A1 = st_identity A" "st_intent_replies A1 = st_intent_replies A"
    using submit_effect [OF A(1,2) query(2,3)] by metis
  obtain Q where Q: "distinct Q" "set Q = {q. st_pending_lookups A1 q = Some conv}" "Q \<noteq> []"
    using req(2-4) finite_distinct_list by (metis set_empty)
  let ?B2 = "B1\<lparr>st_swarm := card_send_response NB (st_swarm B1) ch0 (Found c)\<rparr>"
  have served: "loop_turn X NB (InSwarm (BehaviourCard (CardRequestMessage \<lparr>cr_capability_id = cap\<rparr> ch0))) B1 = (None, ?B2)"
    and B2: "st_identity ?B2 = st_identity B" "st_swarm ?B2 = card_send_response NB (st_swarm B1) ch0 (Found c)"
    using B1(2,3) by simp_all
  show ?thesis
  proof (rule exI [of _ pubs], rule exI [of _ B1], rule exI [of _ A1], rule exI [of _ conv], rule exI [of _ Q],
      intro conjI ballI allI impI, goal_cases)
    case (8 q p rec)
    have b: "can_seal X (st_identity ?B2)" "hash_first NB (st_swarm ?B2) (st_local_cards ?B2) = Some cap" "can_seal X (st_identity A1)"
      "build_records X c (st_lsh B) (st_identity ?B2) RECORD_TTL_NS = Ok pubs"
      "card_agent_id c = pid_to_string X (peer_id X (st_identity ?B2))" "unit_vec (emb_vector e)" "facets_match (rs_required req) f"
      using B1(2,3) B(3,7) A(3) A1(2) pubs(1) c(4) card(2) e(2) query(1) req(7) by simp_all
    from hit_completes [OF laws A(1) A1(1) b(3) A(4) b(1) B(4) b(2,4) c(1,2) e(1) b(6,5) c(3) req(1,5,10-12) b(7) req(6) Q(1,2) 8,
      where ch = ch and ch' = ch', unfolded A1(2,3) e(2) req(8,9) B2(1)]
    show ?case using served B2(2) by blast
  qed (use pubs B1(1) sub Q in simp_all)
qed

end
