(* ===== verification/Kite_Discovery_Witness.thy ===== *)
theory Kite_Discovery_Witness
  imports Kite_Discovery Kite_Instance
begin

text \<open>
  The properties of discovery applied at the concrete instance, with directory records encoded
  field by field so that the decoder inverts the encoder.
\<close>

section \<open>An encoding of directory records\<close>

fun put_field :: "bytes \<Rightarrow> bytes" where
  "put_field [] = [0]"
| "put_field (x # xs) = 1 # x # put_field xs"

fun get_field :: "bytes \<Rightarrow> (bytes \<times> bytes) option" where
  "get_field (t # bs) = (if t = 0 then Some ([], bs) else (case bs of [] \<Rightarrow> None
     | x # cs \<Rightarrow> (case get_field cs of None \<Rightarrow> None | Some (f, r) \<Rightarrow> Some (x # f, r))))"
| "get_field [] = None"

fun get_fields :: "nat \<Rightarrow> bytes \<Rightarrow> bytes list option" where
  "get_fields 0 bs = Some []"
| "get_fields (Suc n) bs = (case get_field bs of None \<Rightarrow> None
     | Some (f, r) \<Rightarrow> map_option (\<lambda>fs. f # fs) (get_fields n r))"

definition dir_fields :: "DirectoryRecord \<Rightarrow> bytes list" where
  "dir_fields r = [as_bytes (dir_capability_id r), as_bytes (dir_agent_id r), as_bytes (dir_peer_id r),
     dir_facet_fingerprint r, as_bytes (dir_model_id r), replicate (unat (dir_table_id r)) 0, dir_hash_code r,
     as_bytes (dir_status r), replicate (unat (dir_ttl_ns r)) 0, dir_signature r,
     replicate (unat (dir_protocol_version r)) 0, dir_publisher_public_key r]"

definition dir_of_fields :: "bytes list \<Rightarrow> DirectoryRecord" where
  "dir_of_fields fs = \<lparr>dir_capability_id = key_text (fs ! 0), dir_agent_id = key_text (fs ! 1),
     dir_peer_id = key_text (fs ! 2), dir_facet_fingerprint = fs ! 3, dir_model_id = key_text (fs ! 4),
     dir_table_id = of_nat (length (fs ! 5)), dir_hash_code = fs ! 6, dir_status = key_text (fs ! 7),
     dir_ttl_ns = of_nat (length (fs ! 8)), dir_signature = fs ! 9,
     dir_protocol_version = of_nat (length (fs ! 10)), dir_publisher_public_key = fs ! 11\<rparr>"

definition wXd :: ext where
  "wXd = wX\<lparr>enc_dir := (\<lambda>r. Inr (concat (map put_field (dir_fields r)))),
     dec_dir := (\<lambda>b. case get_fields 12 b of None \<Rightarrow> Inl ''bad record'' | Some fs \<Rightarrow> Inr (dir_of_fields fs))\<rparr>"

lemma get_put_field [simp]: "get_field (put_field f @ r) = Some (f, r)"
  by (induction f) auto

lemma get_put_fields: "get_fields (length fs) (concat (map put_field fs)) = Some fs"
  by (induction fs) auto

lemma key_text_as_bytes [simp]: "key_text (as_bytes s) = s"
  using as_bytes_inject [of "key_text (as_bytes s)" s] by simp

lemma dir_of_dir_fields: "dir_of_fields (dir_fields r) = r"
  by (simp add: dir_of_fields_def dir_fields_def)

lemma wXd_law: "dir_law wXd"
proof -
  have "get_fields 12 (concat (map put_field (dir_fields r))) = Some (dir_fields r)" for r
  proof -
    have "length (dir_fields r) = 12" by (simp add: dir_fields_def)
    then show ?thesis using get_put_fields [of "dir_fields r"] by simp
  qed
  then show ?thesis by (auto simp: dir_law_def wXd_def dir_of_dir_fields)
qed

section \<open>Two daemons\<close>

lemma wXd_mesh: "mesh_laws wXd" "can_seal wXd i"
  using wX_laws(6,7) by (auto simp: wXd_def mesh_laws_def sign_law_def key_law_def pid_law_def can_seal_def)

lemma wXd_same:
  "fingerprint wXd f = fingerprint wX f" "lookup_keys wXd = lookup_keys wX" "lsh_new wXd = lsh_new wX"
  "default_seed wXd = default_seed wX" "peer_id wXd = peer_id wX"
proof -
  have b: "generate_plane wXd = generate_plane wX"
  proof (intro ext)
    have "plane_loop wXd bs n i = plane_loop wX bs n i" for bs n i
      by (induction n arbitrary: i) (simp_all add: box_muller_def wXd_def)
    then show "generate_plane wXd s t b d = generate_plane wX s t b d" for s t b d
      by (simp add: generate_plane_def) (simp add: wXd_def)
  qed
  show "lsh_new wXd = lsh_new wX" by (intro ext) (simp add: lsh_new_def b)
qed (auto simp: fingerprint_def canonical_facets_def normalize_def lookup_keys_def dht_key_def default_seed_def
    peer_id_def wXd_def intro!: ext)

lemma wS0_daemon_d: "daemon_state wXd wN wS0"
proof -
  have keys: "kp_public wXd = kp_public wX" "pid_of_key wXd = pid_of_key wX" by (simp_all add: wXd_def)
  have "kited_start wXd wN wB default_config = kited_start wX wN wB default_config"
    by (simp add: kited_start_def boot_identity_def default_config_def default_identity_def build_swarm_def wXd_same keys)
  then show ?thesis unfolding daemon_state_def using wS0_booted reachable.start by metis
qed

section \<open>Witnesses\<close>

theorem search_terminates_witness:
  "\<exists>s'. run wX wN [wGot] wS3 = (None, s') \<and> phase_of wL [] s' \<noteq> Searching"
proof -
  have "ledger_finite wL" by (simp add: ledger_finite_def wL_def)
  moreover have "settling wX wN [] [wGot] wS3"
    using wGot_ok by (simp add: wGot_def wS3_def wS2_def)
  moreover have "open_questions [] wS3 = 1"
  proof -
    have "{q. st_pending_lookups wS3 q = Some []} = {}" "{r. st_pending_card_fetches wS3 r = Some []} = {OutboundRequestId 5}"
      by (auto simp: wS3_def wS2_def split: if_splits)
    then show ?thesis by (simp add: open_questions_def)
  qed
  ultimately show ?thesis
    using search_terminates [OF wN_fresh _ wN_works(1) wS3_daemon wX_laws(7)] by (metis length_Cons list.size(3) One_nat_def)
qed

end
