(* ===== verification/Kite_System_Witness.thy ===== *)
theory Kite_System_Witness
  imports Kite_Order Kite_Skeleton Kite_Discovery_Witness
begin

text \<open>
  The properties of whole runs applied at the concrete instance: the run of a search up to its
  REQUEST, and two daemons from a publication to the receipts.
\<close>

section \<open>A run of the requester\<close>

definition wRun :: "Input list" where
  "wRun = [wSubmit, wFound, wFinish 1, wFinish 2, wFinish 3, wFinish 4, wGot]"

lemma wRun_ends: "run wX wN wRun wS0 = (None, wS4)"
proof -
  have split: "wRun = [wSubmit, wFound] @ [wFinish 1, wFinish 2, wFinish 3, wFinish 4] @ [wGot]" by (simp add: wRun_def)
  have "run wX wN [wSubmit, wFound] wS0 = (None, wS2)" "run wX wN [wGot] wS3 = (None, wS4)"
    using wTurn1 wTurn2 wTurn4(1) by (simp_all del: loop_turn.simps)
  then show ?thesis unfolding split run_append using wTurn3 by (simp del: run.simps)
qed

lemma wRun_ok: "list_all input_ok wRun"
  using wGot_ok by (simp add: wRun_def wSubmit_def wFound_def wFinish_def wVec_unit)

section \<open>A card of the publisher\<close>

lemma wBuilt: "\<exists>c. capability_build wXd None wI ''cap'' [] [] wFacets [] wVec 0 = Ok c \<and> card_capability_id c = ''cap''"
  by (simp add: capability_build_def card_signing_bytes_def identity_sign_def dim384 Let_def)
    (simp add: wXd_def wX_def wI_def wVec_def)

section \<open>Witnesses\<close>

theorem sent_well_typed_witness:
  "run wX wN wRun wS0 = (None, wS4) \<and> list_all (well_typed wX wI) (outbox wX wN wRun wS0)"
proof -
  obtain h where h: "kited_start wX wN wB default_config = Ok (h, wS0)" using wS0_booted by blast
  have "kh_identity h = wI" using h by (elim kited_start_Ok) (auto simp: wS0_def initial_state_def)
  then show ?thesis using sent_well_typed [OF wX_laws(6) h, of wRun] wRun_ends by simp
qed

theorem sent_in_order_witness:
  "\<exists>peer. acts [] (outbox wX wN wRun wS0) \<in> {[], [(peer, Request)], [(peer, Request), (peer, Agree)]}"
  using wS0_booted sent_in_order [OF wN_fresh _ wRun_ok] by blast

theorem walking_skeleton_witness:
  "\<exists>c pubs B1 A1 Q. capability_build wXd None wI ''cap'' [] [] wFacets [] wVec 0 = Ok c \<and>
     build_records wXd c (st_lsh wS0) wI RECORD_TTL_NS = Ok pubs \<and> pubs \<noteq> [] \<and> Q \<noteq> [] \<and>
     loop_turn wXd wN (InCommand (Some (PublishCapability c (Oneshot 1)))) wS0 = (None, B1) \<and>
     loop_turn wXd wN (InCommand (Some (SubmitIntent wFacets wVec wIntent (Oneshot 2)))) wS0 = (None, A1) \<and>
     (\<forall>q\<in>set Q. \<forall>p\<in>set pubs. \<forall>rec. kr_value rec = pub_record_bytes p \<longrightarrow> (\<exists>conv sig A2 A4 B3.
       loop_turn wXd wN (InSwarm (BehaviourKademlia (OutboundQueryProgressed q (FoundRecord rec)))) A1 = (None, A2) \<and>
       st_intent_replies A4 = [(Oneshot 2, Ok \<lparr>out_conversation_id = conv, out_matched_capability_id = ''cap'',
         out_cosine_score = dot wVec wVec\<rparr>)] \<and>
       has_receipt wXd (A4 :: nat State) conv ''cap'' (pid_to_string wXd (peer_id wXd wI)) (pid_to_string wXd (peer_id wXd wI)) (Some sig) \<and>
       has_receipt wXd (B3 :: nat State) conv ''cap'' (pid_to_string wXd (peer_id wXd wI)) (pid_to_string wXd (peer_id wXd wI)) None))"
proof -
  obtain c where c: "capability_build wXd None (st_identity wS0) ''cap'' [] [] wFacets [] wVec 0 = Ok c"
    using wBuilt by (auto simp: wS0_def initial_state_def)
  have s: "st_local_cards wS0 = Map.empty" "st_identity wS0 = wI" "st_intent_replies wS0 = []"
    by (simp_all add: wS0_def initial_state_def)
  have h: "\<forall>w. hash_first wN w [''cap'' \<mapsto> c] = Some ''cap''" by (simp add: wN_def)
  have f: "facets_match wFacets wFacets" "(of_nat (length wVec) :: u32) = CANONICAL_EMBEDDING_DIM"
    by (simp_all add: facets_match_def covers_def field_ok_def wFacets_def dim384)
  from walking_skeleton [OF wXd_mesh(1) wXd_law wN_fresh wS0_daemon_d wXd_mesh(2) wN_works(1,2) s(1) h c wVec_unit(1)
      wN_fresh wS0_daemon_d wXd_mesh(2) wN_works(1) f(1) wVec_unit(1) f(2),
      where ack = "Oneshot 1" and intent = wIntent and reply = "Oneshot 2" and ?ch0.0 = "ResponseChannel 0"
        and ch = "ResponseChannel 1" and ch' = "ResponseChannel 2", unfolded s(2,3) append_Nil]
  show ?thesis
  proof (elim exE conjE, goal_cases)
    case (1 pubs B1 A1 conv Q)
    show ?case
    proof (rule exI [of _ c], rule exI [of _ pubs], rule exI [of _ B1], rule exI [of _ A1], rule exI [of _ Q],
        intro conjI ballI allI impI, goal_cases)
      case (7 q p rec)
      then show ?case using 1(8) [rule_format, of q p rec] by blast
    qed (use 1 c s(2) in simp_all)
  qed
qed

end
