(* ===== verification/Kite_Mesh_Witness.thy ===== *)
theory Kite_Mesh_Witness
  imports Kite_Mesh Kite_System_Witness
begin

text \<open>
  A run of a mesh: two honest daemons with their own keys and UUIDs boot, one publishes a
  card, the other searches, and the four messages of their conversation are delivered. The
  agreement of receipts is applied at the state that the run ends in.
\<close>

section \<open>Runs of a mesh\<close>

text \<open>The nodes and the delivered calls of a state that the mesh can be in, with every loop running.\<close>

definition situation :: "ext \<Rightarrow> (PeerId \<Rightarrow> 'w net) \<Rightarrow> PeerId set \<Rightarrow> (PeerId \<Rightarrow> string set) \<Rightarrow> 'w nodes \<Rightarrow>
    (PeerId \<Rightarrow> ResponseChannel \<Rightarrow> (PeerId \<times> OutboundRequestId) option) \<Rightarrow> bool" where
  "situation X N H U f calls \<longleftrightarrow> (\<exists>M. mesh_state X N H U M \<and> ms_node M = f \<and> ms_calls M = calls \<and> ms_stopped M = {})"

lemma turn_stopped:
  "loop_turn X (tap (N p)) i (ms_node M p) = (None, s') \<Longrightarrow> ms_stopped (take_turn X N p i M) = ms_stopped M"
  "ms_stopped (note_call q ch x M) = ms_stopped M"
  by (simp_all add: take_turn_def note_call_def)

lemma situation_own:
  assumes "situation X N H U f calls" "p \<in> H" "\<not> acl_event i" "input_ok i" "loop_turn X (tap (N p)) i (f p) = (None, s')"
  shows "situation X N H U (f(p := s')) calls"
proof -
  obtain M where M: "mesh_state X N H U M" "ms_node M = f" "ms_calls M = calls" "ms_stopped M = {}"
    using assms(1) unfolding situation_def by blast
  have "mesh_state X N H U (take_turn X N p i M)"
    using mesh_state.step [OF M(1) mesh_step.own [OF assms(2) _ assms(3,4)]] M(4) by simp
  then show ?thesis using M(2-4) assms(5) turn_stopped(1) [of X N p i M s'] turn_sel(1,2) [of X N p i M]
    unfolding situation_def by (metis snd_conv)
qed

lemma situation_run:
  "situation X N H U f calls \<Longrightarrow> p \<in> H \<Longrightarrow> list_all (\<lambda>i. \<not> acl_event i \<and> input_ok i) is \<Longrightarrow>
    run X (tap (N p)) is (f p) = (None, s') \<Longrightarrow> situation X N H U (f(p := s')) calls"
proof (induction "is" arbitrary: f)
  case (Cons i "is")
  obtain s1 where s1: "loop_turn X (tap (N p)) i (f p) = (None, s1)" "run X (tap (N p)) is s1 = (None, s')"
    using Cons.prems(4) by (auto split: prod.splits option.splits)
  have "situation X N H U (f(p := s1)) calls" using Cons.prems(1-3) s1(1) by (intro situation_own) simp_all
  moreover have "run X (tap (N p)) is ((f(p := s1)) p) = (None, s')" using s1(2) by simp
  ultimately show ?case using Cons.IH [of "f(p := s1)"] Cons.prems(2,3) unfolding list.pred_inject by (metis fun_upd_upd)
qed (auto simp only: run.simps prod.inject fun_upd_triv)

lemma situation_request:
  assumes "situation X N H U f calls" "p \<in> H" "q \<in> H" "(q, m, i) \<in> asked (f p)" "calls q ch = None"
    and "loop_turn X (tap (N q)) (InSwarm (BehaviourAcl (AclRequestMessage p m ch))) (f q) = (None, s')"
  shows "situation X N H U (f(q := s')) (calls(q := (calls q)(ch \<mapsto> (p, i))))"
proof -
  let ?i = "InSwarm (BehaviourAcl (AclRequestMessage p m ch))"
  obtain M where M: "mesh_state X N H U M" "ms_node M = f" "ms_calls M = calls" "ms_stopped M = {}"
    using assms(1) unfolding situation_def by blast
  have "mesh_state X N H U (note_call q ch (p, i) (take_turn X N q ?i M))"
    using mesh_state.step [OF M(1) mesh_step.request [OF assms(2,3)]] M(2-4) assms(4,5) by simp
  then show ?thesis
    using M(2-4) assms(6) turn_stopped(1) [of X N q ?i M s'] turn_stopped(2) [of q ch "(p, i)" "take_turn X N q ?i M"]
      turn_sel(1,2) [of X N q ?i M] turn_sel(3,4) [of q ch "(p, i)" "take_turn X N q ?i M"]
    unfolding situation_def by (metis snd_conv)
qed

lemma situation_response:
  assumes "situation X N H U f calls" "p \<in> H" "q \<in> H" "calls q ch = Some (p, i)" "(ch, m) \<in> answered (f q)"
    and "loop_turn X (tap (N p)) (InSwarm (BehaviourAcl (AclResponseMessage q i m))) (f p) = (None, s')"
  shows "situation X N H U (f(p := s')) calls"
proof -
  let ?i = "InSwarm (BehaviourAcl (AclResponseMessage q i m))"
  obtain M where M: "mesh_state X N H U M" "ms_node M = f" "ms_calls M = calls" "ms_stopped M = {}"
    using assms(1) unfolding situation_def by blast
  have "mesh_state X N H U (take_turn X N p ?i M)"
    using mesh_state.step [OF M(1) mesh_step.response [OF assms(2) _ assms(3)]] M(2-4) assms(4,5) by simp
  then show ?thesis using M(2-4) assms(6) turn_stopped(1) [of X N p ?i M s'] turn_sel(1,2) [of X N p ?i M]
    unfolding situation_def by (metis snd_conv)
qed

lemma situation_peer: "situation X N H U f calls \<Longrightarrow> mesh_works X N L H U \<Longrightarrow> p \<in> H \<Longrightarrow> peer_id X (st_identity (f p)) = p"
  using mesh_state_inv node_peer unfolding situation_def mesh_inv_def by blast

text \<open>The four messages of a conversation, delivered to two different nodes.\<close>

lemma sends_asked: "acl_send_request (tap N) w q m = (i, st_swarm s) \<Longrightarrow> (q, m, i) \<in> asked s"
  by (auto simp: asked_def recorded_def loud_def split: prod.splits) (metis in_set_conv_decomp snd_conv)

lemma sends_answered:
  "st_swarm s = acl_send_response (tap N) w ch m \<Longrightarrow> (ch, m) \<in> answered s"
  "sys_clock (tap N) (acl_send_response (tap N) w ch m) = (t, w') \<Longrightarrow> sql_outcome (tap N) w' = (e, st_swarm s) \<Longrightarrow> (ch, m) \<in> answered s"
  by (auto simp: answered_def recorded_def dest!: tap_snd)

lemma situation_exchange:
  assumes "situation X N H U f calls" "a \<in> H" "b \<in> H" "a \<noteq> b" "mesh_works X N L H U"
    and "(b, m, i) \<in> asked (f a)" "calls b = Map.empty" "ch \<noteq> ch'"
    and "exchange X (tap (N a)) (tap (N b)) ch ch' i m (f a) (f b) m' A' B'"
  shows "\<exists>calls'. situation X N H U (f(b := B', a := A')) calls'"
proof -
  note peers = situation_peer [OF assms(1,5)]
  from assms(9) [unfolded exchange_def Let_def peers [OF assms(2)] peers [OF assms(3)]] show ?thesis
  proof (elim exE conjE, goal_cases)
    case (1 B1 m2 w2 A1 m3 w3 j w4 t w5)
    let ?c1 = "calls(b := (calls b)(ch \<mapsto> (a, i)))" and ?f1 = "f(b := B1)" and ?f2 = "f(b := B1, a := A1)"
    let ?c2 = "?c1(b := (?c1 b)(ch' \<mapsto> (a, j)))" and ?f3 = "?f2(b := B')"
    have "situation X N H U ?f1 ?c1" using situation_request [OF assms(1-3,6) _ 1(1)] assms(7) by simp
    then have "situation X N H U ?f2 ?c1"
      using situation_response [of X N H U ?f1 ?c1 a b ch i m2 A1] assms(2-4) 1(3) sends_answered(1) [OF 1(2)] by (simp del: loop_turn.simps)
    then have "situation X N H U ?f3 ?c2"
      using situation_request [of X N H U ?f2 ?c1 a b m3 j ch' B'] assms(2-4,7,8) 1(5) sends_asked [OF 1(4)] by (simp del: loop_turn.simps)
    then have "situation X N H U (?f3(a := A')) ?c2"
      using situation_response [of X N H U ?f3 ?c2 a b ch' j m' A'] assms(2-4) 1(6) sends_answered(2) [OF 1(7,8)] by (simp del: loop_turn.simps)
    moreover have "?f3(a := A') = f(b := B', a := A')" using assms(4) by auto
    ultimately show ?case by metis
  qed
qed

section \<open>Two daemons\<close>

text \<open>
  A daemon boots in the world \<open>w\<close> with the key pair \<open>b\<close>; its generator draws UUIDs that end in the
  bytes of the key, and so differ from those of another.
\<close>

definition wBoot :: "bytes \<Rightarrow> 'w \<Rightarrow> 'w boot" where
  "wBoot b w = \<lparr>bt_exists = (\<lambda>p. False), bt_fs = wFs, bt_text = (\<lambda>p. Inl []), bt_toml = (\<lambda>t. Inl []),
     bt_metrics = None, bt_fresh = Keypair b, bt_encoder_join = None, bt_encoder_load = Inr (),
     bt_mkdir = None, bt_connect = None, bt_migrate = None, bt_database = (\<lambda>p. None),
     bt_version = ''0.1.0'', bt_tcp = None, bt_mdns = None, bt_swarm = (\<lambda>kp mb t. w),
     bt_multiaddr = (\<lambda>a. Inr a), bt_listen = (\<lambda>w a. (None, w))\<rparr>"

definition wNode :: "char \<Rightarrow> nat net" where
  "wNode c = wN\<lparr>sys_uuid := (\<lambda>w. (replicate (Suc w) c, Suc w))\<rparr>"

definition wLedger :: "char \<Rightarrow> nat ledger" where
  "wLedger c = wL\<lparr>lg_uuids := (\<lambda>w. (\<lambda>n. replicate (Suc n) c) ` {..<w})\<rparr>"

definition wStart :: "bytes \<Rightarrow> 'w \<Rightarrow> 'w State" where
  "wStart b w = initial_state w \<lparr>keypair = Keypair b\<rparr> wlsh Map.empty"

definition wAlice :: PeerId where
  "wAlice = PeerId [65]"

definition wBert :: PeerId where
  "wBert = PeerId [66]"

definition wNet :: "PeerId \<Rightarrow> nat net" where
  "wNet p = wNode (if p = wAlice then CHR ''a'' else CHR ''b'')"

definition wLedgers :: "PeerId \<Rightarrow> nat ledger" where
  "wLedgers p = wLedger (if p = wAlice then CHR ''a'' else CHR ''b'')"

definition wUuids :: "PeerId \<Rightarrow> string set" where
  "wUuids p = (\<lambda>n. replicate (Suc n) (if p = wAlice then CHR ''a'' else CHR ''b'')) ` UNIV"

definition wNodes :: "nat nodes" where
  "wNodes p = tapped (wStart (if p = wAlice then [65] else [66]) 0)"

lemma wNode_fresh: "net_fresh (wNode c) (wLedger c)"
  by (auto simp: net_fresh_def grows_def wN_def wL_def wNode_def wLedger_def)

lemma wNode_works: "sql_works (wNode c)" "puts_accepted (tap (wNode c))"
  by (simp_all add: wN_def wNode_def sql_works_def puts_accepted_def loud_def)

lemma wStart_booted:
  "kited_start wXd N (wBoot b w) default_config =
    Ok (\<lparr>kh_peer_id = PeerId b, kh_identity = \<lparr>keypair = Keypair b\<rparr>, kh_receipts = Map.empty\<rparr>, wStart b w)"
  by (simp add: kited_start_def boot_identity_def default_config_def default_identity_def identity_generate_def
      wBoot_def encoder_new_def store_open_def build_swarm_def mesh_behaviour_new_def spawn_def Let_def wStart_def
      initial_state_def wlsh_def peer_id_def wXd_same) (simp add: wXd_def wX_def)

lemma wPair_works: "mesh_works wXd wNet wLedgers {wAlice, wBert} wUuids"
  by (auto simp: mesh_works_def wXd_mesh wNet_def wLedgers_def wNode_fresh wNode_works issues_def wUuids_def wAlice_def wBert_def)
    (auto simp: wNode_def)

lemma wPair_start: "situation wXd wNet {wAlice, wBert} wUuids wNodes (\<lambda>q ch. None)"
proof -
  let ?M = "\<lparr>ms_node = wNodes, ms_calls = \<lambda>q ch. None, ms_stopped = {}\<rparr>"
  have "\<exists>B cfg h s. kited_start wXd (wNet p) B cfg = Ok (h, s) \<and> kh_peer_id h = p \<and> st_receipts s = Map.empty \<and> wNodes p = tapped s"
    if p: "p \<in> {wAlice, wBert}" for p
  proof (intro exI conjI)
    let ?b = "if p = wAlice then [65] else [66] :: bytes"
    show "kited_start wXd (wNet p) (wBoot ?b 0) default_config =
      Ok (\<lparr>kh_peer_id = PeerId ?b, kh_identity = \<lparr>keypair = Keypair ?b\<rparr>, kh_receipts = Map.empty\<rparr>, wStart ?b 0)"
      by (rule wStart_booted)
  qed (use p in \<open>auto simp: wNodes_def wAlice_def wBert_def wStart_def initial_state_def\<close>)
  then have "mesh_start wXd wNet {wAlice, wBert} ?M" by (simp add: mesh_start_def)
  then show ?thesis using mesh_state.start unfolding situation_def by fastforce
qed

section \<open>Their conversation\<close>

lemma wNodes_daemon:
  "p \<in> {wAlice, wBert} \<Longrightarrow> daemon_state wXd (tap (wNet p)) (wNodes p)"
  "st_identity (wNodes wAlice) = \<lparr>keypair = Keypair [65]\<rparr>" "st_identity (wNodes wBert) = \<lparr>keypair = Keypair [66]\<rparr>"
  "st_local_cards (wNodes p) = Map.empty"
proof -
  let ?b = "if p = wAlice then [65] else [66] :: bytes"
  have "wNodes p = wStart ?b (0, [])" by (simp add: wNodes_def tapped_def with_world_def wStart_def initial_state_def)
  then show "daemon_state wXd (tap (wNet p)) (wNodes p)"
    unfolding daemon_state_def using wStart_booted [of "tap (wNet p)" ?b "(0, [])"] reachable.start by metis
qed (simp_all add: wNodes_def tapped_def with_world_def wStart_def initial_state_def wAlice_def wBert_def)

lemma wPeers: "peer_id wXd \<lparr>keypair = Keypair [65]\<rparr> = wAlice" "peer_id wXd \<lparr>keypair = Keypair [66]\<rparr> = wBert" "wAlice \<noteq> wBert"
  by (simp_all add: wXd_def wX_def peer_id_def wAlice_def wBert_def)

lemma wCard_of: "\<exists>c. capability_build wXd None \<lparr>keypair = Keypair b\<rparr> ''cap'' [] [] wFacets [] wVec 0 = Ok c"
  by (simp add: capability_build_def card_signing_bytes_def identity_sign_def dim384 Let_def)
    (simp add: wXd_def wX_def wVec_def)

text \<open>\<open>wBert\<close> publishes a card and \<open>wAlice\<close> submits an intent: the search is open.\<close>

lemma wPair_search:
  obtains f c conv req Q pubs where "situation wXd wNet {wAlice, wBert} wUuids f (\<lambda>q ch. None)"
    "daemon_state wXd (tap (wNet wAlice)) (f wAlice)"
    "st_identity (f wAlice) = \<lparr>keypair = Keypair [65]\<rparr>" "st_identity (f wBert) = \<lparr>keypair = Keypair [66]\<rparr>"
    "capability_build wXd None (st_identity (f wBert)) ''cap'' [] [] wFacets [] wVec 0 = Ok c" "st_local_cards (f wBert) = [''cap'' \<mapsto> c]"
    "build_records wXd c (st_lsh (wNodes wBert)) (st_identity (f wBert)) RECORD_TTL_NS = Ok pubs" "pubs \<noteq> []"
    "st_requesters (f wAlice) conv = Some req" "\<not> rs_request_sent req" "rs_fetched_cards req = []" "rs_seen_capability_ids req = {}"
    "rs_in_flight_card_fetches req = {}" "rs_required req = wFacets" "rs_reply req = Some (Oneshot 2)"
    "distinct Q" "set Q = {q. st_pending_lookups (f wAlice) q = Some conv}" "Q \<noteq> []"
proof -
  let ?NA = "tap (wNet wAlice)" and ?NB = "tap (wNet wBert)"
  have fresh: "net_fresh ?NA (tap_ledger (wLedgers wAlice))" "net_fresh ?NB (tap_ledger (wLedgers wBert))"
    by (simp_all add: tap_fresh wNode_fresh wNet_def wLedgers_def del: tap_sel)
  note B = wNodes_daemon(1) [of wBert] and invB = daemon_inv(1) [OF fresh(2) wNodes_daemon(1)]
  obtain c where c: "capability_build wXd None (st_identity (wNodes wBert)) ''cap'' [] [] wFacets [] wVec 0 = Ok c"
    using wCard_of [of "[66]"] by (auto simp: wNodes_daemon)
  have cv: "capability_verify wXd c = Ok ()" "card_capability_id c = ''cap''"
    using capability_build_verifies [OF mesh_lawsD [OF wXd_mesh(1)] c] capability_build_Ok_iff [OF c] by simp_all
  obtain pubs where pubs: "build_records wXd c (st_lsh (wNodes wBert)) (st_identity (wNodes wBert)) RECORD_TTL_NS = Ok pubs" "pubs \<noteq> []"
    using publishable [OF invB wXd_mesh(2) cv(1)] by auto
  have "puts_accepted ?NB" using wNode_works(2) by (simp add: wNet_def)
  then obtain B1 where B1: "publish wXd ?NB c (Oneshot 1) (wNodes wBert) = (Ok (), B1)"
    "st_local_cards B1 = [''cap'' \<mapsto> c]" "st_identity B1 = st_identity (wNodes wBert)"
    using publish_offers [OF fresh(2) invB wXd_mesh(2) _ cv(1), of "Oneshot 1"] wNodes_daemon(4) cv(2) by auto
  have s1: "situation wXd wNet {wAlice, wBert} wUuids (wNodes(wBert := B1)) (\<lambda>q ch. None)"
    by (rule situation_own [OF wPair_start, where i = "InCommand (Some (PublishCapability c (Oneshot 1)))"]) (use B1(1) in simp_all)
  obtain A1 conv req where sub: "loop_turn wXd ?NA (InCommand (Some (SubmitIntent wFacets wVec wIntent (Oneshot 2)))) (wNodes wAlice) = (None, A1)"
    and req: "st_requesters A1 conv = Some req" "rs_outstanding_dht_queries req = {q. st_pending_lookups A1 q = Some conv}"
    "finite (rs_outstanding_dht_queries req)" "rs_outstanding_dht_queries req \<noteq> {}" "\<not> rs_request_sent req"
    "rs_reply req = Some (Oneshot 2)" "rs_required req = wFacets"
    "rs_fetched_cards req = []" "rs_seen_capability_ids req = {}" "rs_in_flight_card_fetches req = {}"
    and A1: "daemon_state wXd ?NA A1" "st_identity A1 = st_identity (wNodes wAlice)"
    using submit_effect [OF fresh(1) wNodes_daemon(1) wVec_unit(1) dim384] by (metis insertI1)
  obtain Q where Q: "distinct Q" "set Q = {q. st_pending_lookups A1 q = Some conv}" "Q \<noteq> []"
    using req(2-4) finite_distinct_list by (metis set_empty)
  let ?f = "wNodes(wBert := B1, wAlice := A1)"
  have "situation wXd wNet {wAlice, wBert} wUuids ?f (\<lambda>q ch. None)"
    by (rule situation_own [OF s1, where i = "InCommand (Some (SubmitIntent wFacets wVec wIntent (Oneshot 2)))"])
      (use sub in \<open>simp_all add: wVec_unit wPeers(3) del: loop_turn.simps tap_sel\<close>)
  moreover have "?f wAlice = A1" "?f wBert = B1" using wPeers(3) by simp_all
  ultimately show thesis
    using A1 B1(2,3) c pubs req(1,5-10) Q wNodes_daemon(2,3) by (intro that [of ?f c pubs conv req Q]) simp_all
qed

text \<open>The search finds the card, and the conversation that follows is delivered.\<close>

lemma wPair_done:
  "\<exists>f calls conv ct. situation wXd wNet {wAlice, wBert} wUuids f calls \<and>
    has_receipt wXd (f wAlice) conv ''cap'' (pid_to_string wXd wAlice) (pid_to_string wXd wBert) ct"
proof (rule wPair_search)
  fix f c conv req Q pubs
  let ?NA = "tap (wNet wAlice)" and ?NB = "tap (wNet wBert)" and ?H = "{wAlice, wBert}"
  assume sit: "situation wXd wNet ?H wUuids f (\<lambda>q ch. None)" and A: "daemon_state wXd ?NA (f wAlice)"
    and ids: "st_identity (f wAlice) = \<lparr>keypair = Keypair [65]\<rparr>" "st_identity (f wBert) = \<lparr>keypair = Keypair [66]\<rparr>"
    and c: "capability_build wXd None (st_identity (f wBert)) ''cap'' [] [] wFacets [] wVec 0 = Ok c" "st_local_cards (f wBert) = [''cap'' \<mapsto> c]"
    and pubs: "build_records wXd c (st_lsh (wNodes wBert)) (st_identity (f wBert)) RECORD_TTL_NS = Ok pubs" "pubs \<noteq> []"
    and req: "st_requesters (f wAlice) conv = Some req" "\<not> rs_request_sent req" "rs_fetched_cards req = []" "rs_seen_capability_ids req = {}"
      "rs_in_flight_card_fetches req = {}" "rs_required req = wFacets" "rs_reply req = Some (Oneshot 2)"
    and Q: "distinct Q" "set Q = {q. st_pending_lookups (f wAlice) q = Some conv}" "Q \<noteq> []"
  have net: "net_fresh ?NA (tap_ledger (wLedgers wAlice))" "sql_works ?NA" "sql_works ?NB"
      "hash_first ?NB (st_swarm (f wBert)) (st_local_cards (f wBert)) = Some ''cap''"
    by (simp_all add: tap_fresh wNode_fresh sql_works_tap wNode_works(1) wNet_def wLedgers_def c(2))
      (simp add: wNode_def wN_def)
  have cv: "capability_verify wXd c = Ok ()" "card_facets c = Some wFacets" "card_capability_id c = ''cap''"
    "card_agent_id c = pid_to_string wXd (peer_id wXd (st_identity (f wBert)))"
    using capability_build_verifies [OF mesh_lawsD [OF wXd_mesh(1)] c(1)] capability_build_Ok_iff [OF c(1)] by simp_all
  obtain e where e: "card_embedding c = Some e" "unit_vec (emb_vector e)" using capability_build_Ok_iff [OF c(1)] wVec_unit(1) by force
  have fm: "facets_match (rs_required req) wFacets" by (simp add: req(6) facets_match_def covers_def field_ok_def wFacets_def)
  obtain q p where qp: "q \<in> set Q" "p \<in> set pubs" by (rule that [OF hd_in_set hd_in_set]) (rule Q(3), rule pubs(2))
  let ?r = "\<lparr>kr_key = [], kr_value = pub_record_bytes p, kr_publisher = None\<rparr>"
  have "kr_value ?r = pub_record_bytes p" by simp
  from hit_completes [OF wXd_mesh(1) wXd_law net(1) A wXd_mesh(2) net(2) wXd_mesh(2) net(3,4) pubs(1) cv(1,2) e cv(4,3) req(1-5) fm
      req(7) Q(1,2) qp this, of "ResponseChannel 1" "ResponseChannel 2"]
  show ?thesis
  proof (elim exE conjE, goal_cases)
    case (1 A2 r A3 w i m m' A4 B3)
    have "situation wXd wNet ?H wUuids (f(wAlice := A2)) (\<lambda>q ch. None)" by (rule situation_own [OF sit _ _ _ 1(1)]) simp_all
    then have s3: "situation wXd wNet ?H wUuids (f(wAlice := A2, wAlice := A3)) (\<lambda>q ch. None)"
      by (rule situation_run) (use 1(3) e in \<open>simp_all add: list_all_iff del: run.simps\<close>)
    let ?f = "f(wAlice := A3)"
    have "\<exists>calls. situation wXd wNet ?H wUuids (?f(wBert := B3, wAlice := A4)) calls"
      by (rule situation_exchange [OF _ _ _ wPeers(3) wPair_works, of _ "\<lambda>q ch. None" m i "ResponseChannel 1" "ResponseChannel 2"])
        (use s3 sends_asked [OF 1(4)] 1(5) ids wPeers in simp_all)
    moreover have "(?f(wBert := B3, wAlice := A4)) wAlice = A4" by simp
    ultimately show ?case using 1(8) ids wPeers by metis
  qed
qed

section \<open>Witness\<close>

theorem receipt_agreement_witness:
  "\<exists>M conv r cap. mesh_state wXd wNet {wAlice, wBert} wUuids M \<and> store_get None conv (st_receipts (ms_node M wAlice)) = Ok (Some r) \<and>
     {q. told (ms_node M) wAlice q conv} = {wBert} \<and>
     has_receipt wXd (ms_node M wBert) conv cap (pid_to_string wXd wAlice) (pid_to_string wXd wBert) None"
proof -
  obtain M conv ct where M: "mesh_state wXd wNet {wAlice, wBert} wUuids M"
    "has_receipt wXd (ms_node M wAlice) conv ''cap'' (pid_to_string wXd wAlice) (pid_to_string wXd wBert) ct"
    using wPair_done unfolding situation_def by blast
  then obtain r where "store_get None conv (st_receipts (ms_node M wAlice)) = Ok (Some r)"
    "rec_provider_peer_id (sr_receipt r) = pid_to_string wXd wBert"
    unfolding has_receipt_def by blast
  then show ?thesis using receipt_agreement [OF wPair_works M(1) _ _ wPeers(3)] M(1) by blast
qed

end
