(* ===== verification/Spec2Isabelle.thy ===== *)
theory Spec2Isabelle
  imports Kite_Loop_Witness Kite_Core_Witness Kite_Mesh_Witness
begin

text \<open>
  A model of Kite Mesh, a peer-to-peer layer in which agents publish signed capability cards to a
  distributed hash table, find each other by semantic similarity, and agree on a task with
  signed speech acts. The sources are the five crates under \<^verbatim>\<open>src/crates\<close>.

  \<^bold>\<open>The program.\<close> A daemon (\<^verbatim>\<open>kited\<close>) owns one Ed25519 identity, a libp2p swarm, a table of
  locality-sensitive hash planes and an SQLite store of receipts. Callers talk to it through an
  inbox: \<^verbatim>\<open>publish_capability\<close> verifies a card, derives one directory record per hash table and puts
  them into the DHT; \<^verbatim>\<open>submit_intent\<close> looks the query's keys up, fetches the cards of the records
  it finds, ranks them, and runs REQUEST, PROPOSE, AGREE, INFORM with the best provider; both
  sides then store a signed receipt. All of this is one event loop that reacts to commands and
  to swarm events and keeps its progress in hash maps keyed by query, request and conversation
  identifiers.

  \<^bold>\<open>Theories and sources.\<close>
  \<^item> \<^verbatim>\<open>Kite_Prelude\<close>, \<^verbatim>\<open>Kite_Strings\<close>, \<^verbatim>\<open>Kite_Float\<close>: what the sources use of Rust and its standard
    library. Results are values of \<open>exec\<close> (\<open>Ok\<close>, \<open>Err\<close>, \<open>Panic\<close>), so that every \<^verbatim>\<open>?\<close>, assertion and
    out-of-range index is a branch; strings are their UTF-8 bytes with Unicode trimming and ASCII
    case folding; \<^verbatim>\<open>f32\<close> and \<^verbatim>\<open>f64\<close> are IEEE numbers with rounding to nearest, ties to even.
  \<^item> \<^verbatim>\<open>Kite_Proto\<close>: the messages of the \<^verbatim>\<open>.proto\<close> files, the constants of \<^verbatim>\<open>kite-mesh-proto\<close>, the errors
    of \<^verbatim>\<open>error.rs\<close>, and the record \<open>ext\<close> of third-party operations, the parameter \<open>X\<close>.
  \<^item> \<^verbatim>\<open>Kite_Identity\<close>, \<^verbatim>\<open>Kite_Facets\<close>, \<^verbatim>\<open>Kite_Acl\<close>, \<^verbatim>\<open>Kite_Capability\<close>, \<^verbatim>\<open>Kite_Receipt\<close>: \<^verbatim>\<open>identity.rs\<close>, \<^verbatim>\<open>facets.rs\<close>,
    \<^verbatim>\<open>acl.rs\<close>, \<^verbatim>\<open>capability.rs\<close> with \<^verbatim>\<open>intent.rs\<close>, and \<^verbatim>\<open>receipt.rs\<close> of \<^verbatim>\<open>kite-mesh-core\<close>. The four signed
    message types interpret one locale, \<^verbatim>\<open>sealed_message\<close>; the SQL table interprets \<^verbatim>\<open>receipt_store\<close>.
  \<^item> \<^verbatim>\<open>Kite_Lsh\<close>, \<^verbatim>\<open>Kite_Encoder\<close>, \<^verbatim>\<open>Kite_Directory\<close>, \<^verbatim>\<open>Kite_Rerank\<close>: the files of the same names of
    \<^verbatim>\<open>kite-mesh-discovery\<close>. The sort of \<^verbatim>\<open>rerank\<close> interprets the locale \<^verbatim>\<open>total_cmp\<close>.
  \<^item> \<^verbatim>\<open>Kite_Codec\<close>: \<^verbatim>\<open>codec.rs\<close> of \<^verbatim>\<open>kite-mesh-transport\<close>; the four codecs interpret \<^verbatim>\<open>stream_codec\<close>.
  \<^item> \<^verbatim>\<open>Kite_Event_Loop\<close>: \<^verbatim>\<open>event_loop.rs\<close>. One definition per handler, from a state to an outcome and
    a new state; \<open>loop_turn\<close> is one iteration of the \<^verbatim>\<open>select!\<close> and \<open>run\<close> a sequence of them. The
    swarm, the clocks, the UUID generator and the SQL engine act on a world of type \<open>'w\<close> through
    the fields of the parameter \<open>N\<close>. What callers observe (events, answers, metrics) is part of the state.
  \<^item> \<^verbatim>\<open>Kite_Daemon\<close>: \<^verbatim>\<open>config.rs\<close>, \<^verbatim>\<open>daemon.rs\<close>, \<^verbatim>\<open>main.rs\<close>, \<^verbatim>\<open>metrics.rs\<close>, \<^verbatim>\<open>behaviour.rs\<close>, \<^verbatim>\<open>swarm.rs\<close> and
    \<^verbatim>\<open>events.rs\<close>: command line, boot, inbox, shutdown. The answers of the environment are the record
    \<open>boot\<close>.
  \<^item> \<^verbatim>\<open>Kite_Turn\<close>: the locales \<^verbatim>\<open>turn_invariant\<close> and \<^verbatim>\<open>loop_invariant\<close>: what every handler keeps, every turn,
    every run and every reachable state keep. The invariants of the theories below interpret them.
  \<^item> \<^verbatim>\<open>Kite_Loop_Inv\<close>, \<^verbatim>\<open>Kite_Phases\<close>, \<^verbatim>\<open>Kite_Progress\<close>: the invariant of the loop with one preservation lemma per
    handler, the abstract protocol of a conversation with one simulation lemma per handler, and
    the lemmas that handlers succeed and that searches stay in progress.
  \<^item> \<^verbatim>\<open>Kite_Conversation\<close>, \<^verbatim>\<open>Kite_Exchange\<close>, \<^verbatim>\<open>Kite_Publish\<close>, \<^verbatim>\<open>Kite_Discovery\<close>: the properties of a daemon and of two
    daemons that exchange messages.
  \<^item> \<^verbatim>\<open>Kite_Trace\<close>, \<^verbatim>\<open>Kite_Sent\<close>, \<^verbatim>\<open>Kite_Order\<close>: the outputs of a run. \<open>tap N\<close> is the swarm \<open>N\<close> with a record of what it
    is handed; each handler commutes with forgetting the record, so recording changes no run.
    On the record: the typing of everything sent, and the order of the messages of a conversation.
  \<^item> \<^verbatim>\<open>Kite_Skeleton\<close>: publication, search and exchange of two daemons put together, the scenario of
    \<^verbatim>\<open>tests/walking_skeleton.rs\<close>.
  \<^item> \<^verbatim>\<open>Kite_Links\<close>, \<^verbatim>\<open>Kite_Mesh\<close>: many daemons. \<open>mesh_step\<close> is a step relation on a network of honest daemons, each of
    which takes turns of the event loop on its own inputs and on ACL messages that another one
    sent to it, and of dishonest peers that send anything. Messages are lost, delayed, repeated and reordered
    at will. The lemmas on a single daemon (which requests its awaited answers belong to, what a delivered
    message changes) are in the first theory, the invariant of the mesh in the second.
  \<^item> \<^verbatim>\<open>Kite_Instance\<close> and the theories named \<^verbatim>\<open>Witness\<close>: a concrete instance of all parameters, a daemon
    booted on it and driven through a search, and the properties applied there.

  \<^bold>\<open>What is shown.\<close> For the daemon: its invariant in every reachable state; that no network event
  ends it; that a turn refines the phases unused, searching, awaiting a PROPOSE, awaiting an
  INFORM, closed, stalled; that callers are answered exactly when their conversation closes; that
  a search is never idle and ends after as many answers as it has questions; that the REQUEST
  goes to the best verified match; that a published card reaches a requester's candidates; that
  the exchange completes with verifying receipts on both sides, and the composition of these
  from a publication and an intent to the answer and the receipts; that all a daemon sends is
  signed by it and well typed, and in the order of the protocol, in every run; that only
  authentic messages have an effect and an AGREE has it once. For a mesh with dishonest peers:
  when an honest daemon holds a receipt that names another honest daemon as the provider, the
  other one holds a receipt of the same conversation, requester and provider. For the components: round trips of signing, storing
  and framing, the bounds of frames and of the 32-bit cosine, the meaning of fingerprints, DHT
  keys, hash signatures, filter and ranking, the identity of a boot, and that a frame that is cut
  short or whose stream fails is never taken for a message. Some theorems record
  behaviour that callers have to know: an invalid card or a vector of the wrong length ends the
  loop, a lost card fetch blocks its conversation, an answer of the wrong kind stalls it, an AGREE
  is not bound to its requester nor an INFORM to its conversation, a stranger's REQUEST replaces a
  pending proposal (so the agreement above needs conversation identifiers that cannot be guessed), only
  the last DHT put is acknowledged, a NaN score leaves the order open, and the fingerprint and the
  filter treat white space differently (the last is in this theory).

  \<^bold>\<open>Hypotheses.\<close> Laws of third-party code are named and assumed only where used: signatures verify
  (\<open>sign_law\<close>) and cannot be forged (\<open>only_signed\<close>), keys and peer identifiers round-trip
  (\<open>key_law\<close>, \<open>pid_law\<close>, \<open>pid_inj\<close>, \<open>keypair_law\<close>), prost decodes what it encoded (\<open>wire_law\<close>, \<open>dir_law\<close>,
  \<open>enc_inj\<close>), the JSON is injective and the hash has no collision on the two inputs at hand
  (\<open>json_inj\<close>, \<open>no_collision\<close>), and the swarm and the UUID generator issue fresh identifiers
  (\<open>net_fresh\<close>, relative to a ledger of those issued so far). For the mesh, no two generators issue the
  same UUID, connections are authenticated, and dishonest peers name a conversation of an honest
  daemon only after it has told one of them (\<open>mesh_works\<close>, \<open>mesh_step\<close>, \<open>can_name\<close>). \<open>can_seal\<close>, \<open>sql_works\<close> and \<open>puts_accepted\<close>
  say that encoding, signing, the database and the local record store succeed; \<open>input_ok\<close> says that
  embeddings have components in \<open>[-1, 1]\<close>.

  \<^bold>\<open>Bounds.\<close> All functions are total and no fuel is used: the loops of the sources run over lists
  or a fixed number of planes. The cosine is shown finite for vectors shorter than \<open>2\<^sup>24\<close>, far above
  the canonical 384; frame lengths are natural numbers below \<open>2\<^sup>20 + 1\<close>, where \<^verbatim>\<open>usize\<close> and \<^verbatim>\<open>u32\<close> agree.

  \<^bold>\<open>Not modelled.\<close> The libp2p protocols, SQLite, the neural encoder, prost, serde, TOML parsing, the
  argument parser and BLAKE3 (parameters); tracing and the log subscriber; the rendering of
  metrics; the build script; the unit and integration tests. The scheduling of \<^verbatim>\<open>select!\<close> is
  arbitrary: the properties quantify over all sequences of inputs.
\<close>

section \<open>The fingerprint and the filter\<close>

text \<open>A string without surrounding white space whose characters are all ASCII.\<close>

definition plain_field :: "string \<Rightarrow> bool" where
  "plain_field s \<longleftrightarrow> trim s = s \<and> is_ascii s"

lemma plain_normalize:
  "plain_field a \<Longrightarrow> plain_field b \<Longrightarrow> normalize X a = normalize X b \<Longrightarrow> field_ok a b"
  by (simp add: plain_field_def normalize_def to_lowercase_def field_ok_def eq_ignore_ascii_case_def)

lemma covers_same_set: "set xs = set ys \<Longrightarrow> covers xs ys"
  by (auto simp: covers_def eq_ignore_ascii_case_def)

text \<open>
  C26: the directory and the ranking agree: a requirement and a card with the same fingerprint,
  which therefore meet in the DHT, also pass the facet filter of the ranking, provided their
  enumerated fields are ASCII without surrounding white space.
\<close>

theorem fingerprint_match_passes_filter:
  assumes "json_inj X"
    and "no_collision X (json_facets X (canonical_facets X f)) (json_facets X (canonical_facets X g))"
    and "fingerprint X f = fingerprint X g"
    and "list_all plain_field (enum_fields f)" "list_all plain_field (enum_fields g)"
  shows "fst (facet_filter f g)"
proof -
  have "same_facets X f g" by (rule fingerprint_same_facets [OF assms(1-3)])
  then show ?thesis using assms(4,5) unfolding facet_filter_match facets_match_def same_facets_def
    by (auto simp: enum_fields_def intro: plain_normalize covers_same_set)
qed

theorem fingerprint_match_passes_filter_witness:
  "fst (facet_filter (wFacets\<lparr>fa_region := ''EU''\<rparr>) (wFacets\<lparr>fa_region := ''eu''\<rparr>))"
proof -
  have p: "plain_field ''EU''" "plain_field ''eu''" "plain_field []"
    by (simp_all add: plain_field_def trim_eval is_ascii_def is_ascii_char_def)
  have "normalize wXj ''EU'' = normalize wXj ''eu''"
    by (simp add: normalize_def to_lowercase_def trim_eval ascii_eval)
  then have "fingerprint wXj (wFacets\<lparr>fa_region := ''EU''\<rparr>) = fingerprint wXj (wFacets\<lparr>fa_region := ''eu''\<rparr>)"
    by (intro same_facets_fingerprint) (simp add: same_facets_def enum_fields_def wFacets_def)
  then show ?thesis
    by (rule fingerprint_match_passes_filter [OF wXj_json]) (simp_all add: enum_fields_def wFacets_def p)
qed

text \<open>
  C27: without that proviso they disagree: the fingerprint trims the enumerated fields and the
  filter does not, so a region with a leading space has, for every hash and serialiser, the
  fingerprint of the region without it, and yet the card is filtered out after it was found.
\<close>

theorem fingerprint_match_fails_filter:
  "\<exists>f g. (\<forall>X. fingerprint X f = fingerprint X g) \<and> \<not> fst (facet_filter f g)"
proof (intro exI conjI allI)
  let ?f = "wFacets\<lparr>fa_region := '' eu''\<rparr>" and ?g = "wFacets\<lparr>fa_region := ''eu''\<rparr>"
  have "trim '' eu'' = trim ''eu''" by (simp add: trim_eval)
  then show "fingerprint X ?f = fingerprint X ?g" for X
    by (intro same_facets_fingerprint) (simp add: same_facets_def enum_fields_def normalize_def)
  have "\<not> field_ok '' eu'' ''eu''" by (simp add: field_ok_def eq_ignore_ascii_case_def)
  then show "\<not> fst (facet_filter ?f ?g)"
    unfolding facet_filter_match facets_match_def by simp
qed

end
